(* ===== verification/Prelude.thy ===== *)
theory Prelude
  imports Complex_Main "HOL-Library.Word" "HOL-Library.List_Lexorder" "HOL-Library.Char_ord"
    "HOL-Library.Multiset"
begin

text \<open>
  Shared vocabulary of the development: Go's clock (\<open>time.Time\<close> and \<open>time.Duration\<close>),
  runs of state machines, first-match and best-so-far scans over slices, and the collections of
  rewrite rules the component theories extend.

  A \<open>time.Time\<close> is an integer number of nanoseconds since the Unix epoch; Go's zero time (the
  first of January of year 1) is the constant \<open>zero_time\<close>, so \<open>IsZero\<close> is an equation. A
  \<open>time.Duration\<close> is an integer number of nanoseconds; \<open>Sub\<close> saturates at the bounds of
  \<open>int64\<close> exactly as the Go library's does.

  A Go string is a list of bytes: the type \<open>string\<close> of HOL with the bytewise lexicographic order.
\<close>

named_theorems go_time "rewrite rules on Go times and durations"

section \<open>Go times and durations\<close>

type_synonym gotime = int
type_synonym duration = int

definition zero_time :: gotime where
  "zero_time = - 62135596800000000000"

definition is_zero :: "gotime \<Rightarrow> bool" where
  "is_zero t \<longleftrightarrow> t = zero_time"

definition max_duration :: duration where
  "max_duration = 9223372036854775807"

definition min_duration :: duration where
  "min_duration = - 9223372036854775808"

text \<open>\<open>Time.Sub\<close> saturates when the difference does not fit an \<open>int64\<close>.\<close>

definition tsub :: "gotime \<Rightarrow> gotime \<Rightarrow> duration" where
  "tsub a b = max min_duration (min max_duration (a - b))"

definition second :: duration where
  "second = 1000000000"

definition minute :: duration where
  "minute = 60 * second"

definition millisecond :: duration where
  "millisecond = 1000000"

lemma tsub_ge_iff [go_time]:
  "min_duration < d \<Longrightarrow> d \<le> max_duration \<Longrightarrow> d \<le> tsub a b \<longleftrightarrow> d \<le> a - b"
  unfolding tsub_def by auto

lemma tsub_less_iff [go_time]:
  "min_duration < d \<Longrightarrow> d \<le> max_duration \<Longrightarrow> tsub a b < d \<longleftrightarrow> a - b < d"
  using tsub_ge_iff [of d a b] by linarith

lemma tsub_self [simp]: "tsub a a = 0"
  by (simp add: tsub_def min_duration_def max_duration_def)

section \<open>Integers and their decimal form\<close>

text \<open>Go's integer division truncates towards zero.\<close>

definition go_div :: "int \<Rightarrow> int \<Rightarrow> int" where
  "go_div a b = sgn a * sgn b * (\<bar>a\<bar> div \<bar>b\<bar>)"

lemma go_div_nonneg [simp]: "0 \<le> a \<Longrightarrow> 0 < b \<Longrightarrow> go_div a b = a div b"
  by (cases "a = 0") (simp_all add: go_div_def)

text \<open>\<open>strconv.Itoa\<close>.\<close>

fun digits :: "nat \<Rightarrow> string" where
  "digits n = (if n < 10 then [char_of (48 + n)] else digits (n div 10) @ [char_of (48 + n mod 10)])"

declare digits.simps [simp del]

definition itoa :: "int \<Rightarrow> string" where
  "itoa i = (if i < 0 then CHR ''-'' # digits (nat (- i)) else digits (nat i))"

section \<open>Runs of state machines\<close>

text \<open>The state after a sequence of events, for a machine given by its step function.\<close>

primrec run_events :: "('s \<Rightarrow> 'e \<Rightarrow> 's) \<Rightarrow> 's \<Rightarrow> 'e list \<Rightarrow> 's" where
  "run_events step s [] = s"
| "run_events step s (e # es) = run_events step (step s e) es"

lemma run_events_append [simp]:
  "run_events step s (xs @ ys) = run_events step (run_events step s xs) ys"
  by (induction xs arbitrary: s) auto

text \<open>
  A machine whose steps keep an invariant and a frame: every component with a state has such an
  invariant, and its interpretation of this locale lifts the one-step facts to runs.
\<close>

locale invariant_machine =
  fixes step :: "'s \<Rightarrow> 'e \<Rightarrow> 's"
    and inv :: "'s \<Rightarrow> bool"
    and fixed :: "'s \<Rightarrow> 'f"
  assumes step_keeps: "inv s \<Longrightarrow> inv (step s e)"
    and step_fixes: "fixed (step s e) = fixed s"
begin

lemma run_keeps: "inv s \<Longrightarrow> inv (run_events step s es)"
  by (induction es arbitrary: s) (auto intro: step_keeps)

lemma run_fixes: "fixed (run_events step s es) = fixed s"
  by (induction es arbitrary: s) (auto simp: step_fixes)

end

text \<open>A state that no step leaves.\<close>

locale absorbing_machine =
  fixes step :: "'s \<Rightarrow> 'e \<Rightarrow> 's"
    and stuck :: "'s \<Rightarrow> bool"
  assumes step_absorbs: "stuck s \<Longrightarrow> stuck (step s e)"
begin

lemma run_absorbs: "stuck s \<Longrightarrow> stuck (run_events step s es)"
  by (induction es arbitrary: s) (auto intro: step_absorbs)

end

end
