(* ===== verification/Ladder.thy ===== *)
theory Ladder
  imports Prelude
begin

text \<open>
  The health ladder of one backend (\<open>internal/supervisor/ladder.go\<close>): a pure state machine that
  turns probe results into respawns and, once the respawn budget is spent, into a dead backend.
  Every method of the Go type is one definition; a method that mutates the receiver returns it.
\<close>

section \<open>States, actions, configuration\<close>

datatype state = StateStarting | StateHealthy | StateUnhealthy | StateDead

definition state_string :: "state \<Rightarrow> string" where
  "state_string s =
     (case s of StateHealthy \<Rightarrow> ''healthy''
      | StateUnhealthy \<Rightarrow> ''unhealthy''
      | StateDead \<Rightarrow> ''dead''
      | StateStarting \<Rightarrow> ''starting'')"

datatype action = ActionNone | ActionRespawn | ActionMarkDead

definition CauseStartupTimeout :: string where
  "CauseStartupTimeout = ''startup timeout''"

definition CauseExited :: string where
  "CauseExited = ''process exited''"

definition CauseProbes :: string where
  "CauseProbes = ''health probes failed''"

definition CauseHardFailure :: string where
  "CauseHardFailure = ''hard failure on the inference path''"

definition respawnRefill :: duration where
  "respawnRefill = 10 * minute"

record ladder_config =
  MaxFailures :: int
  RespawnGrace :: duration
  MaxRespawns :: int
  StartupTimeout :: duration

record ladder =
  l_cfg :: ladder_config
  l_state :: state
  l_start :: gotime
  l_healthySince :: gotime
  l_strikes :: int
  l_respawns :: int
  l_hardFailure :: bool
  l_condemned :: string
  l_deferredAt :: gotime
  l_deferCause :: string
  l_cause :: string

definition NewLadder :: "ladder_config \<Rightarrow> gotime \<Rightarrow> ladder" where
  "NewLadder cfg now =
     \<lparr>l_cfg = cfg, l_state = StateStarting, l_start = now, l_healthySince = zero_time,
      l_strikes = 0, l_respawns = 0, l_hardFailure = False, l_condemned = '''',
      l_deferredAt = zero_time, l_deferCause = '''', l_cause = ''''\<rparr>"

section \<open>Methods\<close>

definition clearTransient :: "ladder \<Rightarrow> ladder" where
  "clearTransient l =
     l\<lparr>l_strikes := 0, l_hardFailure := False, l_deferredAt := zero_time, l_deferCause := ''''\<rparr>"

definition giveUp :: "ladder \<Rightarrow> gotime \<Rightarrow> string \<Rightarrow> bool \<Rightarrow> int \<Rightarrow> ladder \<times> action" where
  "giveUp l now cause alive inFlight =
     (let cause = (if \<not> is_zero (l_deferredAt l) \<and> cause = CauseProbes
                   then l_deferCause l else cause);
          draining = (alive \<and> inFlight > 0 \<and> RespawnGrace (l_cfg l) > 0);
          l1 = (if draining \<and> is_zero (l_deferredAt l)
                then l\<lparr>l_deferredAt := now, l_deferCause := cause\<rparr> else l)
      in if draining \<and> tsub now (l_deferredAt l1) < RespawnGrace (l_cfg l)
         then (l1, ActionNone)
         else let l2 = l1\<lparr>l_deferredAt := zero_time, l_deferCause := '''',
                         l_strikes := 0, l_cause := cause\<rparr>
              in if l_respawns l2 \<ge> MaxRespawns (l_cfg l2)
                 then (l2\<lparr>l_state := StateDead\<rparr>, ActionMarkDead)
                 else (l2\<lparr>l_respawns := l_respawns l2 + 1\<rparr>, ActionRespawn))"

definition Observe :: "ladder \<Rightarrow> gotime \<Rightarrow> bool \<Rightarrow> bool \<Rightarrow> int \<Rightarrow> ladder \<times> action" where
  "Observe l now ready alive inFlight =
     (if l_state l = StateDead then (l, ActionNone)
      else if l_condemned l \<noteq> '''' then
        giveUp (l\<lparr>l_state := StateUnhealthy\<rparr>) now (l_condemned l) alive inFlight
      else if l_state l = StateStarting then
        (if ready then
           (clearTransient (l\<lparr>l_state := StateHealthy, l_healthySince := now\<rparr>), ActionNone)
         else if alive \<and> tsub now (l_start l) < StartupTimeout (l_cfg l) then (l, ActionNone)
         else giveUp l now (if \<not> alive then CauseExited else CauseStartupTimeout) alive 0)
      else if ready then
        (let l1 = (if l_state l = StateUnhealthy then l\<lparr>l_healthySince := now\<rparr> else l);
             l2 = clearTransient (l1\<lparr>l_state := StateHealthy\<rparr>)
         in (if l_respawns l2 > 0 \<and> tsub now (l_healthySince l2) \<ge> respawnRefill
             then l2\<lparr>l_respawns := 0\<rparr> else l2, ActionNone))
      else
        (let l1 = l\<lparr>l_state := StateUnhealthy\<rparr>;
             (l2, cause) =
               (if l_hardFailure l1
                then (l1\<lparr>l_strikes := MaxFailures (l_cfg l1), l_hardFailure := False\<rparr>,
                      CauseHardFailure)
                else if \<not> alive
                then (l1\<lparr>l_strikes := MaxFailures (l_cfg l1)\<rparr>, CauseExited)
                else (l1\<lparr>l_strikes := l_strikes l1 + 1\<rparr>, CauseProbes))
         in if l_strikes l2 < MaxFailures (l_cfg l2) then (l2, ActionNone)
            else giveUp l2 now cause alive inFlight))"

definition NoteHardFailure :: "ladder \<Rightarrow> ladder" where
  "NoteHardFailure l = l\<lparr>l_hardFailure := True\<rparr>"

definition Condemn :: "ladder \<Rightarrow> string \<Rightarrow> ladder" where
  "Condemn l cause = (if l_state l \<noteq> StateDead then l\<lparr>l_condemned := cause\<rparr> else l)"

definition MarkDead :: "ladder \<Rightarrow> string \<Rightarrow> ladder" where
  "MarkDead l cause = l\<lparr>l_state := StateDead, l_cause := cause\<rparr>"

definition Restarted :: "ladder \<Rightarrow> gotime \<Rightarrow> ladder" where
  "Restarted l now =
     (if l_state l = StateDead then l
      else clearTransient (l\<lparr>l_state := StateStarting, l_start := now\<rparr>)\<lparr>l_condemned := ''''\<rparr>)"

section \<open>Runs\<close>

datatype ladder_event =
    EvObserve gotime bool bool int
  | EvNoteHardFailure
  | EvCondemn string
  | EvMarkDead string
  | EvRestarted gotime

definition ladder_step :: "ladder \<Rightarrow> ladder_event \<Rightarrow> ladder \<times> action" where
  "ladder_step l e =
     (case e of
        EvObserve now ready alive inFlight \<Rightarrow> Observe l now ready alive inFlight
      | EvNoteHardFailure \<Rightarrow> (NoteHardFailure l, ActionNone)
      | EvCondemn cause \<Rightarrow> (Condemn l cause, ActionNone)
      | EvMarkDead cause \<Rightarrow> (MarkDead l cause, ActionNone)
      | EvRestarted now \<Rightarrow> (Restarted l now, ActionNone))"

definition ladder_next :: "ladder \<Rightarrow> ladder_event \<Rightarrow> ladder" where
  "ladder_next l e = fst (ladder_step l e)"

primrec ladder_actions :: "ladder \<Rightarrow> ladder_event list \<Rightarrow> action list" where
  "ladder_actions l [] = []"
| "ladder_actions l (e # es) = snd (ladder_step l e) # ladder_actions (ladder_next l e) es"

named_theorems ladder_defs "the definitions of the ladder's methods"

declare giveUp_def [ladder_defs] Observe_def [ladder_defs] clearTransient_def [ladder_defs]
  NoteHardFailure_def [ladder_defs] Condemn_def [ladder_defs] MarkDead_def [ladder_defs]
  Restarted_def [ladder_defs] ladder_step_def [ladder_defs] ladder_next_def [ladder_defs]
  Let_def [ladder_defs]

subsection \<open>What one step can do\<close>

text \<open>A give-up waits, respawns within the budget, or marks dead once the budget is spent.\<close>

lemma giveUp_result:
  "case snd (giveUp l now c alive n) of
     ActionNone \<Rightarrow> l_respawns (fst (giveUp l now c alive n)) = l_respawns l \<and>
       l_state (fst (giveUp l now c alive n)) = l_state l
   | ActionRespawn \<Rightarrow> l_respawns l < MaxRespawns (l_cfg l) \<and>
       l_respawns (fst (giveUp l now c alive n)) = l_respawns l + 1 \<and>
       l_state (fst (giveUp l now c alive n)) = l_state l
   | ActionMarkDead \<Rightarrow> MaxRespawns (l_cfg l) \<le> l_respawns l \<and>
       l_respawns (fst (giveUp l now c alive n)) = l_respawns l \<and>
       l_state (fst (giveUp l now c alive n)) = StateDead"
  by (auto simp: giveUp_def Let_def split: action.split)

lemma giveUp_cases:
  obtains
    (waits) "snd (giveUp l now c alive n) = ActionNone"
      "l_respawns (fst (giveUp l now c alive n)) = l_respawns l"
      "l_state (fst (giveUp l now c alive n)) = l_state l"
  | (respawns) "snd (giveUp l now c alive n) = ActionRespawn"
      "l_respawns l < MaxRespawns (l_cfg l)"
      "l_respawns (fst (giveUp l now c alive n)) = l_respawns l + 1"
      "l_state (fst (giveUp l now c alive n)) = l_state l"
  | (dies) "snd (giveUp l now c alive n) = ActionMarkDead"
      "MaxRespawns (l_cfg l) \<le> l_respawns l"
      "l_respawns (fst (giveUp l now c alive n)) = l_respawns l"
      "l_state (fst (giveUp l now c alive n)) = StateDead"
  using giveUp_result [of l now c alive n] that
  by (cases "snd (giveUp l now c alive n)") simp_all

lemma giveUp_frame [simp]:
  "l_cfg (fst (giveUp l now c alive n)) = l_cfg l"
  "l_healthySince (fst (giveUp l now c alive n)) = l_healthySince l"
  by (simp_all add: giveUp_def Let_def)

lemma Observe_cfg [simp]: "l_cfg (fst (Observe l now ready alive n)) = l_cfg l"
  unfolding Observe_def by (auto simp: clearTransient_def Let_def split: prod.splits)

lemma ladder_next_cfg [simp]: "l_cfg (ladder_next l e) = l_cfg l"
  by (cases e) (auto simp: ladder_next_def ladder_step_def NoteHardFailure_def Condemn_def
      MarkDead_def Restarted_def clearTransient_def)


text \<open>
  One observation is quiet, refills the budget after ten minutes of health, or gives up; only a
  give-up on a running backend sees the requests in flight.
\<close>

lemma Observe_shape:
  obtains
    (quiet) "snd (Observe l now ready alive n) = ActionNone"
      "l_respawns (fst (Observe l now ready alive n)) = l_respawns l"
      "l_state (fst (Observe l now ready alive n)) = StateHealthy \<Longrightarrow>
       l_state l = StateHealthy \<and> l_healthySince (fst (Observe l now ready alive n)) = l_healthySince l
       \<or> l_healthySince (fst (Observe l now ready alive n)) = now"
  | (refills) "snd (Observe l now ready alive n) = ActionNone"
      "l_respawns (fst (Observe l now ready alive n)) = 0" "0 < l_respawns l"
      "l_state l = StateHealthy" "respawnRefill \<le> tsub now (l_healthySince l)"
  | (gives_up) l0 c m where "Observe l now ready alive n = giveUp l0 now c alive m"
      "l_respawns l0 = l_respawns l" "l_cfg l0 = l_cfg l" "l_deferredAt l0 = l_deferredAt l"
      "l_state l = StateStarting \<and> l_state l0 = StateStarting \<and> m = 0 \<or>
       l_state l0 = StateUnhealthy \<and> m = n"
proof -
  consider "l_state l = StateDead" | "l_state l \<noteq> StateDead" "l_condemned l \<noteq> ''''"
    | "l_state l = StateStarting" "l_condemned l = ''''"
    | "l_state l = StateHealthy \<or> l_state l = StateUnhealthy" "l_condemned l = ''''" "ready"
    | "l_state l = StateHealthy \<or> l_state l = StateUnhealthy" "l_condemned l = ''''" "\<not> ready"
    using state.exhaust by metis
  then show thesis
  proof cases
    case 1
    then show ?thesis by (intro quiet) (auto simp: Observe_def)
  next
    case 2
    then show ?thesis by (intro gives_up [of "l\<lparr>l_state := StateUnhealthy\<rparr>" "l_condemned l" n])
        (auto simp: Observe_def)
  next
    case 3
    show ?thesis
    proof (cases "ready \<or> alive \<and> tsub now (l_start l) < StartupTimeout (l_cfg l)")
      case True
      with 3 show ?thesis by (intro quiet) (auto simp: Observe_def clearTransient_def)
    next
      case False
      with 3 show ?thesis
        by (intro gives_up [of l "if \<not> alive then CauseExited else CauseStartupTimeout" 0])
          (auto simp: Observe_def)
    qed
  next
    case 4
    show ?thesis
    proof (cases "l_state l = StateHealthy \<and> 0 < l_respawns l \<and> respawnRefill \<le> tsub now (l_healthySince l)")
      case True
      with 4 show ?thesis by (intro refills) (auto simp: Observe_def clearTransient_def)
    next
      case False
      with 4 show ?thesis
        by (intro quiet) (auto simp: Observe_def clearTransient_def Let_def respawnRefill_def
            minute_def second_def)
    qed
  next
    case 5
    define l1 where "l1 = l\<lparr>l_state := StateUnhealthy\<rparr>"
    define l2 where "l2 = (if l_hardFailure l
       then l1\<lparr>l_strikes := MaxFailures (l_cfg l), l_hardFailure := False\<rparr>
       else if \<not> alive then l1\<lparr>l_strikes := MaxFailures (l_cfg l)\<rparr>
       else l1\<lparr>l_strikes := l_strikes l + 1\<rparr>)"
    define c where "c = (if l_hardFailure l then CauseHardFailure else if \<not> alive then CauseExited
       else CauseProbes)"
    from 5 have eq: "Observe l now ready alive n =
        (if l_strikes l2 < MaxFailures (l_cfg l2) then (l2, ActionNone)
         else giveUp l2 now c alive n)"
      by (auto simp: Observe_def Let_def l1_def l2_def c_def)
    have l2: "l_respawns l2 = l_respawns l" "l_cfg l2 = l_cfg l" "l_state l2 = StateUnhealthy"
      "l_deferredAt l2 = l_deferredAt l"
      by (auto simp: l2_def l1_def)
    show ?thesis
    proof (cases "l_strikes l2 < MaxFailures (l_cfg l2)")
      case True
      with eq l2 show ?thesis by (intro quiet) auto
    next
      case False
      with eq l2 show ?thesis by (intro gives_up [of l2 c n]) auto
    qed
  qed
qed

subsection \<open>The respawn budget\<close>

text \<open>The respawn count stays within the budget, and no step changes the configuration.\<close>

definition budget_ok :: "ladder \<Rightarrow> bool" where
  "budget_ok l \<longleftrightarrow> 0 \<le> l_respawns l \<and> (l_respawns l = 0 \<or> l_respawns l \<le> MaxRespawns (l_cfg l))"

lemma budget_ok_Observe: "budget_ok l \<Longrightarrow> budget_ok (fst (Observe l now ready alive n))"
proof (cases rule: Observe_shape [of l now ready alive n])
  case (gives_up l0 c m)
  then show "budget_ok l \<Longrightarrow> ?thesis"
    by (cases rule: giveUp_cases [of l0 now c alive m]) (auto simp: budget_ok_def)
qed (auto simp: budget_ok_def)

interpretation budgeted: invariant_machine ladder_next budget_ok l_cfg
proof unfold_locales
  fix l :: ladder and e
  assume l: "budget_ok l"
  then have "budget_ok (NoteHardFailure l)" "budget_ok (Condemn l c)" "budget_ok (MarkDead l c)"
    "budget_ok (Restarted l t)" for c t
    by (auto simp: budget_ok_def ladder_defs)
  with l show "budget_ok (ladder_next l e)"
    by (cases e) (simp_all add: ladder_next_def ladder_step_def budget_ok_Observe)
next
  fix l :: ladder and e
  show "l_cfg (ladder_next l e) = l_cfg l" by simp
qed

text \<open>
  The accounting behind the budget: \<open>k\<close> refills so far, each at least ten minutes after the
  previous one, and at most \<open>MaxRespawns\<close> respawns since the last.
\<close>

definition budget_inv :: "gotime \<Rightarrow> int \<Rightarrow> int \<Rightarrow> gotime \<Rightarrow> ladder \<Rightarrow> bool" where
  "budget_inv t0 cnt k t l \<longleftrightarrow>
     0 \<le> k \<and> t0 + k * respawnRefill \<le> t \<and>
     0 \<le> l_respawns l \<and> l_respawns l \<le> MaxRespawns (l_cfg l) \<and>
     cnt \<le> MaxRespawns (l_cfg l) * k + l_respawns l \<and>
     (0 < l_respawns l \<and> l_state l = StateHealthy \<longrightarrow> t0 + k * respawnRefill \<le> l_healthySince l)"

definition respawn_count :: "action list \<Rightarrow> int" where
  "respawn_count as = int (count_list as ActionRespawn)"

text \<open>The times of a run do not decrease; events without a time happen at the current one.\<close>

fun event_times_ok :: "gotime \<Rightarrow> ladder_event list \<Rightarrow> bool" where
  "event_times_ok t [] = True"
| "event_times_ok t (EvObserve now _ _ _ # es) = (t \<le> now \<and> event_times_ok now es)"
| "event_times_ok t (_ # es) = event_times_ok t es"

fun last_time :: "gotime \<Rightarrow> ladder_event list \<Rightarrow> gotime" where
  "last_time t [] = t"
| "last_time t (EvObserve now _ _ _ # es) = last_time now es"
| "last_time t (_ # es) = last_time t es"

lemma respawnRefill_bounds: "min_duration < respawnRefill" "respawnRefill \<le> max_duration"
  "0 < respawnRefill"
  by (simp_all add: respawnRefill_def minute_def second_def min_duration_def max_duration_def)

lemma budget_inv_Observe:
  assumes inv: "budget_inv t0 cnt k t l" and t: "t \<le> now"
  shows "\<exists>k'. budget_inv t0 (cnt + respawn_count [snd (Observe l now ready alive n)]) k' now
    (fst (Observe l now ready alive n))"
proof (cases rule: Observe_shape [of l now ready alive n])
  case quiet
  with inv t show ?thesis
    by (intro exI [of _ k]) (auto simp: budget_inv_def respawn_count_def)
next
  case refills
  have "respawnRefill \<le> now - l_healthySince l"
    using refills(5) respawnRefill_bounds by (simp add: go_time)
  moreover have "cnt \<le> MaxRespawns (l_cfg l) * (k + 1)"
    using inv by (auto simp: budget_inv_def algebra_simps)
  ultimately show ?thesis
    using inv refills by (intro exI [of _ "k + 1"])
      (auto simp: budget_inv_def respawn_count_def algebra_simps)
next
  case (gives_up l0 c m)
  show ?thesis
    using inv t gives_up
    by (cases rule: giveUp_cases [of l0 now c alive m])
      (auto intro!: exI [of _ k] simp: budget_inv_def respawn_count_def)
qed

lemma budget_inv_other:
  assumes "budget_inv t0 cnt k t l" and "\<And>now r a n. e \<noteq> EvObserve now r a n"
  shows "budget_inv t0 cnt k t (ladder_next l e) \<and> snd (ladder_step l e) = ActionNone"
  using assms by (cases e) (auto simp: budget_inv_def ladder_next_def ladder_step_def
      NoteHardFailure_def Condemn_def MarkDead_def Restarted_def clearTransient_def)

lemma budget_inv_run:
  assumes "budget_inv t0 cnt k t l" and "event_times_ok t es"
  shows "\<exists>k'. budget_inv t0 (cnt + respawn_count (ladder_actions l es)) k' (last_time t es)
    (run_events ladder_next l es)"
  using assms
proof (induction es arbitrary: cnt k t l)
  case Nil
  then show ?case by (auto simp: respawn_count_def)
next
  case (Cons e es)
  show ?case
  proof (cases "\<exists>now r a n. e = EvObserve now r a n")
    case True
    then obtain now r a n where e: "e = EvObserve now r a n" by blast
    from Cons.prems e budget_inv_Observe [of t0 cnt k t l now r a n] obtain k1 where
      k1: "budget_inv t0 (cnt + respawn_count [snd (ladder_step l e)]) k1 now (ladder_next l e)"
      by (auto simp: ladder_next_def ladder_step_def)
    from Cons.IH [OF k1] Cons.prems(2) e show ?thesis
      by (auto simp: respawn_count_def algebra_simps)
  next
    case False
    with Cons.prems(1) have
      *: "budget_inv t0 cnt k t (ladder_next l e)" "snd (ladder_step l e) = ActionNone"
      using budget_inv_other by blast+
    from False have "event_times_ok t es = event_times_ok t (e # es)"
      and "last_time t (e # es) = last_time t es"
      by (cases e; auto)+
    with Cons.IH [OF *(1)] Cons.prems(2) *(2) show ?thesis
      by (auto simp: respawn_count_def)
  qed
qed

text \<open>C6. The respawn budget bounds the rate of respawns: on any run of a new ladder (probes, hard
  failures, condemnations, restarts, in any order, with a clock that does not run backwards) the
  number of respawns is at most \<open>MaxRespawns\<close> for every ten minutes begun since the start. A
  backend that keeps crashing shortly after each load cannot respawn forever.\<close>

theorem ladder_respawn_rate:
  assumes "0 \<le> MaxRespawns cfg" and "event_times_ok t0 es"
  shows "respawn_count (ladder_actions (NewLadder cfg t0) es)
     \<le> MaxRespawns cfg * (1 + (last_time t0 es - t0) div respawnRefill)"
proof -
  have "budget_inv t0 0 0 t0 (NewLadder cfg t0)"
    using assms(1) by (simp add: budget_inv_def NewLadder_def)
  from budget_inv_run [OF this assms(2)] obtain k where
    k: "budget_inv t0 (respawn_count (ladder_actions (NewLadder cfg t0) es)) k (last_time t0 es)
      (run_events ladder_next (NewLadder cfg t0) es)"
    by auto

  have "k \<le> (last_time t0 es - t0) div respawnRefill"
    using k respawnRefill_bounds(3)
      zdiv_mono1 [of "k * respawnRefill" "last_time t0 es - t0" respawnRefill]
    by (simp add: budget_inv_def)
  then have "MaxRespawns cfg * k \<le> MaxRespawns cfg * ((last_time t0 es - t0) div respawnRefill)"
    using assms(1) by (rule mult_left_mono)
  then show ?thesis
    using k budgeted.run_fixes [of "NewLadder cfg t0" es] by (auto simp: budget_inv_def NewLadder_def algebra_simps)
qed

theorem ladder_respawn_rate_witness:
  "respawn_count (ladder_actions (NewLadder
       \<lparr>MaxFailures = 3, RespawnGrace = 0, MaxRespawns = 1, StartupTimeout = 5 * minute\<rparr> 0)
     [EvObserve second False False 0, EvRestarted second, EvObserve (2 * second) True True 0,
      EvObserve (700 * second) True True 0, EvObserve (701 * second) False False 0])
   \<le> 1 * (1 + (701 * second - 0) div respawnRefill)"
  using ladder_respawn_rate [of "\<lparr>MaxFailures = 3, RespawnGrace = 0, MaxRespawns = 1, StartupTimeout = 5 * minute\<rparr>"
    0 "[EvObserve second False False 0, EvRestarted second, EvObserve (2 * second) True True 0,
      EvObserve (700 * second) True True 0, EvObserve (701 * second) False False 0]"]
  by (simp add: second_def)

subsection \<open>A dead backend stays dead\<close>

interpretation dead_ladder: absorbing_machine ladder_next "\<lambda>l. l_state l = StateDead"
proof unfold_locales
  fix l :: ladder and e
  assume "l_state l = StateDead"
  then show "l_state (ladder_next l e) = StateDead"
    by (cases e) (auto simp: ladder_defs)
qed

lemma dead_no_action: "l_state l = StateDead \<Longrightarrow> snd (ladder_step l e) = ActionNone"
  by (cases e) (auto simp: ladder_defs)

text \<open>C21. A dead backend is final: no probe, condemnation or restart brings it back, and none of them
  calls for any further action.\<close>

theorem ladder_dead_is_final:
  assumes "l_state l = StateDead"
  shows "l_state (run_events ladder_next l es) = StateDead \<and>
    set (ladder_actions l es) \<subseteq> {ActionNone}"
proof
  show "l_state (run_events ladder_next l es) = StateDead"
    using assms by (rule dead_ladder.run_absorbs)
  show "set (ladder_actions l es) \<subseteq> {ActionNone}"
    using assms
    by (induction es arbitrary: l) (simp_all add: dead_no_action dead_ladder.step_absorbs)
qed

subsection \<open>Requests in flight are drained first\<close>

lemma giveUp_waits_iff:
  "snd (giveUp l now c alive n) = ActionNone \<longleftrightarrow>
   alive \<and> 0 < n \<and> 0 < RespawnGrace (l_cfg l) \<and>
   (is_zero (l_deferredAt l) \<or> tsub now (l_deferredAt l) < RespawnGrace (l_cfg l))"
  by (auto simp: giveUp_def Let_def)



subsection \<open>Strikes and crash loops\<close>

text \<open>A process that has exited is given up on at once, whatever the state.\<close>

lemma Observe_crash:
  assumes "l_state l \<noteq> StateDead"
  obtains l0 c m where "Observe l now False False n = giveUp l0 now c False m"
    "l_respawns l0 = l_respawns l" "l_cfg l0 = l_cfg l" "l_state l0 \<noteq> StateDead"
proof (cases rule: Observe_shape [of l now False False n])
  case (gives_up l0 c m)
  then show ?thesis by (intro that [of l0 c m]) auto
next
  case quiet
  with assms giveUp_waits_iff have False
    by (auto simp: Observe_def Let_def clearTransient_def split: if_splits)
  then show ?thesis ..
next
  case refills
  with assms giveUp_waits_iff have False
    by (auto simp: Observe_def Let_def clearTransient_def split: if_splits)
  then show ?thesis ..
qed

definition crash_loop :: "gotime list \<Rightarrow> ladder_event list" where
  "crash_loop ts = concat (map (\<lambda>t. [EvObserve t False False 0, EvRestarted t]) ts)"

lemma crash_step:
  assumes "l_state l \<noteq> StateDead"
  shows "if l_respawns l < MaxRespawns (l_cfg l)
    then snd (Observe l t False False n) = ActionRespawn \<and>
      l_state (fst (Observe l t False False n)) \<noteq> StateDead \<and>
      l_respawns (fst (Observe l t False False n)) = l_respawns l + 1
    else snd (Observe l t False False n) = ActionMarkDead \<and>
      l_state (fst (Observe l t False False n)) = StateDead"
proof -
  obtain l0 c m where "Observe l t False False n = giveUp l0 t c False m"
    "l_respawns l0 = l_respawns l" "l_cfg l0 = l_cfg l" "l_state l0 \<noteq> StateDead"
    using Observe_crash [OF assms] .
  with giveUp_result [of l0 t c False m] giveUp_waits_iff [of l0 t c False m] show ?thesis
    by (cases "snd (giveUp l0 t c False m)") auto
qed

lemma Restarted_keeps [simp]:
  "l_respawns (Restarted l t) = l_respawns l" "l_cfg (Restarted l t) = l_cfg l"
  "(l_state (Restarted l t) = StateDead) = (l_state l = StateDead)"
  by (auto simp: Restarted_def clearTransient_def)

lemma dead_no_actions:
  "l_state l = StateDead \<Longrightarrow> filter (\<lambda>a. a \<noteq> ActionNone) (ladder_actions l es) = []"
  by (induction es arbitrary: l) (simp_all add: dead_no_action dead_ladder.step_absorbs)

lemma crash_loop_Cons:
  "run_events ladder_next l (crash_loop (t # ts)) =
     run_events ladder_next (Restarted (fst (Observe l t False False 0)) t) (crash_loop ts)"
  "ladder_actions l (crash_loop (t # ts)) = snd (Observe l t False False 0) # ActionNone #
     ladder_actions (Restarted (fst (Observe l t False False 0)) t) (crash_loop ts)"
  by (simp_all add: crash_loop_def ladder_next_def ladder_step_def)

text \<open>C18. A crash loop ends: a backend whose process exits after every launch is respawned exactly as
  often as the remaining budget allows, and the next exit marks it dead.\<close>

theorem ladder_crash_loop_ends_dead:
  assumes "l_state l \<noteq> StateDead" and "length ts = nat (MaxRespawns (l_cfg l) - l_respawns l) + 1"
  shows "l_state (run_events ladder_next l (crash_loop ts)) = StateDead \<and>
    filter (\<lambda>a. a \<noteq> ActionNone) (ladder_actions l (crash_loop ts)) =
       replicate (nat (MaxRespawns (l_cfg l) - l_respawns l)) ActionRespawn @ [ActionMarkDead]"
  using assms
proof (induction ts arbitrary: l)
  case Nil
  then show ?case by simp
next
  case (Cons t ts)
  let ?l = "Restarted (fst (Observe l t False False 0)) t"
  show ?case
  proof (cases "l_respawns l < MaxRespawns (l_cfg l)")
    case True
    with crash_step [OF Cons.prems(1), of t 0] have
      step: "snd (Observe l t False False 0) = ActionRespawn" "l_state ?l \<noteq> StateDead"
        "l_respawns ?l = l_respawns l + 1" "l_cfg ?l = l_cfg l"
      by auto
    then have len: "length ts = nat (MaxRespawns (l_cfg ?l) - l_respawns ?l) + 1"
      using Cons.prems(2) True by simp
    have "nat (MaxRespawns (l_cfg l) - l_respawns l) =
        Suc (nat (MaxRespawns (l_cfg ?l) - l_respawns ?l))"
      using True step by simp
    with Cons.IH [OF step(2) len] step(1) show ?thesis
      by (simp add: crash_loop_Cons)
  next
    case False
    with crash_step [OF Cons.prems(1), of t 0] have
      "snd (Observe l t False False 0) = ActionMarkDead" "l_state ?l = StateDead"
      by auto
    with False show ?thesis
      by (simp add: crash_loop_Cons dead_ladder.run_absorbs dead_no_actions)
  qed
qed

theorem ladder_crash_loop_ends_dead_witness:
  "l_state (run_events ladder_next (NewLadder
     \<lparr>MaxFailures = 3, RespawnGrace = 5, MaxRespawns = 2, StartupTimeout = 9\<rparr> 0)
     (crash_loop [1, 2, 3])) = StateDead"
  using ladder_crash_loop_ends_dead [of
      "NewLadder \<lparr>MaxFailures = 3, RespawnGrace = 5, MaxRespawns = 2, StartupTimeout = 9\<rparr> 0"
      "[1, 2, 3]"]
  by (simp add: NewLadder_def)

definition failed_probes :: "gotime list \<Rightarrow> ladder_event list" where
  "failed_probes ts = map (\<lambda>t. EvObserve t False True 0) ts"

lemma failed_probe:
  assumes "l_state l \<in> {StateHealthy, StateUnhealthy}" "l_condemned l = ''''" "\<not> l_hardFailure l"
    and "l_strikes l + 1 < MaxFailures (l_cfg l)"
  shows "ladder_step l (EvObserve t False True 0) =
    (l\<lparr>l_state := StateUnhealthy, l_strikes := l_strikes l + 1\<rparr>, ActionNone)"
  using assms by (auto simp: ladder_step_def Observe_def Let_def)

lemma last_failed_probe:
  assumes "l_state l \<in> {StateHealthy, StateUnhealthy}" "l_condemned l = ''''" "\<not> l_hardFailure l"
    and "MaxFailures (l_cfg l) \<le> l_strikes l + 1"
  shows "snd (ladder_step l (EvObserve t False True 0)) =
    (if l_respawns l < MaxRespawns (l_cfg l) then ActionRespawn else ActionMarkDead)"
  using assms by (auto simp: ladder_step_def Observe_def giveUp_def Let_def)

text \<open>Patience is exactly \<open>MaxFailures\<close> strikes: with no hard failure and nothing in flight, the
  failed probes of a live process call for no action until the last of the remaining strikes, and
  that one respawns the backend, or marks it dead when the budget is spent.\<close>

lemma ladder_strikes_out:
  assumes "l_state l \<in> {StateHealthy, StateUnhealthy}" "l_condemned l = ''''" "\<not> l_hardFailure l"
    and "0 < length ts" and "MaxFailures (l_cfg l) - l_strikes l = int (length ts)"
  shows "ladder_actions l (failed_probes ts) = replicate (length ts - 1) ActionNone @
    [if l_respawns l < MaxRespawns (l_cfg l) then ActionRespawn else ActionMarkDead]"
  using assms
proof (induction ts arbitrary: l)
  case Nil
  then show ?case by simp
next
  case (Cons t ts)
  show ?case
  proof (cases ts)
    case Nil
    with Cons.prems show ?thesis
      by (simp add: failed_probes_def last_failed_probe)
  next
    case (Cons t' ts')
    let ?l = "l\<lparr>l_state := StateUnhealthy, l_strikes := l_strikes l + 1\<rparr>"
    have *: "ladder_step l (EvObserve t False True 0) = (?l, ActionNone)"
      using Cons.prems Cons by (intro failed_probe) auto
    have "ladder_actions ?l (failed_probes ts) = replicate (length ts - 1) ActionNone @
        [if l_respawns ?l < MaxRespawns (l_cfg ?l) then ActionRespawn else ActionMarkDead]"
      using Cons.prems Cons by (intro Cons.IH) auto
    with * Cons show ?thesis
      by (simp add: failed_probes_def ladder_next_def)
  qed
qed

lemma ladder_strikes_out_witness:
  "ladder_actions (NewLadder
      \<lparr>MaxFailures = 3, RespawnGrace = 5, MaxRespawns = 2, StartupTimeout = 9\<rparr> 0
      \<lparr>l_state := StateHealthy\<rparr>) (failed_probes [1, 2, 3]) =
   [ActionNone, ActionNone, ActionRespawn]"
  using ladder_strikes_out [of "NewLadder
      \<lparr>MaxFailures = 3, RespawnGrace = 5, MaxRespawns = 2, StartupTimeout = 9\<rparr> 0
      \<lparr>l_state := StateHealthy\<rparr>" "[1, 2, 3]"]
  by (simp add: NewLadder_def numeral_eq_Suc)

theorem ladder_dead_is_final_witness:
  "l_state (run_events ladder_next (MarkDead (NewLadder
      \<lparr>MaxFailures = 3, RespawnGrace = 5, MaxRespawns = 2, StartupTimeout = 9\<rparr> 0) ''bad command'')
      [EvObserve 1 True True 0, EvRestarted 2, EvObserve 3 True True 0]) = StateDead"
  using ladder_dead_is_final [of "MarkDead (NewLadder
      \<lparr>MaxFailures = 3, RespawnGrace = 5, MaxRespawns = 2, StartupTimeout = 9\<rparr> 0) ''bad command''"
      "[EvObserve 1 True True 0, EvRestarted 2, EvObserve 3 True True 0]"]
  by (simp add: MarkDead_def)

end
