(* ===== verification/LoadGate.thy ===== *)
theory LoadGate
  imports Prelude
begin

text \<open>
  The load gate (\<open>internal/supervisor/loadgate.go\<close>): one backend of the node loads its model at a
  time, in the order the tickets were enqueued. A ticket pointer of the Go code is the index of the
  ticket in the gate's list of tickets made so far; \<open>t_granted\<close> is the closed channel.
\<close>

record loadTicket =
  t_granted :: bool
  t_done :: bool

record loadGate =
  g_holder :: "nat option"
  g_queue :: "nat list"
  g_tickets :: "loadTicket list"

definition newLoadGate :: loadGate where
  "newLoadGate = \<lparr>g_holder = None, g_queue = [], g_tickets = []\<rparr>"

definition grantLocked :: "loadGate \<Rightarrow> loadGate" where
  "grantLocked g =
     (case (g_holder g, g_queue g) of
        (None, t # ts) \<Rightarrow>
          g\<lparr>g_holder := Some t, g_queue := ts,
            g_tickets := (g_tickets g)[t := (g_tickets g ! t)\<lparr>t_granted := True\<rparr>]\<rparr>
      | _ \<Rightarrow> g)"

definition enqueue :: "loadGate \<Rightarrow> loadGate \<times> nat" where
  "enqueue g =
     (let t = length (g_tickets g);
          g1 = g\<lparr>g_tickets := g_tickets g @ [\<lparr>t_granted = False, t_done = False\<rparr>],
                 g_queue := g_queue g @ [t]\<rparr>
      in (grantLocked g1, t))"

definition release_ticket :: "loadGate \<Rightarrow> nat \<Rightarrow> loadGate" where
  "release_ticket g t =
     (if t_done (g_tickets g ! t) then g
      else let g1 = g\<lparr>g_tickets := (g_tickets g)[t := (g_tickets g ! t)\<lparr>t_done := True\<rparr>]\<rparr>
           in if g_holder g1 = Some t then grantLocked (g1\<lparr>g_holder := None\<rparr>)
              else g1\<lparr>g_queue := remove1 t (g_queue g1)\<rparr>)"

text \<open>
  \<open>wait\<close> returns once the ticket holds the gate, or when the context ends first, and then the
  ticket is released; when both have happened Go's \<open>select\<close> may take either branch, which the
  two rules allow. The second argument says whether the context has ended.
\<close>

inductive ticket_wait :: "loadGate \<Rightarrow> bool \<Rightarrow> nat \<Rightarrow> loadGate \<Rightarrow> bool \<Rightarrow> bool" where
  wait_granted: "t < length (g_tickets g) \<Longrightarrow> t_granted (g_tickets g ! t) \<Longrightarrow> ticket_wait g ended t g True"
| wait_ended: "t < length (g_tickets g) \<Longrightarrow> ticket_wait g True t (release_ticket g t) False"

section \<open>Runs\<close>

datatype gate_event = EvEnqueue | EvRelease nat

text \<open>Only tickets the gate has made are ever released.\<close>

definition gate_step :: "loadGate \<Rightarrow> gate_event \<Rightarrow> loadGate" where
  "gate_step g e =
     (case e of EvEnqueue \<Rightarrow> fst (enqueue g)
      | EvRelease t \<Rightarrow> if t < length (g_tickets g) then release_ticket g t else g)"

definition holding :: "loadGate \<Rightarrow> nat \<Rightarrow> bool" where
  "holding g t \<longleftrightarrow> t < length (g_tickets g) \<and> t_granted (g_tickets g ! t) \<and> \<not> t_done (g_tickets g ! t)"

definition waiting :: "loadGate \<Rightarrow> nat \<Rightarrow> bool" where
  "waiting g t \<longleftrightarrow> t < length (g_tickets g) \<and> \<not> t_granted (g_tickets g ! t) \<and> \<not> t_done (g_tickets g ! t)"

text \<open>
  The gate's invariant: the holder is the one ticket that is granted and not done, the queue is
  exactly the waiting tickets in the order they were made, behind the holder, and the gate is never
  idle while a ticket waits.
\<close>

definition gate_ok :: "loadGate \<Rightarrow> bool" where
  "gate_ok g \<longleftrightarrow>
     (\<forall>t. holding g t \<longleftrightarrow> g_holder g = Some t) \<and>
     (\<forall>t. waiting g t \<longleftrightarrow> t \<in> set (g_queue g)) \<and>
     sorted_wrt (<) (g_queue g) \<and>
     (\<forall>h. g_holder g = Some h \<longrightarrow> (\<forall>t \<in> set (g_queue g). h < t)) \<and>
     (g_holder g = None \<longrightarrow> g_queue g = [])"

text \<open>The same without the last two clauses, which \<open>grantLocked\<close> restores.\<close>

definition gate_mid :: "loadGate \<Rightarrow> bool" where
  "gate_mid g \<longleftrightarrow>
     (\<forall>t. holding g t \<longleftrightarrow> g_holder g = Some t) \<and>
     (\<forall>t. waiting g t \<longleftrightarrow> t \<in> set (g_queue g)) \<and>
     sorted_wrt (<) (g_queue g) \<and>
     (\<forall>h. g_holder g = Some h \<longrightarrow> (\<forall>t \<in> set (g_queue g). h < t))"

lemma grantLocked_ok:
  assumes "gate_mid g"
  shows "gate_ok (grantLocked g)"
proof (cases "g_holder g")
  case (Some h)
  with assms show ?thesis by (auto simp: gate_ok_def gate_mid_def grantLocked_def)
next
  case None
  show ?thesis
  proof (cases "g_queue g")
    case Nil
    with assms None show ?thesis by (auto simp: gate_ok_def gate_mid_def grantLocked_def)
  next
    case (Cons t ts)
    with assms have t: "waiting g t" "t < length (g_tickets g)"
      by (auto simp: gate_mid_def waiting_def)
    let ?g = "grantLocked g"
    have g: "?g = g\<lparr>g_holder := Some t, g_queue := ts,
        g_tickets := (g_tickets g)[t := (g_tickets g ! t)\<lparr>t_granted := True\<rparr>]\<rparr>"
      using None Cons by (simp add: grantLocked_def)
    have "holding ?g s \<longleftrightarrow> s = t" for s
      using assms None t unfolding g by (auto simp: holding_def waiting_def gate_mid_def nth_list_update)
    moreover have "waiting ?g s \<longleftrightarrow> s \<in> set ts" for s
      using assms Cons t unfolding g
      by (auto simp: waiting_def gate_mid_def nth_list_update)
    ultimately show ?thesis
      using assms Cons unfolding g by (auto simp: gate_ok_def gate_mid_def)
  qed
qed

lemma gate_ok_mid: "gate_ok g \<Longrightarrow> gate_mid g"
  by (simp add: gate_ok_def gate_mid_def)

lemma enqueue_ok:
  assumes "gate_ok g"
  shows "gate_ok (fst (enqueue g))"
proof -
  let ?t = "length (g_tickets g)"
  let ?g = "g\<lparr>g_tickets := g_tickets g @ [\<lparr>t_granted = False, t_done = False\<rparr>],
    g_queue := g_queue g @ [?t]\<rparr>"
  have *: "holding ?g s \<longleftrightarrow> holding g s" "waiting ?g s \<longleftrightarrow> waiting g s \<or> s = ?t" for s
    by (auto simp: holding_def waiting_def nth_append)
  have "s < ?t" if "holding g s \<or> waiting g s" for s
    using that by (auto simp: holding_def waiting_def)
  with assms have "\<forall>s \<in> set (g_queue g). s < ?t" "\<forall>h. g_holder g = Some h \<longrightarrow> h < ?t"
    by (auto simp: gate_ok_def)
  then have "gate_mid ?g"
    using assms * by (auto simp: gate_mid_def gate_ok_def sorted_wrt_append)
  then show ?thesis
    by (simp add: enqueue_def Let_def grantLocked_ok)
qed

lemma release_ok:
  assumes "gate_ok g" and "t < length (g_tickets g)"
  shows "gate_ok (release_ticket g t)"
proof (cases "t_done (g_tickets g ! t)")
  case True
  with assms show ?thesis by (simp add: release_ticket_def)
next
  case False
  let ?g = "g\<lparr>g_tickets := (g_tickets g)[t := (g_tickets g ! t)\<lparr>t_done := True\<rparr>]\<rparr>"
  have *: "holding ?g s \<longleftrightarrow> holding g s \<and> s \<noteq> t" "waiting ?g s \<longleftrightarrow> waiting g s \<and> s \<noteq> t" for s
    using assms(2) by (auto simp: holding_def waiting_def nth_list_update)
  show ?thesis
  proof (cases "g_holder g = Some t")
    case True
    have "holding (?g\<lparr>g_holder := None\<rparr>) s \<longleftrightarrow> holding ?g s"
      "waiting (?g\<lparr>g_holder := None\<rparr>) s \<longleftrightarrow> waiting ?g s" for s
      by (simp_all add: holding_def waiting_def)
    with * have "holding (?g\<lparr>g_holder := None\<rparr>) s \<longleftrightarrow> holding g s \<and> s \<noteq> t"
      "waiting (?g\<lparr>g_holder := None\<rparr>) s \<longleftrightarrow> waiting g s \<and> s \<noteq> t" for s
      by simp_all
    moreover have "\<not> waiting g t" "holding g s \<Longrightarrow> s = t" for s
      using True assms(1) by (auto simp: gate_ok_def holding_def waiting_def)
    ultimately have "gate_mid (?g\<lparr>g_holder := None\<rparr>)"
      using assms(1) unfolding gate_mid_def gate_ok_def by auto
    with True False show ?thesis
      by (simp add: release_ticket_def Let_def grantLocked_ok)
  next
    case holder: False
    define g' where "g' = ?g\<lparr>g_queue := remove1 t (g_queue g)\<rparr>"
    have g': "holding g' s \<longleftrightarrow> holding g s \<and> s \<noteq> t" "waiting g' s \<longleftrightarrow> waiting g s \<and> s \<noteq> t"
      "g_holder g' = g_holder g" "g_queue g' = remove1 t (g_queue g)" for s
      using * [of s] by (simp_all add: g'_def holding_def waiting_def)
    have sorted: "sorted_wrt (<) (remove1 t (g_queue g))"
      and set: "set (remove1 t (g_queue g)) = set (g_queue g) - {t}"
      using assms(1) by (simp_all add: gate_ok_def strict_sorted_iff sorted_remove1)
    have "gate_ok g'"
      using assms(1) holder sorted set unfolding gate_ok_def g' by auto
    with False holder show ?thesis
      by (simp add: release_ticket_def Let_def g'_def)
  qed
qed

interpretation loading: invariant_machine gate_step gate_ok "\<lambda>_. ()"
  by unfold_locales (auto simp: gate_step_def enqueue_ok release_ok split: gate_event.splits)

lemma newLoadGate_ok: "gate_ok newLoadGate"
  by (simp add: gate_ok_def newLoadGate_def holding_def waiting_def)

text \<open>C23. One load at a time, first come first served, and the gate is never idle while someone
  waits: after any sequence of enqueues and releases at most one ticket holds the gate, and a
  waiting ticket waits behind a holder that was enqueued before it.\<close>

theorem load_gate_exclusive_and_fair:
  assumes "g = run_events gate_step newLoadGate es"
  shows "(holding g s \<and> holding g t \<longrightarrow> s = t) \<and>
    (waiting g t \<longrightarrow> (\<exists>h. holding g h \<and> h < t))"
proof -
  have "gate_ok g"
    unfolding assms by (rule loading.run_keeps [OF newLoadGate_ok])
  then show ?thesis
    by (cases "g_holder g") (auto simp: gate_ok_def)
qed

lemmas gate_defs = gate_step_def enqueue_def release_ticket_def grantLocked_def newLoadGate_def
  holding_def waiting_def

theorem load_gate_exclusive_and_fair_witness:
  "\<exists>h. holding (run_events gate_step newLoadGate [EvEnqueue, EvEnqueue, EvRelease 0, EvEnqueue]) h
     \<and> h < 2"
  using load_gate_exclusive_and_fair [OF refl, of "[EvEnqueue, EvEnqueue, EvRelease 0, EvEnqueue]" 1 2]
  by (simp add: gate_defs numeral_eq_Suc)

text \<open>When the holder releases the gate, the ticket that has waited longest is granted it, in the
  same step; when another ticket leaves, the holder keeps it.\<close>

lemma load_gate_handover:
  assumes "gate_ok g" and "t < length (g_tickets g)"
  shows "holding (release_ticket g t) s \<longleftrightarrow>
    (if holding g t then waiting g s \<and> (\<forall>u. waiting g u \<longrightarrow> s \<le> u) else holding g s)"
proof -
  have ok: "gate_ok (release_ticket g t)"
    using assms by (rule release_ok)
  have first: "s = u \<longleftrightarrow> waiting g s \<and> (\<forall>v. waiting g v \<longrightarrow> s \<le> v)" if "g_queue g = u # us" for u us
    using assms(1) that by (force simp: gate_ok_def)
  show ?thesis
  proof (cases "holding g t")
    case True
    then have holder: "g_holder g = Some t" "\<not> t_done (g_tickets g ! t)"
      using assms(1) by (auto simp: gate_ok_def holding_def)
    then have "g_holder (release_ticket g t) = (case g_queue g of [] \<Rightarrow> None | u # us \<Rightarrow> Some u)"
      by (simp add: release_ticket_def grantLocked_def split: list.split)
    moreover have "waiting g s \<Longrightarrow> g_queue g \<noteq> []"
      using assms(1) by (auto simp: gate_ok_def)
    ultimately show ?thesis
      using ok True first by (cases "g_queue g") (auto simp: gate_ok_def)
  next
    case False
    then have "g_holder g \<noteq> Some t"
      using assms(1) by (auto simp: gate_ok_def)
    then have "g_holder (release_ticket g t) = g_holder g"
      by (simp add: release_ticket_def Let_def)
    with ok assms(1) False show ?thesis
      by (simp add: gate_ok_def)
  qed
qed

lemma load_gate_handover_witness:
  "holding (release_ticket (run_events gate_step newLoadGate [EvEnqueue, EvEnqueue, EvEnqueue]) 0) 1"
proof -
  let ?g = "run_events gate_step newLoadGate [EvEnqueue, EvEnqueue, EvEnqueue]"
  have ok: "gate_ok ?g" by (rule loading.run_keeps [OF newLoadGate_ok])
  have g: "?g = \<lparr>g_holder = Some 0, g_queue = [1, 2], g_tickets =
      [\<lparr>t_granted = True, t_done = False\<rparr>, \<lparr>t_granted = False, t_done = False\<rparr>,
       \<lparr>t_granted = False, t_done = False\<rparr>]\<rparr>"
    by (simp add: gate_defs)
  have "0 < length (g_tickets ?g)" by (simp only: g) simp
  from load_gate_handover [OF ok this, of 1] show ?thesis
    unfolding g by (auto simp: holding_def waiting_def less_Suc_eq)
qed

subsection \<open>Waiting on a ticket\<close>

inductive_cases ticket_wait_granted: "ticket_wait g ended t g' True"
inductive_cases ticket_wait_failed: "ticket_wait g ended t g' False"

text \<open>
  A wait that succeeds leaves the gate alone and its ticket was granted; one that fails has taken
  the ticket out of the gate, whether it was waiting or had just been granted.
\<close>

lemma ticket_wait_result:
  assumes "ticket_wait g ended t g' ok" and "gate_ok g"
  shows "gate_ok g' \<and> (if ok then g' = g \<and> t_granted (g_tickets g ! t)
    else ended \<and> \<not> holding g' t \<and> \<not> waiting g' t)"
  using assms
proof (cases rule: ticket_wait.cases)
  case wait_ended
  then have "t_done (g_tickets g' ! t)"
    by (auto simp: release_ticket_def grantLocked_def Let_def nth_list_update split: option.split list.split)
  with wait_ended assms(2) show ?thesis
    by (auto simp: release_ok holding_def waiting_def)
qed auto
end
