(* ===== verification/Meshapi.thy ===== *)
theory Meshapi
  imports Prelude
begin

text \<open>
  The wire types that nodes exchange about capacity and backend state
  (\<open>meshapi/capacity.go\<close>, \<open>meshapi/status.go\<close>, \<open>meshapi/headers.go\<close>). An optional JSON
  field that Go holds as a pointer is an \<open>option\<close>; one held as a plain value keeps Go's zero value
  for "absent".
\<close>

record ModelCapacity =
  mc_Name :: string
  mc_Engine :: string
  mc_Slots :: int
  mc_Busy :: int
  mc_Queued :: int
  mc_Ctx :: int
  mc_Backends :: int
  mc_HealthyBackends :: int
  mc_TTFTOverheadMs :: int
  mc_PrefillMsPer1k :: int
  mc_PerfSamples :: int
  mc_Images :: "bool option"
  mc_KVShareGroup :: string
  mc_KVShareImportMsPer1k :: int

definition zero_ModelCapacity :: ModelCapacity where
  "zero_ModelCapacity =
     \<lparr>mc_Name = '''', mc_Engine = '''', mc_Slots = 0, mc_Busy = 0, mc_Queued = 0, mc_Ctx = 0,
      mc_Backends = 0, mc_HealthyBackends = 0, mc_TTFTOverheadMs = 0, mc_PrefillMsPer1k = 0,
      mc_PerfSamples = 0, mc_Images = None, mc_KVShareGroup = '''', mc_KVShareImportMsPer1k = 0\<rparr>"

definition Free :: "ModelCapacity \<Rightarrow> int" where
  "Free m = (let f = mc_Slots m - mc_Busy m in if f > 0 then f else 0)"

record BackendStatus =
  bs_ID :: string
  bs_GPUs :: "int list"
  bs_Status :: string
  bs_Phase :: string
  bs_PID :: int
  bs_RSSMB :: int
  bs_Slots :: int
  bs_Busy :: int
  bs_TokDecoded :: int
  bs_TokRemain :: int
  bs_Respawns :: int
  bs_UptimeS :: int

text \<open>The part of \<open>ModelStatus\<close> the supervisor fills in; the router and the proxy own the rest.\<close>

record ModelStatus =
  ms_Name :: string
  ms_Engine :: string
  ms_Slots :: int
  ms_Busy :: int
  ms_Ctx :: int
  ms_Images :: "bool option"
  ms_Backends :: "BackendStatus list"

definition StatusStarting :: string where "StatusStarting = ''starting''"

definition StatusHealthy :: string where "StatusHealthy = ''healthy''"

definition StatusUnhealthy :: string where "StatusUnhealthy = ''unhealthy''"

definition StatusDead :: string where "StatusDead = ''dead''"

definition BackendID :: "string \<Rightarrow> int \<Rightarrow> string" where
  "BackendID model index = model @ ''/'' @ itoa index"

end
