(* ===== verification/Backend.thy ===== *)
theory Backend
  imports Ladder Meshapi
begin

text \<open>
  One backend process of a model (\<open>internal/supervisor/backend.go\<close>) and the snapshots the node
  publishes of it (\<open>snapshot.go\<close>, \<open>images.go\<close>). The record keeps the fields the router, the
  snapshots and the supervision loop read; the operating-system process is reduced to its PID and
  whether it runs.
\<close>

section \<open>State\<close>

datatype imageAnswer = imagesUnknown | imagesYes | imagesNo

record engine_load =
  ld_Slots :: int
  ld_Busy :: int
  ld_Waiting :: int
  ld_CtxPerSlot :: int

definition zero_load :: engine_load where
  "zero_load = \<lparr>ld_Slots = 0, ld_Busy = 0, ld_Waiting = 0, ld_CtxPerSlot = 0\<rparr>"

record process =
  p_pid :: int
  p_running :: bool

record model_config =
  cfg_Name :: string
  cfg_Engine :: string
  cfg_Context :: int
  cfg_Parallel :: int

record backend =
  b_id :: string
  b_gpus :: "int list"
  b_model :: model_config
  b_inFlight :: int
  b_proc :: "process option"
  b_port :: int
  b_launchedAt :: gotime
  b_ladder :: "ladder option"
  b_phase :: string
  b_rss :: int
  b_load :: engine_load
  b_loadAt :: gotime
  b_decoded :: int
  b_remain :: int
  b_images :: imageAnswer

definition newBackend :: "model_config \<Rightarrow> int \<Rightarrow> int list \<Rightarrow> backend" where
  "newBackend m index gpus =
     \<lparr>b_id = BackendID (cfg_Name m) index, b_gpus = gpus, b_model = m, b_inFlight = 0,
      b_proc = None, b_port = 0, b_launchedAt = zero_time, b_ladder = None, b_phase = '''',
      b_rss = 0, b_load = zero_load, b_loadAt = zero_time, b_decoded = 0, b_remain = 0,
      b_images = imagesUnknown\<rparr>"

section \<open>Operations\<close>

definition State :: "backend \<Rightarrow> state" where
  "State b = (case b_ladder b of None \<Rightarrow> StateStarting | Some l \<Rightarrow> l_state l)"

definition running :: "process option \<Rightarrow> bool" where
  "running p = (case p of None \<Rightarrow> False | Some q \<Rightarrow> p_running q)"

definition Addr :: "backend \<Rightarrow> string" where
  "Addr b = (if \<not> running (b_proc b) then '''' else ''127.0.0.1:'' @ itoa (b_port b))"

definition Acquire :: "backend \<Rightarrow> backend" where
  "Acquire b = b\<lparr>b_inFlight := b_inFlight b + 1\<rparr>"

text \<open>An unpaired release panics, with the count put back: \<open>None\<close>.\<close>

definition Release :: "backend \<Rightarrow> backend option" where
  "Release b = (if b_inFlight b - 1 < 0 then None else Some (b\<lparr>b_inFlight := b_inFlight b - 1\<rparr>))"

definition InFlight :: "backend \<Rightarrow> int" where
  "InFlight b = b_inFlight b"

definition Slots :: "gotime \<Rightarrow> duration \<Rightarrow> backend \<Rightarrow> int" where
  "Slots now loadStaleAfter b =
     (if \<not> is_zero (b_loadAt b) \<and> tsub now (b_loadAt b) < loadStaleAfter then ld_Slots (b_load b)
      else max (cfg_Parallel (b_model b)) 1)"

definition backend_NoteHardFailure :: "backend \<Rightarrow> backend" where
  "backend_NoteHardFailure b = b\<lparr>b_ladder := map_option NoteHardFailure (b_ladder b)\<rparr>"

text \<open>
  A launch asks its environment for a port, for the engine's command line and for a process; each
  answer is an argument. The error says which of them failed, and \<open>errCommand\<close> is told apart from the
  rest because no respawn fixes it.
\<close>

datatype launch_error =
    errPort (Error: string)
  | errCommand (Error: string)
  | errStart (Error: string)

definition launch :: "backend \<Rightarrow> string + int \<Rightarrow> string option \<Rightarrow> string + process \<Rightarrow> gotime \<Rightarrow>
    launch_error option \<times> backend" where
  "launch b freeLoopbackPort command StartProcess now =
     (case freeLoopbackPort of
        Inl e \<Rightarrow> (Some (errPort (b_id b @ '': taking a loopback port: '' @ e)), b)
      | Inr port \<Rightarrow>
          (case command of
             Some e \<Rightarrow> (Some (errCommand (''cannot build command: '' @ e)), b)
           | None \<Rightarrow>
               (case StartProcess of
                  Inl e \<Rightarrow> (Some (errStart e), b)
                | Inr proc \<Rightarrow>
                    (None, b\<lparr>b_proc := Some proc, b_port := port, b_launchedAt := now,
                       b_load := zero_load, b_loadAt := zero_time, b_decoded := 0, b_remain := 0,
                       b_rss := 0, b_images := imagesUnknown\<rparr>))))"

definition stop :: "backend \<Rightarrow> backend" where
  "stop b = (case b_proc b of None \<Rightarrow> b | Some _ \<Rightarrow> b\<lparr>b_proc := None, b_port := 0\<rparr>)"


section \<open>Snapshots\<close>

record backendView =
  v_ID :: string
  v_GPUs :: "int list"
  v_State :: state
  v_Phase :: string
  v_PID :: int
  v_RSSMB :: int
  v_Load :: engine_load
  v_LoadFresh :: bool
  v_Decoded :: int
  v_Remain :: int
  v_InFlight :: int
  v_Respawns :: int
  v_Images :: imageAnswer
  v_Uptime :: duration

definition view :: "backend \<Rightarrow> gotime \<Rightarrow> duration \<Rightarrow> backendView" where
  "view b now staleAfter =
     \<lparr>v_ID = b_id b, v_GPUs = b_gpus b,
      v_State = (case b_ladder b of None \<Rightarrow> StateStarting | Some l \<Rightarrow> l_state l),
      v_Phase = b_phase b,
      v_PID = (if running (b_proc b) then p_pid (the (b_proc b)) else 0),
      v_RSSMB = b_rss b, v_Load = b_load b,
      v_LoadFresh = (\<not> is_zero (b_loadAt b) \<and> tsub now (b_loadAt b) < staleAfter),
      v_Decoded = b_decoded b, v_Remain = b_remain b, v_InFlight = InFlight b,
      v_Respawns = (case b_ladder b of None \<Rightarrow> 0 | Some l \<Rightarrow> l_respawns l),
      v_Images = b_images b,
      v_Uptime = (if running (b_proc b) then tsub now (b_launchedAt b) else 0)\<rparr>"

definition view_slots :: "backendView \<Rightarrow> model_config \<Rightarrow> int" where
  "view_slots v cfg = (if v_LoadFresh v then ld_Slots (v_Load v) else max (cfg_Parallel cfg) 1)"

definition view_busy :: "backendView \<Rightarrow> int" where
  "view_busy v =
     (let engineBusy = (if v_LoadFresh v then ld_Busy (v_Load v) else 0)
      in max engineBusy (v_InFlight v))"

definition view_status :: "backendView \<Rightarrow> model_config \<Rightarrow> BackendStatus" where
  "view_status v cfg =
     \<lparr>bs_ID = v_ID v, bs_GPUs = v_GPUs v, bs_Status = state_string (v_State v),
      bs_Phase = v_Phase v, bs_PID = v_PID v, bs_RSSMB = v_RSSMB v,
      bs_Slots = view_slots v cfg, bs_Busy = view_busy v,
      bs_TokDecoded = (if v_LoadFresh v then v_Decoded v else 0),
      bs_TokRemain = (if v_LoadFresh v then v_Remain v else 0),
      bs_Respawns = v_Respawns v, bs_UptimeS = go_div (v_Uptime v) second\<rparr>"

fun totals_loop :: "model_config \<Rightarrow> backendView list \<Rightarrow> int \<times> int \<times> int \<times> int \<Rightarrow> int \<times> int \<times> int \<times> int" where
  "totals_loop cfg [] acc = acc"
| "totals_loop cfg (v # vs) (slots, busy, healthy, ctx) =
     (if v_State v \<noteq> StateHealthy then totals_loop cfg vs (slots, busy, healthy, ctx)
      else totals_loop cfg vs
        (slots + view_slots v cfg, busy + view_busy v, healthy + 1,
         if v_LoadFresh v \<and> ld_CtxPerSlot (v_Load v) > 0 \<and>
            (ctx = 0 \<or> ld_CtxPerSlot (v_Load v) < ctx)
         then ld_CtxPerSlot (v_Load v) else ctx))"

definition totals :: "model_config \<Rightarrow> backendView list \<Rightarrow> int \<times> int \<times> int \<times> int" where
  "totals cfg views =
     (case totals_loop cfg views (0, 0, 0, 0) of
        (slots, busy, healthy, ctx) \<Rightarrow>
          (slots, busy, healthy, if ctx = 0 then cfg_Context cfg else ctx))"

fun modelImages_loop :: "backendView list \<Rightarrow> imageAnswer \<Rightarrow> bool \<Rightarrow> bool option" where
  "modelImages_loop [] ans seen = (if \<not> seen then None else Some (ans = imagesYes))"
| "modelImages_loop (v # vs) ans seen =
     (if v_State v \<noteq> StateHealthy then modelImages_loop vs ans seen
      else if v_Images v = imagesUnknown \<or> seen \<and> v_Images v \<noteq> ans then None
      else modelImages_loop vs (v_Images v) True)"

definition modelImages :: "backendView list \<Rightarrow> bool option" where
  "modelImages views = modelImages_loop views imagesUnknown False"

definition modelStatus :: "model_config \<Rightarrow> backendView list \<Rightarrow> ModelStatus" where
  "modelStatus cfg views =
     (case totals cfg views of (slots, busy, _, ctx) \<Rightarrow>
        \<lparr>ms_Name = cfg_Name cfg, ms_Engine = cfg_Engine cfg, ms_Slots = slots, ms_Busy = busy,
         ms_Ctx = ctx, ms_Images = modelImages views,
         ms_Backends = map (\<lambda>v. view_status v cfg) views\<rparr>)"

definition modelCapacity :: "model_config \<Rightarrow> backendView list \<Rightarrow> ModelCapacity" where
  "modelCapacity cfg views =
     (case totals cfg views of (slots, busy, healthy, ctx) \<Rightarrow>
        zero_ModelCapacity\<lparr>mc_Name := cfg_Name cfg, mc_Engine := cfg_Engine cfg,
          mc_Slots := slots, mc_Busy := busy, mc_Ctx := ctx, mc_Backends := int (length views),
          mc_HealthyBackends := healthy, mc_Images := modelImages views\<rparr>)"

section \<open>The interface the router sees\<close>

text \<open>
  \<open>route.LocalBackend\<close>: what a router needs of a backend. The laws are those of a counter of
  requests in flight that no operation of the router drives below zero, and of a slot count that
  taking a slot does not change.
\<close>

locale local_backend =
  fixes in_flight :: "'b \<Rightarrow> int"
    and slots :: "'b \<Rightarrow> int"
    and ident :: "'b \<Rightarrow> 'i"
    and acquire :: "'b \<Rightarrow> 'b"
    and release :: "'b \<Rightarrow> 'b option"
  assumes in_flight_acquire: "in_flight (acquire b) = in_flight b + 1"
    and slots_acquire: "slots (acquire b) = slots b"
    and ident_acquire: "ident (acquire b) = ident b"
    and release_paired: "0 < in_flight b \<Longrightarrow> \<exists>b'. release b = Some b' \<and> in_flight b' = in_flight b - 1"
    and release_unpaired: "in_flight b \<le> 0 \<Longrightarrow> release b = None"
    and release_keeps: "release b = Some b' \<Longrightarrow> slots b' = slots b \<and> ident b' = ident b"
begin

definition free :: "'b \<Rightarrow> int" where
  "free b = slots b - in_flight b"

lemma free_acquire: "free (acquire b) = free b - 1"
  by (simp add: free_def in_flight_acquire slots_acquire)

lemma acquire_within: "0 < free b \<Longrightarrow> in_flight (acquire b) \<le> slots (acquire b)"
  by (simp add: free_def in_flight_acquire slots_acquire)

lemma release_acquire:
  assumes "0 \<le> in_flight b"
  obtains b' where "release (acquire b) = Some b'" "in_flight b' = in_flight b" "slots b' = slots b"
    "ident b' = ident b"
  using assms release_paired [of "acquire b"] release_keeps [of "acquire b"]
  by (auto simp: in_flight_acquire slots_acquire ident_acquire)

lemma release_Some_iff: "release b \<noteq> None \<longleftrightarrow> 0 < in_flight b"
proof (cases "0 < in_flight b")
  case True
  then show ?thesis using release_paired [of b] by auto
next
  case False
  then show ?thesis using release_unpaired [of b] by simp
qed

end

interpretation lb: local_backend InFlight "Slots now stale" b_id Acquire Release
  by unfold_locales
    (auto simp: InFlight_def Acquire_def Release_def Slots_def split: if_splits)

section \<open>What the snapshots promise\<close>

named_theorems snapshot_simps "rewrite rules on the summed totals of a model's backends"

abbreviation healthy_views :: "backendView list \<Rightarrow> backendView list" where
  "healthy_views vs \<equiv> filter (\<lambda>v. v_State v = StateHealthy) vs"

abbreviation reported_ctxs :: "backendView list \<Rightarrow> int list" where
  "reported_ctxs vs \<equiv>
     map (\<lambda>v. ld_CtxPerSlot (v_Load v))
       (filter (\<lambda>v. v_LoadFresh v \<and> 0 < ld_CtxPerSlot (v_Load v)) (healthy_views vs))"

text \<open>The loop's running minimum, with 0 for "none yet".\<close>

definition ctx_min :: "int \<Rightarrow> int list \<Rightarrow> int" where
  "ctx_min c cs = foldl (\<lambda>c x. if c = 0 \<or> x < c then x else c) c cs"

lemma totals_loop_eq [snapshot_simps]:
  "totals_loop cfg vs (slots, busy, healthy, ctx) =
     (slots + (\<Sum>v\<leftarrow>healthy_views vs. view_slots v cfg),
      busy + (\<Sum>v\<leftarrow>healthy_views vs. view_busy v),
      healthy + int (length (healthy_views vs)),
      ctx_min ctx (reported_ctxs vs))"
  by (induction vs arbitrary: slots busy healthy ctx) (auto simp: ctx_min_def)

lemma ctx_min_pos: "0 < c \<Longrightarrow> \<forall>x \<in> set cs. 0 < x \<Longrightarrow> ctx_min c cs = Min (insert c (set cs))"
proof (induction cs arbitrary: c)
  case Nil
  then show ?case by (simp add: ctx_min_def)
next
  case (Cons x cs)
  have "ctx_min c (x # cs) = ctx_min (min c x) cs"
    using Cons.prems by (auto simp: ctx_min_def min_def)
  also have "\<dots> = Min (insert (min c x) (set cs))"
    using Cons.prems by (intro Cons.IH) auto
  also have "\<dots> = Min (insert c (set (x # cs)))"
    by (cases "cs = []") (simp_all add: min.assoc)
  finally show ?case .
qed

lemma ctx_min_zero:
  assumes "\<forall>x \<in> set cs. 0 < x"
  shows "ctx_min 0 cs = (if cs = [] then 0 else Min (set cs))"
proof (cases cs)
  case (Cons x xs)
  have "ctx_min 0 (x # xs) = ctx_min x xs" by (simp add: ctx_min_def)
  with Cons assms ctx_min_pos [of x xs] show ?thesis by simp
qed (simp add: ctx_min_def)

lemma totals_eq [snapshot_simps]:
  "totals cfg vs =
     (\<Sum>v\<leftarrow>healthy_views vs. view_slots v cfg, \<Sum>v\<leftarrow>healthy_views vs. view_busy v,
      int (length (healthy_views vs)),
      if reported_ctxs vs = [] then cfg_Context cfg else Min (set (reported_ctxs vs)))"
proof -
  define cs where "cs = reported_ctxs vs"
  have pos: "\<forall>x \<in> set cs. 0 < x" by (auto simp: cs_def)
  then have "cs \<noteq> [] \<Longrightarrow> Min (set cs) \<noteq> 0"
    using Min_in [of "set cs"] by fastforce
  with pos show ?thesis
    unfolding totals_def totals_loop_eq cs_def [symmetric] by (simp add: ctx_min_zero)
qed

lemma view_simps [snapshot_simps]:
  "v_State (view b now stale) = State b"
  "b_model b = cfg \<Longrightarrow> view_slots (view b now stale) cfg = Slots now stale b"
  "InFlight b \<le> view_busy (view b now stale)"
  by (auto simp: view_def State_def view_slots_def Slots_def view_busy_def)

text \<open>C24. A capacity report never promises more than the node can give: when every backend runs the
  model it reports on, the published slots are the sum of the slots of the healthy backends as the
  router counts them at that moment, and the published free slots are at most the free slots the
  node's own router would find on them.\<close>

theorem capacity_report_sound:
  assumes "\<And>b. b \<in> set bs \<Longrightarrow> b_model b = cfg"
  shows "mc_Slots (modelCapacity cfg (map (\<lambda>b. view b now stale) bs)) =
      (\<Sum>b\<leftarrow>filter (\<lambda>b. State b = StateHealthy) bs. Slots now stale b) \<and>
    mc_Slots (modelCapacity cfg (map (\<lambda>b. view b now stale) bs)) -
      mc_Busy (modelCapacity cfg (map (\<lambda>b. view b now stale) bs)) \<le>
      (\<Sum>b\<leftarrow>filter (\<lambda>b. State b = StateHealthy) bs. Slots now stale b - InFlight b)"
proof -
  let ?h = "filter (\<lambda>b. State b = StateHealthy) bs"
  have h: "healthy_views (map (\<lambda>b. view b now stale) bs) = map (\<lambda>b. view b now stale) ?h"
    by (simp add: filter_map o_def snapshot_simps)
  have slots: "(\<Sum>v\<leftarrow>map (\<lambda>b. view b now stale) ?h. view_slots v cfg) = (\<Sum>b\<leftarrow>?h. Slots now stale b)"
    using assms by (auto simp: o_def snapshot_simps intro!: arg_cong [of _ _ sum_list] map_cong)
  have busy: "(\<Sum>b\<leftarrow>?h. InFlight b) \<le> (\<Sum>v\<leftarrow>map (\<lambda>b. view b now stale) ?h. view_busy v)"
    by (simp add: o_def sum_list_mono snapshot_simps)
  show ?thesis
    using slots busy by (simp add: modelCapacity_def totals_eq h sum_list_subtractf zero_ModelCapacity_def)
qed

definition sample_config :: model_config where
  "sample_config = \<lparr>cfg_Name = ''m'', cfg_Engine = ''llamacpp'', cfg_Context = 4096, cfg_Parallel = 2\<rparr>"

definition sample_ladder :: "state \<Rightarrow> ladder" where
  "sample_ladder s = NewLadder \<lparr>MaxFailures = 3, RespawnGrace = 0, MaxRespawns = 3,
     StartupTimeout = 60 * second\<rparr> 0\<lparr>l_state := s\<rparr>"

definition sample_backend :: "int \<Rightarrow> state \<Rightarrow> int \<Rightarrow> backend" where
  "sample_backend i s n =
     newBackend sample_config i []\<lparr>b_ladder := Some (sample_ladder s), b_inFlight := n\<rparr>"

lemmas sample_defs = sample_config_def sample_ladder_def sample_backend_def newBackend_def
  NewLadder_def State_def Slots_def InFlight_def is_zero_def

theorem capacity_report_sound_witness:
  "mc_Slots (modelCapacity sample_config (map (\<lambda>b. view b 0 10)
     [sample_backend 0 StateHealthy 1, sample_backend 1 StateStarting 0])) = 2"
proof -
  let ?bs = "[sample_backend 0 StateHealthy 1, sample_backend 1 StateStarting 0]"
  have "b_model b = sample_config" if "b \<in> set ?bs" for b
    using that by (auto simp: sample_backend_def newBackend_def)
  then have "mc_Slots (modelCapacity sample_config (map (\<lambda>b. view b 0 10) ?bs)) =
    (\<Sum>b\<leftarrow>filter (\<lambda>b. State b = StateHealthy) ?bs. Slots 0 10 b)"
    using capacity_report_sound [of ?bs sample_config 0 10] by blast
  also have "\<dots> = 2"
    by (simp add: sample_defs)
  finally show ?thesis .
qed

text \<open>The published context is one every backend the router may choose can honour: the smallest
  context per slot that a healthy backend with a fresh load reports, and the configured one when
  none reports any.\<close>

lemma published_context_is_smallest:
  "mc_Ctx (modelCapacity cfg vs) =
     (if reported_ctxs vs = [] then cfg_Context cfg else Min (set (reported_ctxs vs)))"
  by (simp add: modelCapacity_def totals_eq)

lemma modelImages_loop_seen:
  "modelImages_loop vs ans True =
     (if \<forall>v \<in> set (healthy_views vs). v_Images v = ans \<and> ans \<noteq> imagesUnknown
      then Some (ans = imagesYes) else None)"
  by (induction vs) auto

lemma modelImages_loop_first:
  "modelImages_loop vs ans False =
     (case healthy_views vs of [] \<Rightarrow> None
      | v # us \<Rightarrow> if v_Images v \<noteq> imagesUnknown \<and> (\<forall>w \<in> set us. v_Images w = v_Images v)
          then Some (v_Images v = imagesYes) else None)"
  by (induction vs) (auto simp: modelImages_loop_seen)

text \<open>A node says "reads images" exactly when it has a healthy backend of the model and all of
  them say yes, "does not" exactly when all of them say no, and otherwise says nothing.\<close>

lemma model_images_unanimous:
  "modelImages vs = Some r \<longleftrightarrow>
     healthy_views vs \<noteq> [] \<and>
     (\<forall>v \<in> set (healthy_views vs). v_Images v = (if r then imagesYes else imagesNo))"
proof (cases "healthy_views vs")
  case (Cons v us)
  have "x \<noteq> imagesUnknown \<Longrightarrow> x \<noteq> imagesYes \<Longrightarrow> x = imagesNo" for x
    by (cases x) auto
  with Cons show ?thesis
    by (auto simp: modelImages_def modelImages_loop_first)
qed (simp add: modelImages_def modelImages_loop_first)

lemma model_images_unanimous_witness:
  "modelImages [view (sample_backend 0 StateHealthy 0\<lparr>b_images := imagesYes\<rparr>) 0 10,
     view (sample_backend 1 StateDead 0\<lparr>b_images := imagesNo\<rparr>) 0 10] = Some True"
  using model_images_unanimous [of "[view (sample_backend 0 StateHealthy 0\<lparr>b_images := imagesYes\<rparr>) 0 10,
     view (sample_backend 1 StateDead 0\<lparr>b_images := imagesNo\<rparr>) 0 10]" True]
  by (simp add: view_def sample_backend_def sample_ladder_def newBackend_def NewLadder_def)

end
