(* ===== verification/Capacity.thy ===== *)
theory Capacity
  imports Meshapi
begin

text \<open>
  Capacity reports and the polling core that fetches them (\<open>mesh/capacity/poller.go\<close>,
  \<open>mesh/capacity/member.go\<close>). The polling core is generic in the value it fetches, as in the source;
  the capacity poller is its instance on reports.

  Every section of the source that runs under the poller's mutex is one step. A poll's goroutine is an
  entry of \<open>po_goroutines\<close>: it is started by \<open>poll_start\<close>, delivers the outcome of its exchange
  in \<open>poll_finish\<close>, and clears its in-flight mark in \<open>poll_done\<close>, with any other steps in between.
  The HTTP exchange and the JSON decoder are arguments.
\<close>

section \<open>Reports\<close>

record report =
  r_Node :: string
  r_APIAddr :: string
  r_Received :: gotime
  r_Sent :: gotime
  r_RTT :: duration
  r_Models :: "ModelCapacity list"

definition AsOf :: "report \<Rightarrow> gotime" where
  "AsOf r = (if is_zero (r_Sent r) then r_Received r else r_Sent r)"

fun find_model :: "string \<Rightarrow> ModelCapacity list \<Rightarrow> ModelCapacity option" where
  "find_model name [] = None"
| "find_model name (m # ms) = (if mc_Name m = name then Some m else find_model name ms)"

definition report_Model :: "report \<Rightarrow> string \<Rightarrow> ModelCapacity option" where
  "report_Model r name = find_model name (r_Models r)"

definition Fresh :: "report \<Rightarrow> gotime \<Rightarrow> duration \<Rightarrow> bool" where
  "Fresh r now staleAfter \<longleftrightarrow> tsub now (r_Received r) < staleAfter"

section \<open>The polling core\<close>

record member =
  m_Name :: string
  m_State :: string
  m_Local :: bool
  m_Role :: string
  m_APIAddr :: string

record fetch_info =
  f_Node :: string
  f_APIAddr :: string
  f_Start :: gotime
  f_Received :: gotime

text \<open>
  A poll's HTTP exchange: no request could be built or no answer came, or an answer with its status, the
  bytes it offers and an error met while reading them.
\<close>

datatype exchange =
    NoAnswer string
  | Answer (x_status: int) (x_body: string) (x_readErr: "string option")

record 'v poll_config =
  pc_Self :: string
  pc_MaxBytes :: nat
  pc_Decode :: "string \<Rightarrow> fetch_info \<Rightarrow> string + string \<times> 'v"
  pc_Merge :: "('v \<Rightarrow> 'v \<Rightarrow> 'v) option"

record 'v poller =
  po_values :: "string \<rightharpoonup> 'v"
  po_wanted :: "string set"
  po_inflight :: "string set"
  po_logged :: "string set"
  po_goroutines :: "(member \<times> bool) list"
  po_log :: "string list"
  po_accepted :: "string list"

definition NewMemberPoller :: "'v poller" where
  "NewMemberPoller = \<lparr>po_values = Map.empty, po_wanted = {}, po_inflight = {}, po_logged = {},
     po_goroutines = [], po_log = [], po_accepted = []\<rparr>"

definition Pollable :: "'v poll_config \<Rightarrow> member \<Rightarrow> bool" where
  "Pollable c m \<longleftrightarrow> m_State m = ''alive'' \<and> \<not> m_Local m \<and> m_Name m \<noteq> pc_Self c \<and> m_Role m = ''node''"

definition poll_start :: "member \<Rightarrow> 'v poller \<Rightarrow> 'v poller" where
  "poll_start m p =
     (if m_Name m \<in> po_inflight p then p
      else p\<lparr>po_inflight := insert (m_Name m) (po_inflight p),
             po_goroutines := po_goroutines p @ [(m, False)]\<rparr>)"

definition tick :: "'v poll_config \<Rightarrow> member list \<Rightarrow> 'v poller \<Rightarrow> 'v poller" where
  "tick c members p =
     (let targets = filter (Pollable c) members;
          wanted = set (map m_Name targets);
          p = p\<lparr>po_wanted := wanted, po_values := po_values p |` wanted\<rparr>
      in fold poll_start targets p)"

fun PollNow :: "'v poll_config \<Rightarrow> member list \<Rightarrow> string \<Rightarrow> 'v poller \<Rightarrow> 'v poller" where
  "PollNow c [] node p = p"
| "PollNow c (m # ms) node p =
     (if m_Name m = node \<and> Pollable c m
      then poll_start m (p\<lparr>po_wanted := insert node (po_wanted p)\<rparr>)
      else PollNow c ms node p)"

definition Forget :: "string \<Rightarrow> 'v poller \<Rightarrow> 'v poller" where
  "Forget node p = p\<lparr>po_values := (po_values p)(node := None), po_wanted := po_wanted p - {node}\<rparr>"

datatype event_kind = EventJoin | EventUpdate | EventLeave | EventFail

definition HandleMemberEvent ::
    "'v poll_config \<Rightarrow> member list \<Rightarrow> event_kind \<Rightarrow> string \<Rightarrow> 'v poller \<Rightarrow> 'v poller" where
  "HandleMemberEvent c members kind node p =
     (case kind of
        EventJoin \<Rightarrow> PollNow c members node p
      | EventUpdate \<Rightarrow> PollNow c members node p
      | EventLeave \<Rightarrow> Forget node p
      | EventFail \<Rightarrow> Forget node p)"

definition poller_Get :: "'v poller \<Rightarrow> string \<Rightarrow> 'v option" where
  "poller_Get p node = po_values p node"

definition poller_All :: "'v poller \<Rightarrow> 'v list" where
  "poller_All p = map (\<lambda>n. the (po_values p n)) (sorted_list_of_set (dom (po_values p)))"

text \<open>The body is read through a limit of one byte more than the largest accepted one.\<close>

datatype fetch_error =
    TransportError string
  | ReadError string
  | StatusError int
  | TooLarge nat
  | DecodeError string
  | NamesOther string

definition fetch :: "'v poll_config \<Rightarrow> string \<Rightarrow> string \<Rightarrow> exchange \<Rightarrow> gotime \<Rightarrow> gotime \<Rightarrow> fetch_error + 'v" where
  "fetch c name addr x start received =
     (case x of
        NoAnswer e \<Rightarrow> Inl (TransportError e)
      | Answer status data readErr \<Rightarrow>
          let body = take (pc_MaxBytes c + 1) data in
          if readErr \<noteq> None then Inl (ReadError (the readErr))
          else if status \<noteq> 200 then Inl (StatusError status)
          else if pc_MaxBytes c < length body then Inl (TooLarge (pc_MaxBytes c))
          else (case pc_Decode c body
                  \<lparr>f_Node = name, f_APIAddr = addr, f_Start = start, f_Received = received\<rparr> of
                  Inl e \<Rightarrow> Inl (DecodeError e)
                | Inr (node, v) \<Rightarrow> if node \<noteq> name then Inl (NamesOther node) else Inr v))"

definition reject :: "string \<Rightarrow> 'v poller \<Rightarrow> 'v poller" where
  "reject name p =
     p\<lparr>po_logged := insert name (po_logged p),
       po_log := (if name \<in> po_logged p then po_log p else po_log p @ [name])\<rparr>"

definition accept :: "'v poll_config \<Rightarrow> string \<Rightarrow> 'v \<Rightarrow> 'v poller \<Rightarrow> 'v poller" where
  "accept c name v p =
     (if name \<notin> po_wanted p then p
      else
        let v = (case (po_values p name, pc_Merge c) of
                   (Some prev, Some merge) \<Rightarrow> merge prev v
                 | _ \<Rightarrow> v)
        in p\<lparr>po_values := (po_values p)(name \<mapsto> v), po_logged := po_logged p - {name},
             po_accepted := po_accepted p @ [name]\<rparr>)"

definition poll_finish :: "'v poll_config \<Rightarrow> member \<Rightarrow> exchange \<Rightarrow> gotime \<Rightarrow> gotime \<Rightarrow> 'v poller \<Rightarrow> 'v poller" where
  "poll_finish c m x start received p =
     (if (m, False) \<notin> set (po_goroutines p) then p
      else
        let p = p\<lparr>po_goroutines := map (\<lambda>g. if g = (m, False) then (m, True) else g) (po_goroutines p)\<rparr>
        in case fetch c (m_Name m) (m_APIAddr m) x start received of
             Inl err \<Rightarrow> reject (m_Name m) p
           | Inr v \<Rightarrow> accept c (m_Name m) v p)"

definition poll_done :: "member \<Rightarrow> 'v poller \<Rightarrow> 'v poller" where
  "poll_done m p =
     (if (m, True) \<notin> set (po_goroutines p) then p
      else p\<lparr>po_goroutines := removeAll (m, True) (po_goroutines p),
             po_inflight := po_inflight p - {m_Name m}\<rparr>)"

datatype poller_event =
    EvTick "member list"
  | EvMember "member list" event_kind string
  | EvAnswer member exchange gotime gotime
  | EvDone member

definition poller_step :: "'v poll_config \<Rightarrow> 'v poller \<Rightarrow> poller_event \<Rightarrow> 'v poller" where
  "poller_step c p e =
     (case e of
        EvTick ms \<Rightarrow> tick c ms p
      | EvMember ms k node \<Rightarrow> HandleMemberEvent c ms k node p
      | EvAnswer m x start received \<Rightarrow> poll_finish c m x start received p
      | EvDone m \<Rightarrow> poll_done m p)"

section \<open>The capacity poller\<close>

record CapacityResponse =
  cr_Node :: string
  cr_Ver :: string
  cr_Models :: "ModelCapacity list"

definition decodeReport :: "(string \<Rightarrow> string + CapacityResponse) \<Rightarrow> string \<Rightarrow> fetch_info \<Rightarrow> string + string \<times> report" where
  "decodeReport unmarshal body f =
     (case unmarshal body of
        Inl e \<Rightarrow> Inl e
      | Inr cr \<Rightarrow>
          let rtt = tsub (f_Received f) (f_Start f);
              rtt = (if rtt \<le> 0 then 1 else rtt)
          in Inr (cr_Node cr,
               \<lparr>r_Node = f_Node f, r_APIAddr = f_APIAddr f, r_Received = f_Received f,
                r_Sent = f_Start f, r_RTT = rtt, r_Models = cr_Models cr\<rparr>))"

text \<open>\<open>rttAlpha\<close> is 0.3; the weighted mean is truncated towards zero by the conversion to a duration.\<close>

definition smoothRTT :: "report \<Rightarrow> report \<Rightarrow> report" where
  "smoothRTT prev nxt =
     (if r_RTT prev > 0 then nxt\<lparr>r_RTT := go_div (3 * r_RTT nxt + 7 * r_RTT prev) 10\<rparr> else nxt)"

definition maxReportBytes :: nat where
  "maxReportBytes = 1048576"

definition NewPoller :: "string \<Rightarrow> (string \<Rightarrow> string + CapacityResponse) \<Rightarrow> report poll_config" where
  "NewPoller self unmarshal =
     \<lparr>pc_Self = self, pc_MaxBytes = maxReportBytes,
      pc_Decode = decodeReport unmarshal, pc_Merge = Some smoothRTT\<rparr>"

section \<open>Invariant of the polling core\<close>

abbreviation goroutine_names :: "'v poller \<Rightarrow> string list" where
  "goroutine_names p \<equiv> map (m_Name \<circ> fst) (po_goroutines p)"

definition log_ok :: "'v poller \<Rightarrow> bool" where
  "log_ok p \<longleftrightarrow> (\<forall>n. count_list (po_log p) n \<le>
     count_list (po_accepted p) n + (if n \<in> po_logged p then 1 else 0))"

definition poller_ok :: "'v poller \<Rightarrow> bool" where
  "poller_ok p \<longleftrightarrow>
     distinct (goroutine_names p) \<and> set (goroutine_names p) = po_inflight p \<and>
     finite (po_wanted p) \<and> dom (po_values p) \<subseteq> po_wanted p \<and> log_ok p"

lemma log_ok_frame [simp]:
  "log_ok (p\<lparr>po_goroutines := g\<rparr>) = log_ok p" "log_ok (p\<lparr>po_inflight := i\<rparr>) = log_ok p"
  "log_ok (p\<lparr>po_wanted := w\<rparr>) = log_ok p" "log_ok (p\<lparr>po_values := v\<rparr>) = log_ok p"
  by (simp_all add: log_ok_def)

lemma NewMemberPoller_ok: "poller_ok NewMemberPoller"
  by (simp add: poller_ok_def log_ok_def NewMemberPoller_def)

lemma poll_start_ok: "poller_ok p \<Longrightarrow> poller_ok (poll_start m p)"
  by (auto simp: poller_ok_def poll_start_def)

lemma fold_poll_start_ok: "poller_ok p \<Longrightarrow> poller_ok (fold poll_start ms p)"
  by (induction ms arbitrary: p) (auto intro: poll_start_ok)

lemma tick_ok: "poller_ok p \<Longrightarrow> poller_ok (tick c ms p)"
  unfolding tick_def Let_def by (rule fold_poll_start_ok) (auto simp: poller_ok_def)

lemma wanted_ok: "poller_ok p \<Longrightarrow> poller_ok (p\<lparr>po_wanted := insert n (po_wanted p)\<rparr>)"
  by (auto simp: poller_ok_def)

lemma PollNow_ok: "poller_ok p \<Longrightarrow> poller_ok (PollNow c ms node p)"
  by (induction ms) (auto intro: poll_start_ok wanted_ok)

lemma Forget_ok: "poller_ok p \<Longrightarrow> poller_ok (Forget node p)"
  by (auto simp: poller_ok_def Forget_def)

lemma reject_log_ok: "log_ok p \<Longrightarrow> log_ok (reject n p)"
  unfolding log_ok_def reject_def
  by (auto split: if_splits)

lemma reject_ok: "poller_ok p \<Longrightarrow> poller_ok (reject n p)"
  using reject_log_ok [of p n] by (simp add: poller_ok_def) (simp add: reject_def)

lemma accept_log_ok: "log_ok p \<Longrightarrow> log_ok (accept c n v p)"
  unfolding log_ok_def accept_def Let_def
  by (auto split: if_splits)

lemma accept_ok: "poller_ok p \<Longrightarrow> poller_ok (accept c n v p)"
  using accept_log_ok [of p c n v] unfolding poller_ok_def
  by (cases "n \<in> po_wanted p") (simp_all add: accept_def Let_def)

lemma finishing_names [simp]:
  "map (m_Name \<circ> fst) (map (\<lambda>g. if g = (m, False) then (m, True) else g) gs) = map (m_Name \<circ> fst) gs"
  by (induction gs) auto

lemma finishing_ok:
  "poller_ok p \<Longrightarrow>
   poller_ok (p\<lparr>po_goroutines := map (\<lambda>g. if g = (m, False) then (m, True) else g) (po_goroutines p)\<rparr>)"
  unfolding poller_ok_def by (simp del: map_map)

lemma poll_finish_ok: "poller_ok p \<Longrightarrow> poller_ok (poll_finish c m x s r p)"
  unfolding poll_finish_def Let_def
  by (auto intro: reject_ok accept_ok finishing_ok split: sum.split)

lemma poll_done_ok:
  assumes "poller_ok p" shows "poller_ok (poll_done m p)"
proof (cases "(m, True) \<in> set (po_goroutines p)")
  case True
  have d: "distinct (goroutine_names p)" and i: "set (goroutine_names p) = po_inflight p"
    using assms by (simp_all add: poller_ok_def)
  have "m_Name (fst g) \<noteq> m_Name m" if "g \<in> set (removeAll (m, True) (po_goroutines p))" for g
    using that d True by (auto simp: distinct_map inj_on_def)
  then have "(m_Name \<circ> fst) ` (set (po_goroutines p) - {(m, True)}) = po_inflight p - {m_Name m}"
    unfolding i [symmetric] set_map set_removeAll by force
  then have "set (map (m_Name \<circ> fst) (removeAll (m, True) (po_goroutines p))) = po_inflight p - {m_Name m}"
    by (simp only: set_map set_removeAll)
  moreover have "distinct (map (m_Name \<circ> fst) (removeAll (m, True) (po_goroutines p)))"
    using d by (simp add: distinct_map distinct_removeAll inj_on_diff)
  ultimately show ?thesis
    using assms True by (simp add: poller_ok_def poll_done_def)
qed (use assms in \<open>simp add: poll_done_def\<close>)

lemma poller_step_ok: "poller_ok p \<Longrightarrow> poller_ok (poller_step c p e)"
  by (cases e)
    (auto simp: poller_step_def HandleMemberEvent_def split: event_kind.split
      intro: tick_ok PollNow_ok Forget_ok poll_finish_ok poll_done_ok)

interpretation polling: invariant_machine "poller_step c" poller_ok "\<lambda>_. ()"
  for c :: "'v poll_config"
  by unfold_locales (simp_all add: poller_step_ok)

section \<open>What the stored values satisfy\<close>

text \<open>
  The contract between the polling core and a client of it: whatever the client's decoder returns for a
  member is a good value of that member, and merging keeps values good. The core then only ever stores
  good values under a member's name.
\<close>

locale polled_value =
  fixes c :: "'v poll_config"
    and good :: "string \<Rightarrow> 'v \<Rightarrow> bool"
  assumes decode_good: "pc_Decode c body f = Inr (f_Node f, v) \<Longrightarrow> good (f_Node f) v"
    and merge_good: "pc_Merge c = Some merge \<Longrightarrow> good n prev \<Longrightarrow> good n v \<Longrightarrow> good n (merge prev v)"
begin

definition all_good :: "'v poller \<Rightarrow> bool" where
  "all_good p \<longleftrightarrow> (\<forall>n v. po_values p n = Some v \<longrightarrow> good n v)"

lemma fetch_good: "fetch c name addr x s r = Inr v \<Longrightarrow> good name v"
  using decode_good [of _ "\<lparr>f_Node = name, f_APIAddr = addr, f_Start = s, f_Received = r\<rparr>"]
  by (auto simp: fetch_def Let_def split: exchange.splits if_splits sum.splits prod.splits)

lemma poll_start_good: "all_good (poll_start m p) = all_good p"
  by (simp add: all_good_def poll_start_def)

lemma fold_poll_start_good: "all_good (fold poll_start ms p) = all_good p"
  by (induction ms arbitrary: p) (simp_all add: poll_start_good)

lemma PollNow_good: "all_good (PollNow c' ms node p) = all_good p"
  by (induction ms) (simp_all add: poll_start_good, simp_all add: all_good_def)

lemma accept_good: "all_good p \<Longrightarrow> good n v \<Longrightarrow> all_good (accept c n v p)"
  by (auto simp: all_good_def accept_def Let_def merge_good split: option.split)

lemma step_good:
  assumes "all_good p" shows "all_good (poller_step c p e)"
proof (cases e)
  case (EvTick ms)
  have "all_good (p\<lparr>po_wanted := w, po_values := po_values p |` w\<rparr>)" for w
    using assms by (auto simp: all_good_def restrict_map_def)
  then show ?thesis
    using EvTick by (simp add: poller_step_def tick_def Let_def fold_poll_start_good)
next
  case (EvMember ms k node)
  have "all_good (Forget node p)"
    using assms by (auto simp: all_good_def Forget_def)
  then show ?thesis
    using EvMember assms
    by (simp add: poller_step_def HandleMemberEvent_def PollNow_good split: event_kind.split)
next
  case (EvAnswer m x s r)
  let ?p = "p\<lparr>po_goroutines := map (\<lambda>g. if g = (m, False) then (m, True) else g) (po_goroutines p)\<rparr>"
  have p: "all_good ?p"
    using assms by (simp add: all_good_def)
  then have "all_good (reject (m_Name m) ?p)"
    by (simp add: all_good_def reject_def)
  then show ?thesis
    using EvAnswer assms p fetch_good accept_good
    by (simp add: poller_step_def poll_finish_def Let_def split: sum.split)
next
  case (EvDone m)
  then show ?thesis
    using assms by (simp add: poller_step_def poll_done_def all_good_def)
qed

sublocale good_values: invariant_machine "poller_step c" all_good "\<lambda>_. ()"
  by unfold_locales (simp_all add: step_good)

lemma run_good: "po_values (run_events (poller_step c) NewMemberPoller es) n = Some v \<Longrightarrow> good n v"
  using good_values.run_keeps [of NewMemberPoller es]
  by (simp add: all_good_def NewMemberPoller_def)

end

lemma smoothRTT_between:
  assumes "1 \<le> r_RTT prev" "1 \<le> r_RTT nxt"
  shows "min (r_RTT prev) (r_RTT nxt) \<le> r_RTT (smoothRTT prev nxt) \<and>
    r_RTT (smoothRTT prev nxt) \<le> max (r_RTT prev) (r_RTT nxt)"
  using assms by (auto simp: smoothRTT_def min_def max_def)

interpretation reports: polled_value "NewPoller self unmarshal"
    "\<lambda>n r. r_Node r = n \<and> 1 \<le> r_RTT r"
  for self unmarshal
proof
  show "r_Node v = f_Node f \<and> 1 \<le> r_RTT v"
    if "pc_Decode (NewPoller self unmarshal) body f = Inr (f_Node f, v)" for body f v
    using that by (auto simp: NewPoller_def decodeReport_def Let_def split: sum.splits)
next
  fix merge n and prev v :: report
  assume "pc_Merge (NewPoller self unmarshal) = Some merge"
    and "r_Node prev = n \<and> 1 \<le> r_RTT prev" and "r_Node v = n \<and> 1 \<le> r_RTT v"
  then show "r_Node (merge prev v) = n \<and> 1 \<le> r_RTT (merge prev v)"
    using smoothRTT_between [of prev v] by (auto simp: NewPoller_def smoothRTT_def)
qed

lemma finite_values: "poller_ok p \<Longrightarrow> finite (dom (po_values p))"
  by (auto simp: poller_ok_def intro: finite_subset)

lemma All_nodes:
  assumes "poller_ok p" and "\<And>n r. po_values p n = Some r \<Longrightarrow> r_Node r = n"
  shows "map r_Node (poller_All p) = sorted_list_of_set (dom (po_values p))"
proof -
  have "map r_Node (poller_All p) = map (\<lambda>n. n) (sorted_list_of_set (dom (po_values p)))"
    unfolding poller_All_def map_map comp_def
    using assms finite_values [OF assms(1)] by (intro map_cong) auto
  then show ?thesis by simp
qed

section \<open>Properties\<close>

lemma poll_start_values [simp]: "po_values (poll_start m p) = po_values p"
  by (simp add: poll_start_def)

lemma fold_poll_start_values [simp]: "po_values (fold poll_start ms p) = po_values p"
  by (induction ms arbitrary: p) simp_all

lemma PollNow_values [simp]: "po_values (PollNow c ms node p) = po_values p"
  by (induction ms) simp_all

lemma poll_finish_values:
  assumes "po_values (poll_finish c m x s t p) n = Some v" and "po_values p n \<noteq> Some v"
  obtains v0 where "m_Name m = n" and "fetch c n (m_APIAddr m) x s t = Inr v0"
    and "v = v0 \<or> (\<exists>merge prev. pc_Merge c = Some merge \<and> v = merge prev v0)"
proof (cases "fetch c (m_Name m) (m_APIAddr m) x s t")
  case (Inl e)
  then show thesis
    using assms by (simp add: poll_finish_def Let_def reject_def split: if_splits)
next
  case (Inr v0)
  then have "m_Name m = n \<and> (v = v0 \<or> (\<exists>merge prev. pc_Merge c = Some merge \<and> v = merge prev v0))"
    using assms by (auto simp: poll_finish_def accept_def Let_def split: if_splits option.splits)
  then show thesis
    using Inr that by blast
qed

lemma step_values:
  assumes "po_values (poller_step c p e) n = Some v" and "po_values p n \<noteq> Some v"
  obtains m x s t v0 where "e = EvAnswer m x s t" and "m_Name m = n"
    and "fetch c n (m_APIAddr m) x s t = Inr v0"
    and "v = v0 \<or> (\<exists>merge prev. pc_Merge c = Some merge \<and> v = merge prev v0)"
proof (cases e)
  case (EvAnswer m x s t)
  then have "po_values (poll_finish c m x s t p) n = Some v"
    using assms(1) by (simp add: poller_step_def)
  from poll_finish_values [OF this assms(2)] EvAnswer that show thesis
    by metis
qed (use assms in \<open>auto simp: poller_step_def tick_def HandleMemberEvent_def Forget_def poll_done_def
      restrict_map_def Let_def split: event_kind.splits if_splits\<close>)

lemma fetch_report:
  assumes "fetch (NewPoller self unmarshal) n addr x s t = Inr r"
  obtains data cr where "x = Answer 200 data None" and "length data \<le> maxReportBytes"
    and "unmarshal data = Inr cr" and "cr_Node cr = n"
    and "r_Models r = cr_Models cr" and "r_Received r = t" and "r_Sent r = s"
proof -
  obtain data where x: "x = Answer 200 data None"
    using assms by (auto simp: fetch_def Let_def split: exchange.splits if_splits)
  have len: "length data \<le> maxReportBytes"
    using assms by (auto simp: x fetch_def Let_def NewPoller_def split: if_splits)
  then show thesis
    using assms x that
    by (auto simp: fetch_def Let_def NewPoller_def decodeReport_def
        split: if_splits sum.splits)
qed


definition sample_member :: member where
  "sample_member = \<lparr>m_Name = ''gb2'', m_State = ''alive'', m_Local = False, m_Role = ''node'', m_APIAddr = ''a''\<rparr>"

definition sample_answers :: "string \<Rightarrow> string + CapacityResponse" where
  "sample_answers body = Inr \<lparr>cr_Node = body, cr_Ver = '''', cr_Models = []\<rparr>"

definition sample_poll :: "poller_event list" where
  "sample_poll = [EvTick [sample_member], EvAnswer sample_member (Answer 200 ''gb2'' None) 5 9]"

lemma sample_poll_value:
  "poller_Get (run_events (poller_step (NewPoller ''gb1'' sample_answers)) NewMemberPoller sample_poll) ''gb2'' =
     Some \<lparr>r_Node = ''gb2'', r_APIAddr = ''a'', r_Received = 9, r_Sent = 5, r_RTT = 4, r_Models = []\<rparr>"
  by (simp add: sample_poll_def sample_answers_def sample_member_def poller_step_def tick_def Pollable_def
      NewPoller_def NewMemberPoller_def poll_start_def poll_finish_def fetch_def decodeReport_def
      accept_def maxReportBytes_def poller_Get_def Let_def tsub_def min_duration_def max_duration_def)


text \<open>The reports handed to the router are those of the members currently polled, one per member, in
  the order of their names, each with a round-trip time of at least one nanosecond.\<close>

lemma reports_one_per_member:
  "let p = run_events (poller_step (NewPoller self unmarshal)) NewMemberPoller es in
     sorted_wrt (<) (map r_Node (poller_All p)) \<and>
     set (map r_Node (poller_All p)) \<subseteq> po_wanted p \<and>
     (\<forall>r\<in>set (poller_All p). poller_Get p (r_Node r) = Some r \<and> 1 \<le> r_RTT r)"
proof -
  define p where "p = run_events (poller_step (NewPoller self unmarshal)) NewMemberPoller es"
  have ok: "poller_ok p"
    unfolding p_def by (rule polling.run_keeps [OF NewMemberPoller_ok])
  have good: "r_Node r = n \<and> 1 \<le> r_RTT r" if "po_values p n = Some r" for n r
    using that unfolding p_def by (rule reports.run_good)
  have nodes: "map r_Node (poller_All p) = sorted_list_of_set (dom (po_values p))"
    using All_nodes [OF ok] good by blast
  have "set (map r_Node (poller_All p)) \<subseteq> po_wanted p"
    unfolding nodes using ok finite_values [OF ok] by (simp add: poller_ok_def)
  moreover have "poller_Get p (r_Node r) = Some r \<and> 1 \<le> r_RTT r" if "r \<in> set (poller_All p)" for r
    using that good finite_values [OF ok] by (auto simp: poller_All_def poller_Get_def)
  moreover have "sorted_wrt (<) (map r_Node (poller_All p))"
    unfolding nodes by (rule strict_sorted_list_of_set)
  ultimately show ?thesis
    by (simp add: p_def [symmetric] Let_def)
qed

lemma reports_one_per_member_witness:
  "1 \<le> r_RTT \<lparr>r_Node = ''gb2'', r_APIAddr = ''a'', r_Received = 9, r_Sent = 5, r_RTT = 4, r_Models = []\<rparr>"
proof -
  let ?p = "run_events (poller_step (NewPoller ''gb1'' sample_answers)) NewMemberPoller sample_poll"
  have "poller_ok ?p" by (rule polling.run_keeps [OF NewMemberPoller_ok])
  then have "the (poller_Get ?p ''gb2'') \<in> set (poller_All ?p)"
    using sample_poll_value finite_values [of ?p]
    by (auto simp: poller_All_def poller_Get_def intro!: rev_image_eqI [of "''gb2''"])
  then show ?thesis
    using reports_one_per_member [of "''gb1''" sample_answers sample_poll] sample_poll_value
    by (auto simp: Let_def)
qed

text \<open>C25. Polls of one member never overlap, and a failing member does not flood the log: at every
  moment at most one poll of a member is running, exactly the members marked in flight have one, and
  the failures logged for a member exceed its accepted values by at most one.\<close>

theorem polls_never_overlap:
  "let p = run_events (poller_step c) NewMemberPoller es in
     distinct (map (m_Name \<circ> fst) (po_goroutines p)) \<and>
     set (map (m_Name \<circ> fst) (po_goroutines p)) = po_inflight p \<and>
     count_list (po_log p) n \<le> count_list (po_accepted p) n + 1"
proof -
  define p where "p = run_events (poller_step c) NewMemberPoller es"
  have ok: "poller_ok p"
    unfolding p_def by (rule polling.run_keeps [OF NewMemberPoller_ok])
  then have "count_list (po_log p) n \<le> count_list (po_accepted p) n + (if n \<in> po_logged p then 1 else 0)"
    by (simp add: poller_ok_def log_ok_def)
  then have "count_list (po_log p) n \<le> count_list (po_accepted p) n + 1"
    by (simp split: if_splits)
  with ok show ?thesis
    by (simp add: p_def [symmetric] Let_def poller_ok_def)
qed

end
