(* ===== verification/Rendezvous.thy ===== *)
theory Rendezvous
  imports Prelude
begin

text \<open>
  The pure helpers of the scored choice (\<open>internal/route/scored.go\<close>): the rendezvous weight of a host
  for a session, the ranking it induces, and the median. The scan that keeps the first strictly
  greatest weight occurs three times in the router; its facts are proved once, here.
\<close>

unbundle bit_operations_syntax

section \<open>Definitions\<close>

definition fnv_byte :: "64 word \<Rightarrow> char \<Rightarrow> 64 word" where
  "fnv_byte h ch = (h XOR of_char ch) * 1099511628211"

definition rendezvous :: "64 word \<Rightarrow> string \<Rightarrow> 64 word" where
  "rendezvous key node =
     (let h = fold (\<lambda>ch h. fnv_byte h ch) node (14695981039346656037 XOR key);
          h = h XOR drop_bit 30 h;
          h = h * 0xbf58476d1ce4e5b9;
          h = h XOR drop_bit 27 h;
          h = h * 0x94d049bb133111eb;
          h = h XOR drop_bit 31 h
      in h)"

text \<open>The comparison \<open>SessionRank\<close> sorts by: \<open>a\<close> may stand before \<open>b\<close>.\<close>

definition rank_le :: "64 word \<Rightarrow> string \<Rightarrow> string \<Rightarrow> bool" where
  "rank_le key a b \<longleftrightarrow>
     (if rendezvous key b \<noteq> rendezvous key a then rendezvous key b < rendezvous key a else a \<le> b)"

fun rank_insert :: "64 word \<Rightarrow> string \<Rightarrow> string list \<Rightarrow> string list" where
  "rank_insert key x [] = [x]"
| "rank_insert key x (y # ys) = (if rank_le key x y then x # y # ys else y # rank_insert key x ys)"

definition SessionRank :: "64 word \<Rightarrow> string list \<Rightarrow> string list" where
  "SessionRank key names = foldr (rank_insert key) names []"

text \<open>The inner loop of \<open>median\<close>: the value at \<open>j\<close> moves down while it is less than its left
  neighbour.\<close>

fun sink :: "'a::linorder list \<Rightarrow> nat \<Rightarrow> 'a list" where
  "sink xs 0 = xs"
| "sink xs (Suc j) = (if xs ! Suc j < xs ! j then sink (xs[Suc j := xs ! j, j := xs ! Suc j]) j else xs)"

definition insertion_sort :: "'a::linorder list \<Rightarrow> 'a list" where
  "insertion_sort xs = fold (\<lambda>i xs. sink xs i) [1..<length xs] xs"

definition median :: "'a::linorder list \<Rightarrow> 'a" where
  "median xs = insertion_sort xs ! (length xs div 2)"

section \<open>The ranking\<close>

lemma rank_le_total: "rank_le key a b \<or> rank_le key b a"
  by (auto simp: rank_le_def)

lemma rank_le_trans: "rank_le key a b \<Longrightarrow> rank_le key b c \<Longrightarrow> rank_le key a c"
  by (auto simp: rank_le_def split: if_splits)

lemma rank_le_antisym: "rank_le key a b \<Longrightarrow> rank_le key b a \<Longrightarrow> a = b"
  by (auto simp: rank_le_def split: if_splits)

lemma rank_insert_mset [simp]: "mset (rank_insert key x ys) = add_mset x (mset ys)"
  by (induction ys) auto

lemma rank_insert_sorted: "sorted_wrt (rank_le key) ys \<Longrightarrow> sorted_wrt (rank_le key) (rank_insert key x ys)"
proof (induction ys)
  case (Cons y ys)
  have set_ins: "set (rank_insert key x ys) = insert x (set ys)"
    using rank_insert_mset [of key x ys] by (metis set_mset_add_mset_insert set_mset_mset)
  show ?case
  proof (cases "rank_le key x y")
    case True
    then have "rank_le key x z" if "z \<in> set ys" for z
      using Cons.prems that rank_le_trans [of key x y z] by simp
    with True Cons.prems show ?thesis by simp
  next
    case False
    then have "rank_le key y x"
      using rank_le_total [of key x y] by blast
    with False Cons show ?thesis by (simp add: set_ins)
  qed
qed simp

lemma SessionRank_mset [simp]: "mset (SessionRank key names) = mset names"
  unfolding SessionRank_def by (induction names) auto

lemma SessionRank_set [simp]: "set (SessionRank key names) = set names"
  by (metis SessionRank_mset set_mset_mset)

lemma SessionRank_sorted: "sorted_wrt (rank_le key) (SessionRank key names)"
  unfolding SessionRank_def by (induction names) (auto intro: rank_insert_sorted)

lemma sorted_wrt_unique:
  assumes "\<And>a b. R a b \<Longrightarrow> R b a \<Longrightarrow> a = b"
    and "sorted_wrt R xs" and "sorted_wrt R ys" and "mset xs = mset ys"
  shows "xs = ys"
  using assms(2-)
proof (induction xs arbitrary: ys)
  case (Cons x xs)
  then obtain y ys' where ys: "ys = y # ys'" by (cases ys) auto
  have "x = y"
  proof (rule ccontr)
    assume ne: "x \<noteq> y"
    have "x \<in> set ys" "y \<in> set (x # xs)"
      using Cons.prems(3) ys by (metis list.set_intros(1) set_mset_mset)+
    then have "R y x" "R x y"
      using Cons.prems(1,2) ys ne by (simp_all add: sorted_wrt.simps)
    then show False using ne assms(1) by blast
  qed
  moreover have "xs = ys'"
    using Cons.prems ys \<open>x = y\<close> by (intro Cons.IH) simp_all
  ultimately show ?case using ys by simp
qed simp

text \<open>C26. The session ranking is a property of the set of hosts, not of the order in which a node lists
  them: it is the only arrangement of the names that is sorted by weight, highest first, with ties by
  name. Two nodes that know the same hosts, and every iteration order of a Go map, give the same
  ranking, so the replica of a session is looked for where it was placed.\<close>

theorem session_rank_canonical:
  "mset (SessionRank key names) = mset names \<and>
   sorted_wrt (rank_le key) (SessionRank key names) \<and>
   (\<forall>others. mset others = mset names \<and> sorted_wrt (rank_le key) others \<longrightarrow> others = SessionRank key names) \<and>
   (\<forall>others. mset others = mset names \<longrightarrow> SessionRank key others = SessionRank key names)"
proof -
  have unique: "others = SessionRank key names"
    if "mset others = mset names" "sorted_wrt (rank_le key) others" for others
    using that sorted_wrt_unique [of "rank_le key" others "SessionRank key names"] rank_le_antisym [of key]
      SessionRank_sorted [of key names] by (metis SessionRank_mset)
  then show ?thesis
    by (auto simp: SessionRank_sorted)
qed

theorem session_rank_canonical_witness:
  "SessionRank 7 [''gb3'', ''gb1'', ''gb2''] = SessionRank 7 [''gb1'', ''gb2'', ''gb3'']"
proof -
  have "mset [''gb3'', ''gb1'', ''gb2''] = mset [''gb1'', ''gb2'', ''gb3'']"
    by simp
  with session_rank_canonical [of 7 "[''gb1'', ''gb2'', ''gb3'']"] show ?thesis
    by blast
qed

section \<open>The median\<close>

definition sinking :: "'a::linorder list \<Rightarrow> nat \<Rightarrow> nat \<Rightarrow> bool" where
  "sinking xs i j \<longleftrightarrow> (\<forall>a b. a < b \<and> b \<le> i \<and> b \<noteq> j \<longrightarrow> xs ! a \<le> xs ! b)"

lemma sink_mset: "j < length xs \<Longrightarrow> mset (sink xs j) = mset xs"
  by (induction xs j rule: sink.induct) (simp_all add: mset_swap)

lemma sink_length [simp]: "length (sink xs j) = length xs"
  by (induction xs j rule: sink.induct) simp_all

lemma sinking_le: "sinking xs i j \<Longrightarrow> a < b \<Longrightarrow> b \<le> i \<Longrightarrow> b \<noteq> j \<Longrightarrow> xs ! a \<le> xs ! b"
  unfolding sinking_def by blast

lemma sink_sorts:
  assumes "sinking xs i j" "j \<le> i" "i < length xs"
  shows "\<forall>a b. a < b \<and> b \<le> i \<longrightarrow> sink xs j ! a \<le> sink xs j ! b"
  using assms
proof (induction xs j rule: sink.induct)
  case (1 xs)
  then have "xs ! a \<le> xs ! b" if "a < b" "b \<le> i" for a b
    using that sinking_le [of xs i 0 a b] by simp
  then show ?case by (simp only: sink.simps) blast
next
  case (2 xs j)
  let ?ys = "xs[Suc j := xs ! j, j := xs ! Suc j]"
  show ?case
  proof (cases "xs ! Suc j < xs ! j")
    case True
    have "sinking ?ys i j"
      unfolding sinking_def
    proof (intro allI impI)
      fix a b assume ab: "a < b \<and> b \<le> i \<and> b \<noteq> j"
      have le: "xs ! a' \<le> xs ! b'" if "a' < b'" "b' \<le> i" "b' \<noteq> Suc j" for a' b'
        using sinking_le [OF "2.prems"(1) that] .
      have len: "j < length xs" "Suc j < length xs"
        using "2.prems" by auto
      have nth: "?ys ! k = (if k = j then xs ! Suc j else if k = Suc j then xs ! j else xs ! k)" for k
        using len by (simp add: nth_list_update)
      consider "b = Suc j" "a = j" | "b = Suc j" "a < j" | "b \<noteq> Suc j"
        using ab by linarith
      then show "?ys ! a \<le> ?ys ! b"
      proof cases
        case 1
        then show ?thesis using True by (simp add: nth)
      next
        case 2
        then show ?thesis using ab le [of a j] by (simp add: nth)
      next
        case 3
        then show ?thesis using ab le [of a b] le [of j b] le [of "Suc j" b] by (simp add: nth)
      qed
    qed
    then have "\<forall>a b. a < b \<and> b \<le> i \<longrightarrow> sink ?ys j ! a \<le> sink ?ys j ! b"
      using "2.prems"(2,3) by (intro "2.IH" [OF True]) simp_all
    moreover have "sink xs (Suc j) = sink ?ys j"
      using True by (simp only: sink.simps if_True)
    ultimately show ?thesis
      by (simp only:)
  next
    case False
    have le: "xs ! a \<le> xs ! b" if "a < b" "b \<le> i" "b \<noteq> Suc j" for a b
      using sinking_le [OF "2.prems"(1) that] .
    have top: "xs ! a \<le> xs ! Suc j" if "a < Suc j" for a
      using that le [of a j] False "2.prems"(2) by (cases "a = j") simp_all
    have "xs ! a \<le> xs ! b" if "a < b" "b \<le> i" for a b
      using that le [of a b] top [of a] by (cases "b = Suc j") simp_all
    moreover have "sink xs (Suc j) = xs"
      using False by (simp only: sink.simps if_False)
    ultimately show ?thesis
      by (simp only:) blast
  qed
qed

lemma insertion_prefix:
  assumes "n \<le> length xs"
  shows "mset (fold (\<lambda>i xs. sink xs i) [1..<n] xs) = mset xs \<and>
    (\<forall>a b. a < b \<and> b < n \<longrightarrow>
      fold (\<lambda>i xs. sink xs i) [1..<n] xs ! a \<le> fold (\<lambda>i xs. sink xs i) [1..<n] xs ! b)"
  using assms
proof (induction n)
  case (Suc n)
  let ?zs = "fold (\<lambda>i xs. sink xs i) [1..<n] xs"
  have len: "length ?zs = length xs"
    using Suc by (metis Suc_leD size_mset)
  show ?case
  proof (cases "n = 0")
    case False
    have "sinking ?zs n n"
      using Suc by (auto simp: sinking_def)
    with False Suc len sink_sorts [of ?zs n n] show ?thesis
      by (auto simp: sink_mset less_Suc_eq_le)
  qed simp
qed simp

text \<open>C27. The in-place insertion sort of \<open>median\<close> sorts: the median is the element in the middle of
  the sorted measurements, whatever their order, and it is one of them.\<close>

theorem median_is_middle:
  assumes "xs \<noteq> []"
  shows "median xs = sort xs ! (length xs div 2) \<and> median xs \<in> set xs"
proof -
  have "insertion_sort xs = sort xs"
    using insertion_prefix [of "length xs" xs] unfolding insertion_sort_def
    by (intro properties_for_sort [symmetric])
      (auto simp: sorted_iff_nth_mono_less dest: mset_eq_length)
  moreover have "sort xs ! (length xs div 2) \<in> set (sort xs)"
    using assms by (intro nth_mem) simp
  ultimately show ?thesis
    by (simp add: median_def)
qed

theorem median_is_middle_witness: "median [30, 10, 20 :: int] = sort [30, 10, 20] ! 1"
  using median_is_middle [of "[30, 10, 20 :: int]"] by simp

section \<open>The first strictly greatest weight\<close>

definition first_max :: "('a \<Rightarrow> 'w::linorder) \<Rightarrow> 'a list \<Rightarrow> 'a option" where
  "first_max w xs =
     fold (\<lambda>x best. case best of None \<Rightarrow> Some x | Some y \<Rightarrow> if w x > w y then Some x else Some y) xs None"

lemma first_max_snoc [simp]:
  "first_max w (xs @ [x]) =
     (case first_max w xs of None \<Rightarrow> Some x | Some y \<Rightarrow> if w x > w y then Some x else Some y)"
  by (simp add: first_max_def)

lemma first_max_Nil [simp]: "first_max w [] = None"
  by (simp add: first_max_def)

lemma first_max_single [simp]: "first_max w [x] = Some x"
  by (simp add: first_max_def)

lemma first_max_None [simp]: "first_max w xs = None \<longleftrightarrow> xs = []"
  by (induction xs rule: rev_induct) (auto split: option.split)

lemma first_max_greatest:
  "first_max w xs = Some x \<Longrightarrow> x \<in> set xs \<and> (\<forall>y\<in>set xs. w y \<le> w x)"
proof (induction xs arbitrary: x rule: rev_induct)
  case (snoc z xs)
  show ?case
  proof (cases "first_max w xs")
    case (Some y)
    then have x: "x = (if w z > w y then z else y)"
      using snoc.prems by (simp split: if_splits)
    have y: "y \<in> set xs" "w v \<le> w y" if "v \<in> set xs" for v
      using snoc.IH [OF Some] that by auto
    have "w v \<le> w x" if "v \<in> set (xs @ [z])" for v
      using that y(2) [of v] x by (cases "w z > w y") auto
    then show ?thesis
      using snoc.IH [OF Some] x by simp
  qed (use snoc.prems in simp)
qed simp

lemma first_max_unique:
  assumes "inj_on w (set xs)"
  shows "first_max w xs = Some x \<longleftrightarrow> x \<in> set xs \<and> (\<forall>y\<in>set xs. w y \<le> w x)"
proof
  assume x: "x \<in> set xs \<and> (\<forall>y\<in>set xs. w y \<le> w x)"
  then have "first_max w xs \<noteq> None"
    by auto
  then obtain z where z: "first_max w xs = Some z"
    by blast
  have "w z = w x"
    using first_max_greatest [OF z] x by (simp add: order_antisym)
  then have "z = x"
    using assms first_max_greatest [OF z] x by (simp add: inj_on_eq_iff)
  with z show "first_max w xs = Some x"
    by simp
qed (rule first_max_greatest)

text \<open>Losing other hosts does not move a session: the winner stays the winner while it is there.\<close>

lemma first_max_stable:
  assumes "inj_on w (set xs)" and "first_max w xs = Some x" and "set ys \<subseteq> set xs" and "x \<in> set ys"
  shows "first_max w ys = Some x"
  using assms first_max_greatest [OF assms(2)] first_max_unique [OF inj_on_subset [OF assms(1,3)]]
  by auto

end
