(* ===== verification/Router.thy ===== *)
theory Router
  imports Backend Capacity Rendezvous "HOL-Library.AList"
begin

text \<open>
  The request router (\<open>internal/route\<close>: \<open>router.go\<close>, \<open>images.go\<close>, \<open>warm.go\<close>, \<open>scored.go\<close>). Each
  section that runs under the router mutex is one function from the router state to a result and the new
  state. One reading of the clock, \<open>now\<close>, serves a whole pick. The local backends are shared mutable
  objects: the state holds a store from references to backends, and a lease holds a reference.
  Pointer identity of leases, reservations and waiters is a unique number.

  A \<open>float64\<close> of the scored choice is an exact rational, and the random source is a stream of rationals
  read in order.
\<close>

section \<open>Data\<close>

datatype route_error =
    ErrModelNotFound
  | ErrHostNotServing
  | ErrNoFreeSlot
  | ErrNoImageInput
  | ErrQueueFull
  | ErrQueueTimeout
  | ErrContext

datatype imageClass = imgAny | imgYes | imgUnknown | imgNo

record config =
  c_Self :: string
  c_StaleAfter :: duration
  c_LoadStaleAfter :: duration
  c_QueueMax :: int
  c_QueueTimeout :: duration
  c_Performance :: bool
  c_LocalScore :: "(string \<Rightarrow> (int \<times> int) option) option"
  c_LocalImages :: "(string \<Rightarrow> bool \<times> bool) option"
  c_LocalKVShare :: "(string \<Rightarrow> (string \<times> int) option) option"

record target =
  t_Local :: bool
  t_Node :: string
  t_BackendID :: string
  t_Addr :: string

definition target_Key :: "target \<Rightarrow> string" where
  "target_Key t = (if t_Local t then ''local:'' @ t_BackendID t else ''peer:'' @ t_Node t)"

record request =
  q_Model :: string
  q_Host :: string
  q_Prefer :: "string list"
  q_Exclude :: "string set"
  q_Forwarded :: bool
  q_QueueBudget :: duration
  q_EstK :: rat
  q_SessionKey :: "64 word"
  q_Images :: bool
  q_imgWant :: imageClass

type_synonym resKey = "string \<times> string"

record reservation =
  rs_id :: nat
  rs_start :: gotime

record lease =
  l_id :: nat
  l_target :: target
  l_backend :: "nat option"
  l_key :: resKey
  l_res :: nat

text \<open>A waiter's result channel has room for one result; \<open>None\<close> is the empty channel. Waiters are
  shared objects: the queues and the waiting callers hold references into \<open>rt_waiters\<close>.\<close>

record waiter =
  w_req :: request
  w_result :: "(route_error + lease) option"
  w_done :: bool

type_synonym sessionRef = "string \<times> 64 word"

text \<open>\<open>lh_order\<close> is the recency list, front first; \<open>lh_byRef\<close> leads from a session to its node.\<close>

record lastHosts =
  lh_byRef :: "sessionRef \<rightharpoonup> string"
  lh_order :: "sessionRef list"

record router =
  rt_localRR :: "string \<Rightarrow> int"
  rt_peerRR :: "string \<Rightarrow> int"
  rt_reservations :: "resKey \<Rightarrow> reservation list"
  rt_refused :: "resKey \<rightharpoonup> gotime"
  rt_queues :: "string \<Rightarrow> nat list"
  rt_waiters :: "nat \<rightharpoonup> waiter"
  rt_lastHosts :: lastHosts
  rt_released :: "nat set"
  rt_next :: nat
  rt_rand :: "nat \<Rightarrow> rat"
  rt_rpos :: nat
  rt_store :: "nat \<Rightarrow> backend"
  rt_models :: "string \<Rightarrow> (nat list \<times> bool) option"

definition empty_lastHosts :: lastHosts where
  "empty_lastHosts = \<lparr>lh_byRef = Map.empty, lh_order = []\<rparr>"

definition New :: "(nat \<Rightarrow> rat) \<Rightarrow> (nat \<Rightarrow> backend) \<Rightarrow> (string \<Rightarrow> (nat list \<times> bool) option) \<Rightarrow> router" where
  "New rand store models =
     \<lparr>rt_localRR = \<lambda>_. 0, rt_peerRR = \<lambda>_. 0, rt_reservations = \<lambda>_. [], rt_refused = Map.empty,
      rt_queues = \<lambda>_. [], rt_waiters = Map.empty, rt_lastHosts = empty_lastHosts, rt_released = {}, rt_next = 0,
      rt_rand = rand, rt_rpos = 0, rt_store = store, rt_models = models\<rparr>"

section \<open>Images\<close>

definition classOf :: "bool option \<Rightarrow> imageClass" where
  "classOf images = (case images of None \<Rightarrow> imgUnknown | Some True \<Rightarrow> imgYes | Some False \<Rightarrow> imgNo)"

definition localImageClass :: "config \<Rightarrow> string \<Rightarrow> imageClass" where
  "localImageClass c model =
     (case c_LocalImages c of
        None \<Rightarrow> imgUnknown
      | Some f \<Rightarrow>
          (case f model of (reads, known) \<Rightarrow>
             if \<not> known then imgUnknown else if reads then imgYes else imgNo))"

text \<open>The classes \<open>imageClassLocked\<close> notes, in order.\<close>

definition noted_classes :: "config \<Rightarrow> request \<Rightarrow> bool \<Rightarrow> report list \<Rightarrow> gotime \<Rightarrow> imageClass list" where
  "noted_classes c req localHealthy reports now =
     (if localHealthy \<and> (q_Host req = '''' \<or> q_Host req = c_Self c)
      then [localImageClass c (q_Model req)] else []) @
     (if q_Host req \<noteq> c_Self c
      then concat (map (\<lambda>rep.
             if r_Node rep = c_Self c \<or> q_Host req \<noteq> '''' \<and> r_Node rep \<noteq> q_Host req \<or>
                \<not> Fresh rep now (c_StaleAfter c) then []
             else case report_Model rep (q_Model req) of
                    None \<Rightarrow> []
                  | Some mc \<Rightarrow> if mc_HealthyBackends mc > 0 then [classOf (mc_Images mc)] else []) reports)
      else [])"

definition imageClassLocked ::
    "config \<Rightarrow> request \<Rightarrow> bool \<Rightarrow> report list \<Rightarrow> gotime \<Rightarrow> route_error + imageClass" where
  "imageClassLocked c req localHealthy reports now =
     (let noted = noted_classes c req localHealthy reports now;
          yes = (imgYes \<in> set noted);
          unknown = (imgUnknown \<in> set noted);
          any = (noted \<noteq> [])
      in if yes then Inr imgYes
         else if unknown \<or> \<not> any then Inr imgUnknown
         else Inl ErrNoImageInput)"

definition anyHealthy :: "router \<Rightarrow> nat list \<Rightarrow> bool" where
  "anyHealthy r backends \<longleftrightarrow> list_ex (\<lambda>b. State (rt_store r b) = StateHealthy) backends"

section \<open>Local backends\<close>

definition local_free :: "config \<Rightarrow> gotime \<Rightarrow> router \<Rightarrow> nat \<Rightarrow> int" where
  "local_free c now r b = Slots now (c_LoadStaleAfter c) (rt_store r b) - InFlight (rt_store r b)"

definition local_usable :: "request \<Rightarrow> router \<Rightarrow> nat \<Rightarrow> bool" where
  "local_usable req r b \<longleftrightarrow>
     State (rt_store r b) = StateHealthy \<and> ''local:'' @ b_id (rt_store r b) \<notin> q_Exclude req"

definition localHasFree :: "config \<Rightarrow> request \<Rightarrow> gotime \<Rightarrow> router \<Rightarrow> nat list \<Rightarrow> bool" where
  "localHasFree c req now r backends \<longleftrightarrow>
     list_ex (\<lambda>b. local_usable req r b \<and> local_free c now r b > 0) backends"

text \<open>The scan of \<open>pickLocalLocked\<close>: the most-free backends so far, their free count, and the session's
  home with its weight.\<close>

fun pickLocal_scan :: "config \<Rightarrow> request \<Rightarrow> gotime \<Rightarrow> router \<Rightarrow> nat list \<Rightarrow>
    nat list \<times> int \<times> (nat \<times> 64 word) option \<Rightarrow> nat list \<times> int \<times> (nat \<times> 64 word) option" where
  "pickLocal_scan c req now r [] acc = acc"
| "pickLocal_scan c req now r (b # bs) (tied, best, home) =
     (if \<not> local_usable req r b then pickLocal_scan c req now r bs (tied, best, home)
      else
        let free = local_free c now r b;
            home = (if q_SessionKey req \<noteq> 0 \<and> free > 0 then
                      let h = rendezvous (q_SessionKey req) (b_id (rt_store r b))
                      in (case home of
                            None \<Rightarrow> Some (b, h)
                          | Some (b', hi) \<Rightarrow> if h > hi then Some (b, h) else Some (b', hi))
                    else home)
        in pickLocal_scan c req now r bs
             (if free \<le> 0 \<or> free < best then (tied, best, home)
              else if free > best then ([b], free, home)
              else (tied @ [b], best, home)))"

definition local_lease :: "config \<Rightarrow> nat \<Rightarrow> router \<Rightarrow> lease \<times> router" where
  "local_lease c b r =
     (\<lparr>l_id = rt_next r,
       l_target = \<lparr>t_Local = True, t_Node = c_Self c, t_BackendID = b_id (rt_store r b),
                   t_Addr = Addr (rt_store r b)\<rparr>,
       l_backend = Some b, l_key = ('''', ''''), l_res = 0\<rparr>,
      r\<lparr>rt_store := (rt_store r)(b := Acquire (rt_store r b)), rt_next := rt_next r + 1\<rparr>)"

definition pickLocalLocked ::
    "config \<Rightarrow> request \<Rightarrow> nat list \<Rightarrow> gotime \<Rightarrow> router \<Rightarrow> lease option \<times> router" where
  "pickLocalLocked c req backends now r =
     (case pickLocal_scan c req now r backends ([], 0, None) of
        (tied, best, home) \<Rightarrow>
          if tied = [] then (None, r)
          else
            case (case home of
                    Some (b, hi) \<Rightarrow> (b, r)
                  | None \<Rightarrow>
                      let n = rt_localRR r (q_Model req)
                      in (tied ! nat (n mod int (length tied)),
                          r\<lparr>rt_localRR := (rt_localRR r)(q_Model req := n + 1)\<rparr>)) of
              (b, r) \<Rightarrow> (case local_lease c b r of (l, r) \<Rightarrow> (Some l, r)))"

section \<open>Peers\<close>

definition reservedLocked :: "router \<Rightarrow> resKey \<Rightarrow> gotime \<Rightarrow> int" where
  "reservedLocked r key asOf = int (length (filter (\<lambda>x. rs_start x > asOf) (rt_reservations r key)))"

definition peerFreeLocked :: "config \<Rightarrow> request \<Rightarrow> report \<Rightarrow> gotime \<Rightarrow> router \<Rightarrow>
    (ModelCapacity \<times> int \<times> bool) \<times> router" where
  "peerFreeLocked c req rep now r =
     (if r_Node rep = c_Self c \<or> \<not> Fresh rep now (c_StaleAfter c)
      then ((zero_ModelCapacity, 0, False), r)
      else case report_Model rep (q_Model req) of
        None \<Rightarrow> ((zero_ModelCapacity, 0, False), r)
      | Some mc \<Rightarrow>
          if mc_HealthyBackends mc \<le> 0 then ((mc, 0, False), r)
          else if q_Host req \<noteq> '''' \<and> r_Node rep \<noteq> q_Host req \<or> ''peer:'' @ r_Node rep \<in> q_Exclude req
            then ((mc, 0, True), r)
          else if q_imgWant req \<noteq> imgAny \<and> classOf (mc_Images mc) \<noteq> q_imgWant req
            then ((mc, 0, True), r)
          else
            let key = (r_Node rep, q_Model req);
                free = mc_Slots mc - mc_Busy mc - reservedLocked r key (AsOf rep)
            in case rt_refused r key of
                 None \<Rightarrow> ((mc, free, True), r)
               | Some refusal \<Rightarrow>
                   if \<not> AsOf rep > refusal then ((mc, 0, True), r)
                   else ((mc, free, True), r\<lparr>rt_refused := (rt_refused r)(key := None)\<rparr>))"

definition peerLeaseLocked :: "report \<Rightarrow> string \<Rightarrow> gotime \<Rightarrow> router \<Rightarrow> lease \<times> router" where
  "peerLeaseLocked rep model now r =
     (let key = (r_Node rep, model);
          res = \<lparr>rs_id = rt_next r, rs_start = now\<rparr>
      in (\<lparr>l_id = rt_next r + 1,
           l_target = \<lparr>t_Local = False, t_Node = r_Node rep, t_BackendID = '''', t_Addr = r_APIAddr rep\<rparr>,
           l_backend = None, l_key = key, l_res = rt_next r\<rparr>,
          r\<lparr>rt_reservations := (rt_reservations r)(key := rt_reservations r key @ [res]),
            rt_next := rt_next r + 2\<rparr>))"

fun remove_reservation :: "nat \<Rightarrow> reservation list \<Rightarrow> reservation list" where
  "remove_reservation i [] = []"
| "remove_reservation i (x # xs) = (if rs_id x = i then xs else x # remove_reservation i xs)"

definition dropReservationLocked :: "resKey \<Rightarrow> nat \<Rightarrow> router \<Rightarrow> router" where
  "dropReservationLocked key res r =
     r\<lparr>rt_reservations := (rt_reservations r)(key := remove_reservation res (rt_reservations r key))\<rparr>"

text \<open>
  The loops over the reports ask \<open>peerFreeLocked\<close> about each report in turn and otherwise only read the
  answers: the answers first, in order, with the router state threaded through.
\<close>

type_synonym peer_answer = "report \<times> ModelCapacity \<times> int \<times> bool"

fun peer_answers :: "config \<Rightarrow> request \<Rightarrow> report list \<Rightarrow> gotime \<Rightarrow> router \<Rightarrow> peer_answer list \<times> router" where
  "peer_answers c req [] now r = ([], r)"
| "peer_answers c req (rep # reps) now r =
     (case peerFreeLocked c req rep now r of (a, r) \<Rightarrow>
        case peer_answers c req reps now r of (as, r) \<Rightarrow> ((rep, a) # as, r))"

fun pickPeer_scan :: "peer_answer list \<Rightarrow> report list \<times> int \<times> duration \<Rightarrow> report list \<times> int \<times> duration" where
  "pickPeer_scan [] acc = acc"
| "pickPeer_scan ((rep, mc, free, serves) # as) (tied, best, bestRTT) =
     pickPeer_scan as
       (if \<not> serves \<or> free \<le> 0 \<or> free < best then (tied, best, bestRTT)
        else if free > best \<or> r_RTT rep < bestRTT then ([rep], free, r_RTT rep)
        else if r_RTT rep = bestRTT then (tied @ [rep], best, bestRTT)
        else (tied, best, bestRTT))"

definition pickPeerLocked ::
    "config \<Rightarrow> request \<Rightarrow> report list \<Rightarrow> gotime \<Rightarrow> router \<Rightarrow> lease option \<times> router" where
  "pickPeerLocked c req reports now r =
     (case peer_answers c req reports now r of (as, r) \<Rightarrow>
        case pickPeer_scan as ([], 0, 0) of (tied, best, bestRTT) \<Rightarrow>
          if tied = [] then (None, r)
          else
            let n = rt_peerRR r (q_Model req);
                r = r\<lparr>rt_peerRR := (rt_peerRR r)(q_Model req := n + 1)\<rparr>;
                rep = tied ! nat (n mod int (length tied))
            in (case peerLeaseLocked rep (q_Model req) now r of (l, r) \<Rightarrow> (Some l, r)))"

section \<open>Warm sessions\<close>

definition sessionMemory :: nat where
  "sessionMemory = 4096"

definition defaultImportMsPer1k :: rat where
  "defaultImportMsPer1k = 50"

definition lastHosts_get :: "lastHosts \<Rightarrow> sessionRef \<Rightarrow> string option" where
  "lastHosts_get l ref = lh_byRef l ref"

definition lastHosts_set :: "lastHosts \<Rightarrow> sessionRef \<Rightarrow> string \<Rightarrow> lastHosts" where
  "lastHosts_set l ref node =
     (case lh_byRef l ref of
        Some _ \<Rightarrow>
          l\<lparr>lh_byRef := (lh_byRef l)(ref \<mapsto> node), lh_order := ref # removeAll ref (lh_order l)\<rparr>
      | None \<Rightarrow>
          let l = l\<lparr>lh_byRef := (lh_byRef l)(ref \<mapsto> node), lh_order := ref # lh_order l\<rparr>
          in if sessionMemory < length (lh_order l)
             then l\<lparr>lh_order := butlast (lh_order l),
                    lh_byRef := (lh_byRef l)(last (lh_order l) := None)\<rparr>
             else l)"

definition sharedLocked :: "config \<Rightarrow> string \<Rightarrow> report list \<Rightarrow> bool" where
  "sharedLocked c model reports \<longleftrightarrow>
     (case c_LocalKVShare c of
        None \<Rightarrow> False
      | Some f \<Rightarrow> (case f model of None \<Rightarrow> False | Some (g, _) \<Rightarrow> g \<noteq> '''')) \<or>
     list_ex (\<lambda>rep. case report_Model rep model of None \<Rightarrow> False | Some mc \<Rightarrow> mc_KVShareGroup mc \<noteq> '''') reports"

definition noteSessionLocked :: "config \<Rightarrow> request \<Rightarrow> lease option \<Rightarrow> report list \<Rightarrow> router \<Rightarrow> router" where
  "noteSessionLocked c req l reports r =
     (case l of
        None \<Rightarrow> r
      | Some l \<Rightarrow>
          if q_SessionKey req = 0 \<or> q_Forwarded req \<or> \<not> sharedLocked c (q_Model req) reports then r
          else
            let node = (if t_Local (l_target l) then c_Self c else t_Node (l_target l))
            in r\<lparr>rt_lastHosts := lastHosts_set (rt_lastHosts r) (q_Model req, q_SessionKey req) node\<rparr>)"

record warmPair =
  wp_last :: string
  wp_replica :: string
  wp_importMsPer1k :: rat
  wp_ok :: bool

definition no_warmPair :: warmPair where
  "no_warmPair = \<lparr>wp_last = '''', wp_replica = '''', wp_importMsPer1k = 0, wp_ok = False\<rparr>"

text \<open>The members of the model's \<open>kv_share\<close> groups: name, group and measured import cost.\<close>

definition warm_members ::
    "config \<Rightarrow> request \<Rightarrow> bool \<Rightarrow> report list \<Rightarrow> gotime \<Rightarrow> (string \<times> string \<times> int) list" where
  "warm_members c req localHealthy reports now =
     fold (\<lambda>rep members.
        if r_Node rep = c_Self c \<or> \<not> Fresh rep now (c_StaleAfter c) then members
        else case report_Model rep (q_Model req) of
               None \<Rightarrow> members
             | Some mc \<Rightarrow>
                 if mc_HealthyBackends mc > 0 \<and> mc_KVShareGroup mc \<noteq> ''''
                 then AList.update (r_Node rep) (mc_KVShareGroup mc, mc_KVShareImportMsPer1k mc) members
                 else members)
       reports
       (case c_LocalKVShare c of
          None \<Rightarrow> []
        | Some f \<Rightarrow>
            if \<not> localHealthy then []
            else (case f (q_Model req) of
                    None \<Rightarrow> []
                  | Some (g, imp) \<Rightarrow> if g \<noteq> '''' then [(c_Self c, g, imp)] else []))"

definition first_other :: "string \<Rightarrow> string list \<Rightarrow> string" where
  "first_other x ns = (case filter (\<lambda>n. n \<noteq> x) ns of [] \<Rightarrow> '''' | n # _ \<Rightarrow> n)"

definition warmLocked ::
    "config \<Rightarrow> request \<Rightarrow> bool \<Rightarrow> report list \<Rightarrow> gotime \<Rightarrow> router \<Rightarrow> warmPair" where
  "warmLocked c req localHealthy reports now r =
     (if q_SessionKey req = 0 \<or> q_Forwarded req then no_warmPair
      else case lastHosts_get (rt_lastHosts r) (q_Model req, q_SessionKey req) of
        None \<Rightarrow> no_warmPair
      | Some last_host \<Rightarrow>
          let members = warm_members c req localHealthy reports now
          in case map_of members last_host of
               None \<Rightarrow> no_warmPair
             | Some (homeGroup, _) \<Rightarrow>
                 let mates = filter (\<lambda>(name, g, cost). g = homeGroup) members;
                     costs = map (\<lambda>(name, g, cost). of_int cost) (filter (\<lambda>(name, g, cost). cost > 0) mates);
                     replica = first_other last_host (SessionRank (q_SessionKey req) (map fst mates));
                     own = (case map_of members replica of None \<Rightarrow> 0 | Some (_, cost) \<Rightarrow> cost)
                 in \<lparr>wp_last = last_host, wp_replica = replica,
                     wp_importMsPer1k =
                       (if replica \<noteq> '''' \<and> own > 0 then of_int own
                        else if costs \<noteq> [] then median costs
                        else defaultImportMsPer1k),
                     wp_ok = True\<rparr>)"

definition warm_pred :: "warmPair \<Rightarrow> string \<Rightarrow> rat \<Rightarrow> rat \<Rightarrow> rat \<Rightarrow> rat \<Rightarrow> rat" where
  "warm_pred w name ov estK rttMs cold =
     (if \<not> wp_ok w then cold
      else if name = wp_last w then min cold (max (ov + rttMs) 1)
      else if name = wp_replica w then min cold (max (ov + wp_importMsPer1k w * estK + rttMs) 1)
      else cold)"

section \<open>Sessions without a score\<close>

text \<open>The first report of a node decides whether it is taken; later ones are not read.\<close>

definition try_peer :: "config \<Rightarrow> request \<Rightarrow> report list \<Rightarrow> gotime \<Rightarrow> string \<Rightarrow> router \<Rightarrow> lease option \<times> router" where
  "try_peer c req reports now name r =
     (case find (\<lambda>rep. r_Node rep = name) reports of
        None \<Rightarrow> (None, r)
      | Some rep \<Rightarrow>
          (case peerFreeLocked c req rep now r of ((mc, free, serves), r) \<Rightarrow>
             if serves \<and> free > 0
             then (case peerLeaseLocked rep (q_Model req) now r of (l, r) \<Rightarrow> (Some l, r))
             else (None, r)))"

fun pick_warm :: "config \<Rightarrow> request \<Rightarrow> nat list \<Rightarrow> bool \<Rightarrow> report list \<Rightarrow> gotime \<Rightarrow> string list \<Rightarrow> router \<Rightarrow>
    lease option \<times> router" where
  "pick_warm c req backends localEligible reports now [] r = (None, r)"
| "pick_warm c req backends localEligible reports now (name # names) r =
     (if name = '''' then pick_warm c req backends localEligible reports now names r
      else if name = c_Self c then
        (if localEligible \<and> localHasFree c req now r backends then pickLocalLocked c req backends now r
         else pick_warm c req backends localEligible reports now names r)
      else
        (case try_peer c req reports now name r of
           (Some l, r) \<Rightarrow> (Some l, r)
         | (None, r) \<Rightarrow> pick_warm c req backends localEligible reports now names r))"

text \<open>The rendezvous scan: \<open>Inl ()\<close> is this node, \<open>Inr rep\<close> a peer.\<close>

fun session_scan :: "64 word \<Rightarrow> peer_answer list \<Rightarrow> ((unit + report) \<times> 64 word) option \<Rightarrow>
    ((unit + report) \<times> 64 word) option" where
  "session_scan key [] best = best"
| "session_scan key ((rep, mc, free, serves) # as) best =
     (if \<not> serves \<or> free \<le> 0 then session_scan key as best
      else
        let h = rendezvous key (r_Node rep)
        in session_scan key as
             (case best of
                None \<Rightarrow> Some (Inr rep, h)
              | Some (x, hi) \<Rightarrow> if h > hi then Some (Inr rep, h) else Some (x, hi)))"

definition pickSessionLocked :: "config \<Rightarrow> request \<Rightarrow> nat list \<Rightarrow> bool \<Rightarrow> report list \<Rightarrow> gotime \<Rightarrow> router \<Rightarrow>
    lease option \<times> router" where
  "pickSessionLocked c req backends localEligible reports now r =
     (let w = warmLocked c req (anyHealthy r backends) reports now r
      in case (if wp_ok w
               then pick_warm c req backends localEligible reports now [wp_last w, wp_replica w] r
               else (None, r)) of
           (Some l, r) \<Rightarrow> (Some l, r)
         | (None, r) \<Rightarrow>
             let start = (if localEligible \<and> localHasFree c req now r backends
                          then Some (Inl (), rendezvous (q_SessionKey req) (c_Self c)) else None)
             in case peer_answers c req reports now r of (as, r) \<Rightarrow>
                  case session_scan (q_SessionKey req) as start of
                    None \<Rightarrow> (None, r)
                  | Some (Inl _, _) \<Rightarrow> pickLocalLocked c req backends now r
                  | Some (Inr rep, _) \<Rightarrow>
                      (case peerLeaseLocked rep (q_Model req) now r of (l, r) \<Rightarrow> (Some l, r)))"

section \<open>The preference list\<close>

fun pickPreferredLocked :: "config \<Rightarrow> request \<Rightarrow> nat list \<Rightarrow> bool \<Rightarrow> report list \<Rightarrow> gotime \<Rightarrow> string list \<Rightarrow>
    router \<Rightarrow> lease option \<times> router" where
  "pickPreferredLocked c req backends localEligible reports now [] r = (None, r)"
| "pickPreferredLocked c req backends localEligible reports now (name # names) r =
     (if name = c_Self c then
        (case (if localEligible then pickLocalLocked c req backends now r else (None, r)) of
           (Some l, r) \<Rightarrow> (Some l, r)
         | (None, r) \<Rightarrow> pickPreferredLocked c req backends localEligible reports now names r)
      else
        (case find (\<lambda>rep. r_Node rep = name) reports of
           None \<Rightarrow> pickPreferredLocked c req backends localEligible reports now names r
         | Some rep \<Rightarrow>
             (case peerFreeLocked c req rep now r of ((mc, free, serves), r) \<Rightarrow>
                if free > 0
                then (case peerLeaseLocked rep (q_Model req) now r of (l, r) \<Rightarrow> (Some l, r))
                else pickPreferredLocked c req backends localEligible reports now names r)))"

section \<open>The scored choice\<close>

definition trickleShare :: rat where
  "trickleShare = 1 / 20"

definition maxScored :: nat where
  "maxScored = 32"

definition stickyBand :: rat where
  "stickyBand = 5 / 4"

record scoredCand =
  sc_local :: bool
  sc_rep :: report
  sc_ov :: rat
  sc_rate :: rat
  sc_scored :: bool
  sc_rttMs :: rat

definition zero_report :: report where
  "zero_report = \<lparr>r_Node = '''', r_APIAddr = '''', r_Received = zero_time, r_Sent = zero_time,
     r_RTT = 0, r_Models = []\<rparr>"

definition router_rand :: "router \<Rightarrow> rat \<times> router" where
  "router_rand r = (rt_rand r (rt_rpos r), r\<lparr>rt_rpos := rt_rpos r + 1\<rparr>)"

definition cand_name :: "config \<Rightarrow> scoredCand \<Rightarrow> string" where
  "cand_name c x = (if sc_local x then c_Self c else r_Node (sc_rep x))"

text \<open>The loop over the peers' answers: candidates with a free slot, and the pool of measurements, both
  bounded by \<open>maxScored\<close>.\<close>

fun scored_scan :: "peer_answer list \<Rightarrow> scoredCand list \<times> (rat \<times> rat) list \<Rightarrow>
    scoredCand list \<times> (rat \<times> rat) list" where
  "scored_scan [] acc = acc"
| "scored_scan ((rep, mc, free, serves) # as) (cands, pool) =
     (if \<not> serves then scored_scan as (cands, pool)
      else
        let scored = (mc_PrefillMsPer1k mc > 0 \<and> mc_TTFTOverheadMs mc \<ge> 0);
            ov = of_int (mc_TTFTOverheadMs mc);
            rate = of_int (mc_PrefillMsPer1k mc);
            pool = (if scored \<and> length pool < maxScored then pool @ [(ov, rate)] else pool);
            cands = (if free \<le> 0 \<or> length cands = maxScored then cands
                     else cands @ [\<lparr>sc_local = False, sc_rep = rep, sc_ov = ov, sc_rate = rate,
                       sc_scored = scored, sc_rttMs = of_int (r_RTT rep) / of_int millisecond\<rparr>])
        in scored_scan as (cands, pool))"

definition cand_pred :: "config \<Rightarrow> request \<Rightarrow> warmPair \<Rightarrow> rat \<Rightarrow> rat \<Rightarrow> scoredCand \<Rightarrow> rat" where
  "cand_pred c req warm medOv medRate x =
     (let ov = (if sc_scored x then sc_ov x else medOv);
          rate = (if sc_scored x then sc_rate x else medRate)
      in warm_pred warm (cand_name c x) ov (q_EstK req) (sc_rttMs x)
           (max (ov + rate * q_EstK req + sc_rttMs x) 1))"

fun least_pred :: "rat list \<Rightarrow> rat \<Rightarrow> rat" where
  "least_pred [] best = best"
| "least_pred (p # ps) best = least_pred ps (if p < best then p else best)"

text \<open>The weighted draw: the last candidate with a weight catches what rounding leaves over.\<close>

fun draw :: "nat \<Rightarrow> rat list \<Rightarrow> rat \<Rightarrow> nat option \<Rightarrow> nat option" where
  "draw i [] x pick = pick"
| "draw i (w # ws) x pick =
     (if w = 0 then draw (Suc i) ws x pick
      else if x < w then Some i
      else draw (Suc i) ws (x - w) (Some i))"

text \<open>The index of the candidate to use; \<open>None\<close> would be an index of -1. First the choice within the band,
  then the whole choice with the trickle.\<close>

definition band_choice :: "config \<Rightarrow> request \<Rightarrow> scoredCand list \<Rightarrow> rat list \<Rightarrow> router \<Rightarrow> nat option \<times> router" where
  "band_choice c req cands preds r =
     (let best = least_pred (tl preds) (hd preds);
          limit = best * stickyBand
      in if q_SessionKey req \<noteq> 0 then
           (first_max (\<lambda>i. rendezvous (q_SessionKey req) (cand_name c (cands ! i)))
              (filter (\<lambda>i. \<not> preds ! i > limit) [0..<length cands]), r)
         else if sc_local (hd cands) \<and> hd preds \<le> limit then (Some 0, r)
         else
           let ws = map (\<lambda>p. if p \<le> limit then 1 / (p * p * p) else 0) preds
           in (case router_rand r of (y, r) \<Rightarrow> (draw 0 ws (y * sum_list ws) None, r)))"

definition scored_choice :: "config \<Rightarrow> request \<Rightarrow> scoredCand list \<Rightarrow> (rat \<times> rat) list \<Rightarrow> warmPair \<Rightarrow> router \<Rightarrow>
    nat option \<times> router" where
  "scored_choice c req cands pool warm r =
     (let medOv = median (map fst pool);
          medRate = median (map snd pool);
          learning = filter (\<lambda>i. \<not> sc_scored (cands ! i)) [0..<length cands];
          nl = length learning;
          warmCand = list_ex (\<lambda>x. wp_ok warm \<and>
            (cand_name c x = wp_last warm \<or> cand_name c x = wp_replica warm)) cands;
          (x, r) = (if nl > 0 \<and> \<not> warmCand then router_rand r else (1, r))
      in if x < trickleShare then
           (case router_rand r of (y, r) \<Rightarrow>
              (Some (learning ! min (nat \<lfloor>y * of_nat nl\<rfloor>) (nl - 1)), r))
         else band_choice c req cands (map (cand_pred c req warm medOv medRate) cands) r)"

definition pickScoredLocked :: "config \<Rightarrow> request \<Rightarrow> nat list \<Rightarrow> bool \<Rightarrow> report list \<Rightarrow> gotime \<Rightarrow> router \<Rightarrow>
    (lease option \<times> bool) \<times> router" where
  "pickScoredLocked c req backends localEligible reports now r =
     (let pool = (case c_LocalScore c of
                    None \<Rightarrow> []
                  | Some f \<Rightarrow> (case f (q_Model req) of
                                None \<Rightarrow> []
                              | Some (ov, rate) \<Rightarrow> [(of_int ov, of_int rate)]));
          cands = (if localEligible \<and> localHasFree c req now r backends
                   then [\<lparr>sc_local = True, sc_rep = zero_report,
                          sc_ov = (if pool \<noteq> [] then fst (hd pool) else 0),
                          sc_rate = (if pool \<noteq> [] then snd (hd pool) else 0),
                          sc_scored = (pool \<noteq> []), sc_rttMs = 0\<rparr>]
                   else [])
      in case peer_answers c req reports now r of (as, r) \<Rightarrow>
         case scored_scan as (cands, pool) of (cands, pool) \<Rightarrow>
           if pool = [] \<or> cands = [] then ((None, False), r)
           else
             let warm = warmLocked c req (anyHealthy r backends) reports now r
             in case scored_choice c req cands pool warm r of
                  (None, r) \<Rightarrow> ((None, True), r)
                | (Some i, r) \<Rightarrow>
                    if sc_local (cands ! i)
                    then (case pickLocalLocked c req backends now r of (l, r) \<Rightarrow> ((l, True), r))
                    else (case peerLeaseLocked (sc_rep (cands ! i)) (q_Model req) now r of
                            (l, r) \<Rightarrow> ((Some l, True), r)))"

section \<open>Picking\<close>

definition exists_remote :: "config \<Rightarrow> request \<Rightarrow> report list \<Rightarrow> bool" where
  "exists_remote c req reports \<longleftrightarrow>
     list_ex (\<lambda>rep. r_Node rep \<noteq> c_Self c \<and> report_Model rep (q_Model req) \<noteq> None) reports"

definition pin_listed :: "config \<Rightarrow> request \<Rightarrow> report list \<Rightarrow> bool" where
  "pin_listed c req reports \<longleftrightarrow>
     list_ex (\<lambda>rep. r_Node rep \<noteq> c_Self c \<and> report_Model rep (q_Model req) \<noteq> None \<and>
       r_Node rep = q_Host req) reports"

text \<open>The guards of a pick, up to the image filter: the request with its image class set, the local
  backends, and whether this node may be used.\<close>

definition pick_guards :: "config \<Rightarrow> request \<Rightarrow> report list \<Rightarrow> gotime \<Rightarrow> router \<Rightarrow>
    route_error + request \<times> nat list \<times> bool" where
  "pick_guards c req reports now r =
     (let (backends, admitting, localOK) =
            (case rt_models r (q_Model req) of None \<Rightarrow> ([], False, False) | Some (bs, adm) \<Rightarrow> (bs, adm, True))
      in if \<not> localOK \<and> \<not> exists_remote c req reports then Inl ErrModelNotFound
         else if q_Host req \<noteq> '''' \<and>
           (if q_Host req = c_Self c then \<not> localOK else \<not> pin_listed c req reports)
           then Inl ErrHostNotServing
         else
           let localElig = (localOK \<and> admitting)
           in if q_Images req \<and> \<not> q_Forwarded req then
                (case imageClassLocked c req (localOK \<and> anyHealthy r backends) reports now of
                   Inl err \<Rightarrow> Inl err
                 | Inr want \<Rightarrow>
                     Inr (req\<lparr>q_imgWant := want\<rparr>, backends,
                          localElig \<and> localImageClass c (q_Model req) = want))
              else Inr (req, backends, localElig))"

definition slot_result :: "lease option \<times> router \<Rightarrow> (route_error + lease) \<times> router" where
  "slot_result x = (case x of (Some l, r) \<Rightarrow> (Inr l, r) | (None, r) \<Rightarrow> (Inl ErrNoFreeSlot, r))"

text \<open>Local first, then the peers.\<close>

definition pick_plain :: "config \<Rightarrow> request \<Rightarrow> nat list \<Rightarrow> bool \<Rightarrow> report list \<Rightarrow> gotime \<Rightarrow> router \<Rightarrow>
    lease option \<times> router" where
  "pick_plain c req backends localElig reports now r =
     (case (if localElig \<and> (q_Host req = '''' \<or> q_Host req = c_Self c)
            then pickLocalLocked c req backends now r else (None, r)) of
        (Some l, r) \<Rightarrow> (Some l, r)
      | (None, r) \<Rightarrow>
          if \<not> q_Forwarded req \<and> q_Host req \<noteq> c_Self c then pickPeerLocked c req reports now r
          else (None, r))"

definition pick_hosts :: "config \<Rightarrow> request \<Rightarrow> nat list \<Rightarrow> bool \<Rightarrow> report list \<Rightarrow> gotime \<Rightarrow> router \<Rightarrow>
    (route_error + lease) \<times> router" where
  "pick_hosts c req backends localElig reports now r =
     (case (if q_Prefer req \<noteq> [] \<and> \<not> q_Forwarded req \<and> q_Host req = ''''
            then pickPreferredLocked c req backends localElig reports now (q_Prefer req) r
            else (None, r)) of
        (Some l, r) \<Rightarrow> (Inr l, r)
      | (None, r) \<Rightarrow>
          if c_Performance c \<and> \<not> q_Forwarded req \<and> q_Host req = '''' then
            (case pickScoredLocked c req backends localElig reports now r of
               ((Some l, True), r) \<Rightarrow> (Inr l, r)
             | ((None, True), r) \<Rightarrow> (Inl ErrNoFreeSlot, r)
             | ((_, False), r) \<Rightarrow>
                 (case (if q_SessionKey req \<noteq> 0
                        then pickSessionLocked c req backends localElig reports now r
                        else (None, r)) of
                    (Some l, r) \<Rightarrow> (Inr l, r)
                  | (None, r) \<Rightarrow> slot_result (pick_plain c req backends localElig reports now r)))
          else slot_result (pick_plain c req backends localElig reports now r))"

definition pickWithReportsLocked :: "config \<Rightarrow> request \<Rightarrow> report list \<Rightarrow> gotime \<Rightarrow> router \<Rightarrow>
    (route_error + lease) \<times> router" where
  "pickWithReportsLocked c req reports now r =
     (case (case pick_guards c req reports now r of
              Inl err \<Rightarrow> (Inl err, r)
            | Inr (req', backends, localElig) \<Rightarrow> pick_hosts c req' backends localElig reports now r) of
        (res, r) \<Rightarrow>
          (res, noteSessionLocked c req (case res of Inl _ \<Rightarrow> None | Inr l \<Rightarrow> Some l) reports r))"

definition pickLocked :: "config \<Rightarrow> request \<Rightarrow> report list \<Rightarrow> gotime \<Rightarrow> router \<Rightarrow> (route_error + lease) \<times> router" where
  "pickLocked c req remote now r =
     pickWithReportsLocked c req (if \<not> q_Forwarded req then remote else []) now r"

definition Pick :: "config \<Rightarrow> request \<Rightarrow> report list \<Rightarrow> gotime \<Rightarrow> router \<Rightarrow> (route_error + lease) \<times> router" where
  "Pick c req remote now r = pickLocked c req remote now r"

definition Refused :: "lease \<Rightarrow> gotime \<Rightarrow> router \<Rightarrow> router" where
  "Refused l now r =
     (if l_backend l \<noteq> None then r else r\<lparr>rt_refused := (rt_refused r)(l_key l \<mapsto> now)\<rparr>)"

text \<open>The part of \<open>Lease.Release\<close> before it wakes the queue: it gives the slot back, once. \<open>None\<close> is the
  panic of an unpaired release on the backend.\<close>

definition release_slot :: "lease \<Rightarrow> router \<Rightarrow> router option" where
  "release_slot l r =
     (if l_id l \<in> rt_released r then Some r
      else
        let r = r\<lparr>rt_released := insert (l_id l) (rt_released r)\<rparr>
        in case l_backend l of
             Some b \<Rightarrow>
               map_option (\<lambda>x. r\<lparr>rt_store := (rt_store r)(b := x)\<rparr>) (Release (rt_store r b))
           | None \<Rightarrow> Some (dropReservationLocked (l_key l) (l_res l) r))"

end
