(* ===== verification/RouterStages.thy ===== *)
theory RouterStages
  imports Router
begin

text \<open>
  The stages of a pick. Every stage of a pick (preference list, scored choice, session
  rendezvous, local, most-free peer) either grants a slot that was free, or leaves the router as it was up
  to lifted refusals and round-robin counters; the stages compose, so a pick grants a free slot exactly
  when there is one.
\<close>

section \<open>States between the stages of a pick\<close>

definition lifted :: "report list \<Rightarrow> string \<Rightarrow> router \<Rightarrow> router \<Rightarrow> bool" where
  "lifted reports model r r' \<longleftrightarrow>
     (\<forall>key. rt_refused r' key = rt_refused r key \<or>
        rt_refused r' key = None \<and>
        (\<exists>rep\<in>set reports. key = (r_Node rep, model) \<and> (\<exists>t. rt_refused r key = Some t \<and> AsOf rep > t)))"

definition same_base :: "report list \<Rightarrow> string \<Rightarrow> router \<Rightarrow> router \<Rightarrow> bool" where
  "same_base reports model r r' \<longleftrightarrow>
     rt_models r' = rt_models r \<and> rt_queues r' = rt_queues r \<and> rt_waiters r' = rt_waiters r \<and>
     rt_released r' = rt_released r \<and> rt_lastHosts r' = rt_lastHosts r \<and> lifted reports model r r'"

definition untaken :: "report list \<Rightarrow> string \<Rightarrow> router \<Rightarrow> router \<Rightarrow> bool" where
  "untaken reports model r r' \<longleftrightarrow>
     same_base reports model r r' \<and> rt_store r' = rt_store r \<and>
     rt_reservations r' = rt_reservations r \<and> rt_next r' = rt_next r"

lemma lifted_refl [simp]: "lifted reports model r r"
  by (simp add: lifted_def)

lemma lifted_trans: "lifted reports model r r1 \<Longrightarrow> lifted reports model r1 r2 \<Longrightarrow> lifted reports model r r2"
  unfolding lifted_def by (metis option.distinct(1))

lemma lifted_cong:
  "rt_refused r' = rt_refused r1 \<Longrightarrow> lifted reports model r r' \<longleftrightarrow> lifted reports model r r1"
  by (simp add: lifted_def)

lemma same_base_trans:
  "same_base reports model r r1 \<Longrightarrow> same_base reports model r1 r2 \<Longrightarrow> same_base reports model r r2"
  by (auto simp: same_base_def intro: lifted_trans)

lemma untaken_refl [simp]: "untaken reports model r r"
  by (simp add: untaken_def same_base_def)

lemma untaken_trans: "untaken reports model r r1 \<Longrightarrow> untaken reports model r1 r2 \<Longrightarrow> untaken reports model r r2"
  by (auto simp: untaken_def intro: same_base_trans)

section \<open>Peers\<close>

definition peer_info :: "config \<Rightarrow> request \<Rightarrow> report \<Rightarrow> gotime \<Rightarrow> router \<Rightarrow> ModelCapacity \<times> int \<times> bool" where
  "peer_info c req rep now r = fst (peerFreeLocked c req rep now r)"

definition peer_room :: "config \<Rightarrow> request \<Rightarrow> gotime \<Rightarrow> router \<Rightarrow> report \<Rightarrow> bool" where
  "peer_room c req now r rep \<longleftrightarrow> fst (snd (peer_info c req rep now r)) > 0"

lemma peer_room_iff:
  "peer_room c req now r rep \<longleftrightarrow>
     r_Node rep \<noteq> c_Self c \<and> Fresh rep now (c_StaleAfter c) \<and>
     (\<exists>mc. report_Model rep (q_Model req) = Some mc \<and> mc_HealthyBackends mc > 0 \<and>
       (q_Host req = '''' \<or> r_Node rep = q_Host req) \<and> ''peer:'' @ r_Node rep \<notin> q_Exclude req \<and>
       (q_imgWant req = imgAny \<or> classOf (mc_Images mc) = q_imgWant req) \<and>
       (\<forall>t. rt_refused r (r_Node rep, q_Model req) = Some t \<longrightarrow> AsOf rep > t) \<and>
       mc_Slots mc - mc_Busy mc - reservedLocked r (r_Node rep, q_Model req) (AsOf rep) > 0)"
  by (auto simp: peer_room_def peer_info_def peerFreeLocked_def Let_def split: option.split)

lemma peer_info_serves:
  "snd (snd (peer_info c req rep now r)) \<and> fst (snd (peer_info c req rep now r)) > 0 \<longleftrightarrow>
   peer_room c req now r rep"
  by (auto simp: peer_room_def peer_info_def peerFreeLocked_def Let_def split: option.split)

lemma peerFree_untaken:
  "rep \<in> set reports \<Longrightarrow> untaken reports (q_Model req) r (snd (peerFreeLocked c req rep now r))"
  by (auto simp: peerFreeLocked_def Let_def untaken_def same_base_def lifted_def split: option.split)

lemma peer_info_untaken:
  assumes "untaken reports (q_Model req) r r'" and "rep \<in> set reports" and "distinct (map r_Node reports)"
  shows "peer_info c req rep now r' = peer_info c req rep now r"
proof -
  let ?key = "(r_Node rep, q_Model req)"
  have same: "rep' = rep" if "rep' \<in> set reports" "r_Node rep' = r_Node rep" for rep'
    using assms(2,3) that by (auto simp: distinct_map inj_on_def)
  have "rt_refused r' ?key = rt_refused r ?key \<or>
      rt_refused r' ?key = None \<and> (\<exists>t. rt_refused r ?key = Some t \<and> AsOf rep > t)"
    using assms(1) same unfolding untaken_def same_base_def lifted_def by (metis prod.inject)
  moreover have "reservedLocked r' k t = reservedLocked r k t" for k t
    using assms(1) by (simp add: untaken_def reservedLocked_def)
  ultimately show ?thesis
    unfolding peer_info_def peerFreeLocked_def Let_def by (auto split: option.split)
qed

lemma peer_room_untaken:
  "untaken reports (q_Model req) r r' \<Longrightarrow> rep \<in> set reports \<Longrightarrow> distinct (map r_Node reports) \<Longrightarrow>
   peer_room c req now r' rep \<longleftrightarrow> peer_room c req now r rep"
  by (simp add: peer_room_def peer_info_untaken)

lemma peer_answers_pure:
  assumes "set reps \<subseteq> set reports" and "distinct (map r_Node reports)"
  shows "fst (peer_answers c req reps now r) = map (\<lambda>rep. (rep, peer_info c req rep now r)) reps \<and>
    untaken reports (q_Model req) r (snd (peer_answers c req reps now r))"
  using assms(1)
proof (induction reps arbitrary: r)
  case (Cons rep reps)
  obtain a r1 where a: "peerFreeLocked c req rep now r = (a, r1)" by fastforce
  obtain as r2 where as: "peer_answers c req reps now r1 = (as, r2)" by fastforce
  have u: "untaken reports (q_Model req) r r1"
    using peerFree_untaken [of rep reports req r c now] Cons.prems a by simp
  have "as = map (\<lambda>rep. (rep, peer_info c req rep now r1)) reps" "untaken reports (q_Model req) r1 r2"
    using Cons.IH [of r1] Cons.prems as by auto
  moreover have "map (\<lambda>rep. (rep, peer_info c req rep now r1)) reps =
      map (\<lambda>rep. (rep, peer_info c req rep now r)) reps"
    using Cons.prems peer_info_untaken [OF u _ assms(2)] by (intro map_cong) auto
  moreover have "a = peer_info c req rep now r"
    using a by (simp add: peer_info_def)
  ultimately show ?case
    using a as untaken_trans [OF u] by simp
qed simp

section \<open>Grants\<close>

definition local_grant :: "config \<Rightarrow> request \<Rightarrow> nat list \<Rightarrow> report list \<Rightarrow> gotime \<Rightarrow> router \<Rightarrow> lease \<Rightarrow> router \<Rightarrow> bool" where
  "local_grant c req backends reports now r l r' \<longleftrightarrow>
     same_base reports (q_Model req) r r' \<and>
     (\<exists>b\<in>set backends. local_usable req r b \<and> local_free c now r b > 0 \<and>
        l_id l = rt_next r \<and> rt_next r' = rt_next r + 1 \<and> l_backend l = Some b \<and>
        l_target l = \<lparr>t_Local = True, t_Node = c_Self c, t_BackendID = b_id (rt_store r b),
                      t_Addr = Addr (rt_store r b)\<rparr> \<and>
        rt_store r' = (rt_store r)(b := Acquire (rt_store r b)) \<and>
        rt_reservations r' = rt_reservations r)"

definition peer_grant :: "config \<Rightarrow> request \<Rightarrow> report list \<Rightarrow> gotime \<Rightarrow> router \<Rightarrow> lease \<Rightarrow> router \<Rightarrow> bool" where
  "peer_grant c req reports now r l r' \<longleftrightarrow>
     same_base reports (q_Model req) r r' \<and>
     (\<exists>rep\<in>set reports. peer_room c req now r rep \<and>
        l_id l = rt_next r + 1 \<and> rt_next r' = rt_next r + 2 \<and> l_backend l = None \<and>
        l_key l = (r_Node rep, q_Model req) \<and> l_res l = rt_next r \<and>
        l_target l = \<lparr>t_Local = False, t_Node = r_Node rep, t_BackendID = '''', t_Addr = r_APIAddr rep\<rparr> \<and>
        rt_store r' = rt_store r \<and>
        rt_reservations r' = (rt_reservations r)(l_key l :=
          rt_reservations r (l_key l) @ [\<lparr>rs_id = rt_next r, rs_start = now\<rparr>]))"

definition picker_ok :: "config \<Rightarrow> request \<Rightarrow> nat list \<Rightarrow> bool \<Rightarrow> report list \<Rightarrow> gotime \<Rightarrow> router \<Rightarrow>
    lease option \<times> router \<Rightarrow> bool" where
  "picker_ok c req backends elig reports now r res \<longleftrightarrow>
     (case res of
        (None, r') \<Rightarrow> untaken reports (q_Model req) r r'
      | (Some l, r') \<Rightarrow>
          elig \<and> local_grant c req backends reports now r l r' \<or> peer_grant c req reports now r l r')"

lemma local_grant_untaken:
  "untaken reports (q_Model req) r r1 \<Longrightarrow> local_grant c req backends reports now r1 l r' \<Longrightarrow>
   local_grant c req backends reports now r l r'"
  unfolding local_grant_def untaken_def local_usable_def local_free_def by (auto intro: same_base_trans)

lemma peer_grant_untaken:
  assumes "untaken reports (q_Model req) r r1" and "peer_grant c req reports now r1 l r'"
    and "distinct (map r_Node reports)"
  shows "peer_grant c req reports now r l r'"
proof -
  have "same_base reports (q_Model req) r r'"
    using assms(1,2) by (auto simp: peer_grant_def untaken_def intro: same_base_trans)
  moreover have "rt_next r1 = rt_next r" "rt_store r1 = rt_store r" "rt_reservations r1 = rt_reservations r"
    using assms(1) by (simp_all add: untaken_def)
  ultimately show ?thesis
    using assms(2) peer_room_untaken [OF assms(1) _ assms(3)] unfolding peer_grant_def by metis
qed

lemma picker_ok_untaken:
  assumes "untaken reports (q_Model req) r r1" and "picker_ok c req backends elig reports now r1 res"
    and "distinct (map r_Node reports)"
  shows "picker_ok c req backends elig reports now r res"
  using assms local_grant_untaken [OF assms(1)] peer_grant_untaken [OF assms(1) _ assms(3)]
  by (auto simp: picker_ok_def split: option.splits intro: untaken_trans)

text \<open>Trying one stage and, if it grants nothing, another.\<close>

lemma picker_orelse:
  assumes "picker_ok c req backends elig reports now r p"
    and "\<And>r1. p = (None, r1) \<Longrightarrow> untaken reports (q_Model req) r r1 \<Longrightarrow>
      picker_ok c req backends elig reports now r1 (q r1)"
    and "distinct (map r_Node reports)"
  shows "picker_ok c req backends elig reports now r
    (case p of (Some l, r') \<Rightarrow> (Some l, r') | (None, r') \<Rightarrow> q r')"
proof (cases p)
  case (Pair x r1)
  show ?thesis
  proof (cases x)
    case None
    then have "untaken reports (q_Model req) r r1"
      using assms(1) Pair by (simp add: picker_ok_def)
    with None Pair assms(2,3) picker_ok_untaken show ?thesis by fastforce
  qed (use assms(1) Pair in simp)
qed

section \<open>The local stage\<close>

abbreviation open_backends :: "config \<Rightarrow> request \<Rightarrow> gotime \<Rightarrow> router \<Rightarrow> nat list \<Rightarrow> nat list" where
  "open_backends c req now r bs \<equiv> filter (\<lambda>b. local_usable req r b \<and> local_free c now r b > 0) bs"

abbreviation home_weight :: "request \<Rightarrow> router \<Rightarrow> nat \<Rightarrow> 64 word" where
  "home_weight req r b \<equiv> rendezvous (q_SessionKey req) (b_id (rt_store r b))"

definition local_step :: "config \<Rightarrow> request \<Rightarrow> gotime \<Rightarrow> router \<Rightarrow> nat \<Rightarrow>
    nat list \<times> int \<times> (nat \<times> 64 word) option \<Rightarrow> nat list \<times> int \<times> (nat \<times> 64 word) option" where
  "local_step c req now r b acc = pickLocal_scan c req now r [b] acc"

lemma pickLocal_scan_fold: "pickLocal_scan c req now r bs acc = fold (local_step c req now r) bs acc"
proof (induction bs arbitrary: acc)
  case (Cons b bs)
  obtain tied best home where acc: "acc = (tied, best, home)" by (cases acc)
  have "pickLocal_scan c req now r (b # bs) acc = pickLocal_scan c req now r bs (local_step c req now r b acc)"
    by (simp add: acc local_step_def Let_def)
  then show ?case using Cons.IH by simp
qed simp

definition scan_inv :: "(nat \<Rightarrow> int) \<Rightarrow> (nat \<Rightarrow> 64 word) \<Rightarrow> bool \<Rightarrow> nat list \<Rightarrow>
    nat list \<times> int \<times> (nat \<times> 64 word) option \<Rightarrow> bool" where
  "scan_inv free w session os acc \<longleftrightarrow>
     (case acc of (tied, best, home) \<Rightarrow>
        (tied = [] \<longleftrightarrow> os = []) \<and> 0 \<le> best \<and> (tied = [] \<longrightarrow> best = 0) \<and>
        set tied = {b \<in> set os. free b = best} \<and> (\<forall>b\<in>set os. free b \<le> best) \<and>
        home = (if session then map_option (\<lambda>b. (b, w b)) (first_max w os) else None))"

lemma local_step_ok:
  assumes inv: "scan_inv (local_free c now r) (home_weight req r) (q_SessionKey req \<noteq> 0) os acc"
    and opn: "local_usable req r b" "local_free c now r b > 0"
  shows "scan_inv (local_free c now r) (home_weight req r) (q_SessionKey req \<noteq> 0) (os @ [b])
    (local_step c req now r b acc)"
proof -
  obtain tied best home where acc: "acc = (tied, best, home)" by (cases acc)
  let ?free = "local_free c now r"
  have tied: "tied = [] \<longleftrightarrow> os = []" "0 \<le> best" "tied = [] \<longrightarrow> best = 0"
    "set tied = {b \<in> set os. ?free b = best}" "\<forall>b\<in>set os. ?free b \<le> best"
    and home: "home = (if q_SessionKey req \<noteq> 0
      then map_option (\<lambda>b. (b, home_weight req r b)) (first_max (home_weight req r) os) else None)"
    using inv unfolding scan_inv_def acc by simp_all
  define home' where "home' = (if q_SessionKey req \<noteq> 0
    then map_option (\<lambda>b. (b, home_weight req r b)) (first_max (home_weight req r) (os @ [b])) else None)"
  have step: "local_step c req now r b acc =
      (if ?free b < best then (tied, best, home')
       else if ?free b > best then ([b], ?free b, home') else (tied @ [b], best, home'))"
    using opn by (auto simp: local_step_def acc home home'_def Let_def split: option.split)
  consider "?free b < best" | "?free b > best" | "?free b = best" by linarith
  then show ?thesis
  proof cases
    case 1
    then have "tied \<noteq> []" using opn tied(3) by auto
    then show ?thesis
      using 1 tied unfolding scan_inv_def step home'_def [symmetric] by auto
  next
    case 2
    then have "\<forall>b'\<in>set os. ?free b' < ?free b"
      using tied(5) by auto
    then show ?thesis
      using 2 opn unfolding scan_inv_def step home'_def [symmetric] by (auto dest: less_imp_le)
  next
    case 3
    then show ?thesis
      using tied opn unfolding scan_inv_def step home'_def [symmetric] by auto
  qed
qed

lemma local_step_skip:
  "\<not> (local_usable req r b \<and> local_free c now r b > 0) \<Longrightarrow> local_step c req now r b acc = acc"
  by (cases acc) (auto simp: local_step_def Let_def)

lemma pickLocal_scan_ok:
  "scan_inv (local_free c now r) (home_weight req r) (q_SessionKey req \<noteq> 0) (open_backends c req now r bs)
     (pickLocal_scan c req now r bs ([], 0, None))"
  unfolding pickLocal_scan_fold
proof (induction bs rule: rev_induct)
  case (snoc b bs)
  show ?case
  proof (cases "local_usable req r b \<and> local_free c now r b > 0")
    case True
    with snoc local_step_ok [OF snoc, of b] show ?thesis by simp
  next
    case False
    with snoc local_step_skip [OF False] show ?thesis by auto
  qed
qed (simp add: scan_inv_def)

lemma localHasFree_iff: "localHasFree c req now r bs \<longleftrightarrow> open_backends c req now r bs \<noteq> []"
  by (auto simp: localHasFree_def list_ex_iff filter_empty_conv)

lemma nat_mod_less: "xs \<noteq> [] \<Longrightarrow> nat (n mod int (length xs)) < length xs"
  by (metis length_greater_0_conv nat_less_iff of_nat_0_less_iff pos_mod_bound pos_mod_sign)

text \<open>The backend the local stage takes: the session's home, or one of the most free.\<close>

lemma pickLocal_result:
  assumes "pickLocalLocked c req backends now r = (res, r')"
  shows "(res = None \<longrightarrow> r' = r \<and> \<not> localHasFree c req now r backends) \<and>
    (\<forall>l. res = Some l \<longrightarrow> (\<exists>b. b \<in> set (open_backends c req now r backends) \<and> l_backend l = Some b \<and>
       local_grant c req backends reports now r l r' \<and>
       (q_SessionKey req \<noteq> 0 \<longrightarrow>
          first_max (home_weight req r) (open_backends c req now r backends) = Some b) \<and>
       (q_SessionKey req = 0 \<longrightarrow>
          (\<forall>b'\<in>set (open_backends c req now r backends). local_free c now r b' \<le> local_free c now r b))))"
proof -
  obtain tied best home where s: "pickLocal_scan c req now r backends ([], 0, None) = (tied, best, home)"
    by (cases "pickLocal_scan c req now r backends ([], 0, None)") auto
  note ok = pickLocal_scan_ok [of c now r req backends, unfolded s scan_inv_def prod.case]
  show ?thesis
  proof (cases "tied = []")
    case True
    then show ?thesis
      using assms s ok by (simp add: pickLocalLocked_def localHasFree_iff)
  next
    case False
    let ?open = "open_backends c req now r backends"
    have "?open \<noteq> []" using ok False by simp
    obtain b f where b: "(case home of Some (b, hi) \<Rightarrow> (b, r)
        | None \<Rightarrow> let n = rt_localRR r (q_Model req) in
            (tied ! nat (n mod int (length tied)), r\<lparr>rt_localRR := (rt_localRR r)(q_Model req := n + 1)\<rparr>)) =
        (b, r\<lparr>rt_localRR := f\<rparr>)"
      and bo: "b \<in> set ?open"
      and key: "q_SessionKey req \<noteq> 0 \<longrightarrow> first_max (home_weight req r) ?open = Some b"
      and nokey: "q_SessionKey req = 0 \<longrightarrow> b \<in> set tied"
    proof (cases "q_SessionKey req = 0")
      case True
      then have "home = None" using ok by simp
      moreover have "tied ! nat (rt_localRR r (q_Model req) mod int (length tied)) \<in> set tied"
        using nat_mod_less [OF False] by (rule nth_mem)
      ultimately show thesis
        using that [of "tied ! nat (rt_localRR r (q_Model req) mod int (length tied))"
            "(rt_localRR r)(q_Model req := rt_localRR r (q_Model req) + 1)"] True ok
        by (simp add: Let_def)
    next
      case key: False
      then obtain b where b: "first_max (home_weight req r) ?open = Some b"
        using \<open>?open \<noteq> []\<close> by (cases "first_max (home_weight req r) ?open") auto
      then have "home = Some (b, home_weight req r b)"
        using ok key by simp
      then show thesis
        using that [of b "rt_localRR r"] key b first_max_greatest [OF b] by simp
    qed
    have res: "res = Some (fst (local_lease c b (r\<lparr>rt_localRR := f\<rparr>)))"
      "r' = snd (local_lease c b (r\<lparr>rt_localRR := f\<rparr>))"
      using assms s b False by (auto simp: pickLocalLocked_def split: prod.splits)
    have grant: "local_grant c req backends reports now r (fst (local_lease c b (r\<lparr>rt_localRR := f\<rparr>)))
        (snd (local_lease c b (r\<lparr>rt_localRR := f\<rparr>)))"
      using bo by (auto simp: local_grant_def local_lease_def same_base_def lifted_def)
    have max: "local_free c now r b' \<le> local_free c now r b" if "b' \<in> set ?open" "q_SessionKey req = 0" for b'
      using ok nokey that by auto
    show ?thesis
      unfolding res using grant bo key max by (auto simp: local_lease_def)
  qed
qed

lemma pickLocal_ok: "elig \<Longrightarrow> picker_ok c req backends elig reports now r (pickLocalLocked c req backends now r)"
  using pickLocal_result [of c req backends now r _ _ reports]
  by (auto simp: picker_ok_def split: prod.split option.split)

lemma pickLocal_None:
  "pickLocalLocked c req backends now r = (None, r') \<longleftrightarrow> r' = r \<and> \<not> localHasFree c req now r backends"
proof
  assume "r' = r \<and> \<not> localHasFree c req now r backends"
  moreover have "l_backend l \<noteq> None \<longrightarrow> False"
    if "pickLocalLocked c req backends now r = (Some l, r1)" "\<not> localHasFree c req now r backends" for l r1
    using pickLocal_result [OF that(1)] that(2) by (auto simp: localHasFree_iff filter_empty_conv)
  ultimately show "pickLocalLocked c req backends now r = (None, r')"
    using pickLocal_result [of c req backends now r]
    by (cases "pickLocalLocked c req backends now r"; cases "fst (pickLocalLocked c req backends now r)")
      (auto simp: localHasFree_iff filter_empty_conv)
qed (use pickLocal_result in blast)

section \<open>The most-free peer\<close>

abbreviation roomy :: "peer_answer list \<Rightarrow> peer_answer list" where
  "roomy as \<equiv> filter (\<lambda>(rep, mc, free, serves). serves \<and> free > 0) as"

abbreviation answer_free :: "peer_answer \<Rightarrow> int" where
  "answer_free a \<equiv> fst (snd (snd a))"

definition peer_inv :: "peer_answer list \<Rightarrow> report list \<times> int \<times> duration \<Rightarrow> bool" where
  "peer_inv as acc \<longleftrightarrow>
     (case acc of (tied, best, bestRTT) \<Rightarrow>
        (tied = [] \<longleftrightarrow> as = []) \<and> (tied = [] \<longrightarrow> best = 0) \<and>
        (\<forall>rep\<in>set tied. r_RTT rep = bestRTT \<and> (\<exists>a\<in>set as. fst a = rep \<and> answer_free a = best)) \<and>
        (\<forall>a\<in>set as. answer_free a \<le> best \<and> (answer_free a = best \<longrightarrow> bestRTT \<le> r_RTT (fst a))))"

lemma peer_inv_step:
  assumes "peer_inv os (tied, best, rtt)" and "0 < answer_free a"
  shows "peer_inv (os @ [a])
    (if answer_free a < best then (tied, best, rtt)
     else if answer_free a > best \<or> r_RTT (fst a) < rtt then ([fst a], answer_free a, r_RTT (fst a))
     else if r_RTT (fst a) = rtt then (tied @ [fst a], best, rtt) else (tied, best, rtt))"
proof -
  have inv: "tied = [] \<longleftrightarrow> os = []" "tied = [] \<longrightarrow> best = 0"
    "\<And>rep. rep \<in> set tied \<Longrightarrow> r_RTT rep = rtt \<and> (\<exists>a\<in>set os. fst a = rep \<and> answer_free a = best)"
    "\<And>a. a \<in> set os \<Longrightarrow> answer_free a \<le> best \<and> (answer_free a = best \<longrightarrow> rtt \<le> r_RTT (fst a))"
    using assms(1) unfolding peer_inv_def prod.case by blast+
  have tied: "tied \<noteq> []" if "answer_free a \<le> best" using that inv(2) assms(2) by auto
  consider "answer_free a < best" | "answer_free a > best" | "answer_free a = best" "r_RTT (fst a) < rtt"
    | "answer_free a = best" "r_RTT (fst a) = rtt" | "answer_free a = best" "r_RTT (fst a) > rtt" by linarith
  then show ?thesis
  proof cases
    case 1
    then show ?thesis using inv tied by (simp add: peer_inv_def)
  next
    case 2
    then have "\<forall>a'\<in>set os. answer_free a' < answer_free a" using inv(4) by force
    with 2 show ?thesis by (auto simp: peer_inv_def less_imp_le)
  next
    case 3
    then have "\<forall>a'\<in>set os. answer_free a' \<le> best \<and> (answer_free a' = best \<longrightarrow> r_RTT (fst a) \<le> r_RTT (fst a'))"
      using inv(4) by force
    with 3 show ?thesis by (auto simp: peer_inv_def)
  next
    case 4
    then show ?thesis using inv by (simp add: peer_inv_def)
  next
    case 5
    then have "(if answer_free a < best then (tied, best, rtt)
     else if answer_free a > best \<or> r_RTT (fst a) < rtt then ([fst a], answer_free a, r_RTT (fst a))
     else if r_RTT (fst a) = rtt then (tied @ [fst a], best, rtt) else (tied, best, rtt)) = (tied, best, rtt)"
      by simp
    moreover have "answer_free a' \<le> best \<and> (answer_free a' = best \<longrightarrow> rtt \<le> r_RTT (fst a'))"
      if "a' \<in> set (os @ [a])" for a'
      using that 5 inv(4) [of a'] by (cases "a' = a") simp_all
    moreover have "\<exists>a'\<in>set (os @ [a]). fst a' = rep \<and> answer_free a' = best" if "rep \<in> set tied" for rep
      using inv(3) [OF that] unfolding set_append by blast
    ultimately show ?thesis
      using inv(3) tied 5(1) unfolding peer_inv_def by (simp only: prod.case) blast
  qed
qed

lemma pickPeer_scan_append:
  "pickPeer_scan (xs @ ys) acc = pickPeer_scan ys (pickPeer_scan xs acc)"
  by (induction xs acc rule: pickPeer_scan.induct) simp_all

lemma pickPeer_scan_ok: "peer_inv (roomy as) (pickPeer_scan as ([], 0, 0))"
proof (induction as rule: rev_induct)
  case (snoc a as)
  obtain rep mc free serves where a: "a = (rep, mc, free, serves)" by (cases a)
  obtain tied best rtt where s: "pickPeer_scan as ([], 0, 0) = (tied, best, rtt)"
    by (cases "pickPeer_scan as ([], 0, 0)")
  show ?case
  proof (cases "serves \<and> free > 0")
    case False
    then have "roomy (as @ [a]) = roomy as" "pickPeer_scan (as @ [a]) ([], 0, 0) = pickPeer_scan as ([], 0, 0)"
      by (auto simp: a s pickPeer_scan_append)
    with snoc.IH show ?thesis by simp
  next
    case True
    then have os: "roomy (as @ [a]) = roomy as @ [a]" by (simp add: a)
    have step: "pickPeer_scan (as @ [a]) ([], 0, 0) =
        (if answer_free a < best then (tied, best, rtt)
         else if answer_free a > best \<or> r_RTT (fst a) < rtt then ([fst a], answer_free a, r_RTT (fst a))
         else if r_RTT (fst a) = rtt then (tied @ [fst a], best, rtt) else (tied, best, rtt))"
      unfolding pickPeer_scan_append s using True by (simp add: a)
    have "0 < answer_free a" using True by (simp add: a)
    from peer_inv_step [OF snoc.IH [unfolded s] this] show ?thesis
      by (simp only: os step)
  qed
qed (simp add: peer_inv_def)

lemma roomy_answers:
  "roomy (map (\<lambda>rep. (rep, peer_info c req rep now r)) reps) =
   map (\<lambda>rep. (rep, peer_info c req rep now r)) (filter (peer_room c req now r) reps)"
  using peer_info_serves [of c req _ now r]
  by (simp add: filter_map o_def case_prod_beta)

lemma peerLease_grant:
  assumes "untaken reports (q_Model req) r r1" and "rep \<in> set reports" and "peer_room c req now r rep"
  shows "peer_grant c req reports now r (fst (peerLeaseLocked rep (q_Model req) now r1))
    (snd (peerLeaseLocked rep (q_Model req) now r1))"
proof -
  have "rt_next r1 = rt_next r" "rt_store r1 = rt_store r" "rt_reservations r1 = rt_reservations r"
    "same_base reports (q_Model req) r r1"
    using assms(1) by (simp_all add: untaken_def)
  then show ?thesis
    using assms(2,3) by (auto simp: peer_grant_def peerLeaseLocked_def Let_def same_base_def lifted_def)
qed

lemma pickPeer_result:
  assumes "pickPeerLocked c req reports now r = (res, r')" and d: "distinct (map r_Node reports)"
  shows "picker_ok c req backends elig reports now r (res, r') \<and>
    (res = None \<longrightarrow> (\<forall>rep\<in>set reports. \<not> peer_room c req now r rep)) \<and>
    (\<forall>l. res = Some l \<longrightarrow> (\<exists>rep\<in>set reports. peer_room c req now r rep \<and> t_Node (l_target l) = r_Node rep \<and>
       (\<forall>rep'\<in>set reports. peer_room c req now r rep' \<longrightarrow>
          fst (snd (peer_info c req rep' now r)) < fst (snd (peer_info c req rep now r)) \<or>
          fst (snd (peer_info c req rep' now r)) = fst (snd (peer_info c req rep now r)) \<and>
          r_RTT rep \<le> r_RTT rep')))"
proof -
  obtain as r1 where p: "peer_answers c req reports now r = (as, r1)" by fastforce
  have as: "as = map (\<lambda>rep. (rep, peer_info c req rep now r)) reports"
    and u: "untaken reports (q_Model req) r r1"
    using peer_answers_pure [OF order_refl d, of c req now r] p by auto
  obtain tied best rtt where s: "pickPeer_scan as ([], 0, 0) = (tied, best, rtt)"
    by (cases "pickPeer_scan as ([], 0, 0)")
  have inv: "peer_inv (map (\<lambda>rep. (rep, peer_info c req rep now r)) (filter (peer_room c req now r) reports))
      (tied, best, rtt)"
    using pickPeer_scan_ok [of as] unfolding s by (simp only: as roomy_answers)
  show ?thesis
  proof (cases "tied = []")
    case True
    then have "filter (peer_room c req now r) reports = []"
      using inv by (simp add: peer_inv_def)
    then show ?thesis
      using assms(1) p s True u by (auto simp: pickPeerLocked_def picker_ok_def filter_empty_conv)
  next
    case False
    define rep where "rep = tied ! nat (rt_peerRR r1 (q_Model req) mod int (length tied))"
    define r2 where "r2 = r1\<lparr>rt_peerRR := (rt_peerRR r1)(q_Model req := rt_peerRR r1 (q_Model req) + 1)\<rparr>"
    have "rep \<in> set tied"
      unfolding rep_def by (rule nth_mem) (rule nat_mod_less [OF False])
    then have rep: "rep \<in> set reports" "peer_room c req now r rep"
      "fst (snd (peer_info c req rep now r)) = best" "r_RTT rep = rtt"
      using inv by (auto simp: peer_inv_def)
    have best: "fst (snd (peer_info c req rep' now r)) < best \<or>
        fst (snd (peer_info c req rep' now r)) = best \<and> rtt \<le> r_RTT rep'"
      if "rep' \<in> set reports" "peer_room c req now r rep'" for rep'
      using inv that by (auto simp: peer_inv_def case_prod_beta)
    have res: "res = Some (fst (peerLeaseLocked rep (q_Model req) now r2))"
      "r' = snd (peerLeaseLocked rep (q_Model req) now r2)"
      using assms(1) p s False
      by (auto simp: pickPeerLocked_def Let_def rep_def r2_def split: prod.splits)
    have u2: "untaken reports (q_Model req) r r2"
      using u by (simp add: untaken_def same_base_def lifted_def r2_def)
    have node: "t_Node (l_target (fst (peerLeaseLocked rep (q_Model req) now r2))) = r_Node rep"
      by (simp add: peerLeaseLocked_def Let_def)
    show ?thesis
      using peerLease_grant [OF u2 rep(1,2)] rep best node unfolding res
      by (auto simp: picker_ok_def)
  qed
qed

lemma pickPeer_ok:
  "distinct (map r_Node reports) \<Longrightarrow> picker_ok c req backends elig reports now r (pickPeerLocked c req reports now r)"
  using pickPeer_result [of c req reports now r "fst (pickPeerLocked c req reports now r)"
      "snd (pickPeerLocked c req reports now r)" backends elig] by simp

section \<open>The other stages\<close>

lemma picker_none [simp]: "picker_ok c req backends elig reports now r (None, r)"
  by (simp add: picker_ok_def)

lemma peer_lease_ok:
  assumes "untaken reports (q_Model req) r r1" and "rep \<in> set reports" and "peer_room c req now r rep"
  shows "picker_ok c req backends elig reports now r
    (case peerLeaseLocked rep (q_Model req) now r1 of (l, r') \<Rightarrow> (Some l, r'))"
  using peerLease_grant [OF assms]
  by (cases "peerLeaseLocked rep (q_Model req) now r1") (simp add: picker_ok_def)

lemma peer_attempt_ok:
  assumes "rep \<in> set reports" and "peerFreeLocked c req rep now r = ((mc, free, serves), r1)"
    and "free > 0 \<Longrightarrow> res = (case peerLeaseLocked rep (q_Model req) now r1 of (l, r') \<Rightarrow> (Some l, r'))"
    and "\<not> free > 0 \<Longrightarrow> res = (None, r1)"
  shows "picker_ok c req backends elig reports now r res"
proof -
  have u: "untaken reports (q_Model req) r r1"
    using peerFree_untaken [OF assms(1), of req r c now] assms(2) by simp
  have "peer_room c req now r rep \<longleftrightarrow> free > 0"
    using assms(2) by (simp add: peer_room_def peer_info_def)
  then show ?thesis
    using peer_lease_ok [OF u assms(1)] u assms(3,4)
    by (cases "free > 0") (simp_all add: picker_ok_def)
qed

lemma peerFree_serves:
  "peerFreeLocked c req rep now r = ((mc, free, serves), r1) \<Longrightarrow> free > 0 \<Longrightarrow> serves"
  by (auto simp: peerFreeLocked_def Let_def split: option.splits if_splits)

lemma find_in: "find P xs = Some x \<Longrightarrow> x \<in> set xs \<and> P x"
  by (induction xs) (auto split: if_splits)

lemma try_peer_ok: "picker_ok c req backends elig reports now r (try_peer c req reports now name r)"
proof (cases "find (\<lambda>rep. r_Node rep = name) reports")
  case (Some rep)
  obtain mc free serves r1 where p: "peerFreeLocked c req rep now r = ((mc, free, serves), r1)"
    by (cases "peerFreeLocked c req rep now r") auto
  show ?thesis
    using find_in [OF Some] peerFree_serves [OF p] Some p
    by (intro peer_attempt_ok [OF _ p]) (auto simp: try_peer_def)
qed (simp add: try_peer_def)

lemma pick_warm_ok:
  assumes "distinct (map r_Node reports)"
  shows "picker_ok c req backends elig reports now r (pick_warm c req backends elig reports now names r)"
proof (induction names arbitrary: r)
  case (Cons name names)
  show ?case
    using Cons.IH pickLocal_ok [of elig c req backends reports now r] try_peer_ok
    by (auto intro!: picker_orelse [OF _ _ assms])
qed simp

definition host_weight :: "config \<Rightarrow> 64 word \<Rightarrow> unit + report \<Rightarrow> 64 word" where
  "host_weight c key h = rendezvous key (case h of Inl _ \<Rightarrow> c_Self c | Inr rep \<Rightarrow> r_Node rep)"

lemma host_weight_simps [simp]:
  "host_weight c key (Inl u) = rendezvous key (c_Self c)"
  "host_weight c key (Inr rep) = rendezvous key (r_Node rep)"
  by (simp_all add: host_weight_def)

text \<open>The rendezvous scan finds the host of greatest weight among those with room.\<close>

lemma session_scan_first_max:
  "session_scan key as (map_option (\<lambda>h. (h, host_weight c key h)) (first_max (host_weight c key) hs)) =
   map_option (\<lambda>h. (h, host_weight c key h))
     (first_max (host_weight c key) (hs @ map (\<lambda>a. Inr (fst a)) (roomy as)))"
proof (induction as arbitrary: hs)
  case (Cons a as)
  obtain rep mc free serves where a: "a = (rep, mc, free, serves)" by (cases a)
  show ?case
  proof (cases "serves \<and> free > 0")
    case True
    have "session_scan key (a # as) (map_option (\<lambda>h. (h, host_weight c key h)) (first_max (host_weight c key) hs)) =
      session_scan key as (map_option (\<lambda>h. (h, host_weight c key h)) (first_max (host_weight c key) (hs @ [Inr rep])))"
      using True by (auto simp: a Let_def split: option.split)
    then show ?thesis
      using Cons.IH [of "hs @ [Inr rep]"] True by (simp add: a)
  qed (use Cons.IH [of hs] in \<open>auto simp: a\<close>)
qed simp

lemma pickSession_ok:
  assumes d: "distinct (map r_Node reports)"
  shows "picker_ok c req backends elig reports now r (pickSessionLocked c req backends elig reports now r)"
  unfolding pickSessionLocked_def Let_def
proof (rule picker_orelse [OF _ _ d])
  fix r1
  obtain as r2 where p: "peer_answers c req reports now r1 = (as, r2)" by fastforce
  have as: "as = map (\<lambda>rep. (rep, peer_info c req rep now r1)) reports"
    and u: "untaken reports (q_Model req) r1 r2"
    using peer_answers_pure [OF order_refl d, of c req now r1] p by auto
  define hs where "hs = (if elig \<and> localHasFree c req now r1 backends then [Inl () :: unit + report] else [])"
  have start: "(if elig \<and> localHasFree c req now r1 backends
      then Some (Inl (), rendezvous (q_SessionKey req) (c_Self c)) else None) =
      map_option (\<lambda>h. (h, host_weight c (q_SessionKey req) h)) (first_max (host_weight c (q_SessionKey req)) hs)"
    by (simp add: hs_def)
  have "picker_ok c req backends elig reports now r2
      (case map_option (\<lambda>h. (h, host_weight c (q_SessionKey req) h))
          (first_max (host_weight c (q_SessionKey req)) (hs @ map (\<lambda>a. Inr (fst a)) (roomy as))) of
         None \<Rightarrow> (None, r2)
       | Some (Inl _, _) \<Rightarrow> pickLocalLocked c req backends now r2
       | Some (Inr rep, _) \<Rightarrow> (case peerLeaseLocked rep (q_Model req) now r2 of (l, r) \<Rightarrow> (Some l, r)))"
  proof (cases "first_max (host_weight c (q_SessionKey req)) (hs @ map (\<lambda>a. Inr (fst a)) (roomy as))")
    case (Some h)
    then have h: "h \<in> set (hs @ map (\<lambda>a. Inr (fst a)) (roomy as))"
      by (rule first_max_greatest [THEN conjunct1])
    show ?thesis
    proof (cases h)
      case (Inl u')
      then have elig using h by (auto simp: hs_def split: if_splits)
      with Inl Some show ?thesis by (simp add: pickLocal_ok)
    next
      case (Inr rep)
      then have rep: "rep \<in> set reports" "peer_room c req now r1 rep"
        using h unfolding as roomy_answers by (auto simp: hs_def split: if_splits)
      then have "peer_room c req now r2 rep"
        using peer_room_untaken [OF u _ d] by simp
      with rep(1) Inr Some show ?thesis
        by (simp add: peer_lease_ok)
    qed
  qed simp
  from picker_ok_untaken [OF u this d]
  show "picker_ok c req backends elig reports now r1
      (case peer_answers c req reports now r1 of
         (as, r) \<Rightarrow> case session_scan (q_SessionKey req) as
             (if elig \<and> localHasFree c req now r1 backends
              then Some (Inl (), rendezvous (q_SessionKey req) (c_Self c)) else None) of
             None \<Rightarrow> (None, r)
           | Some (Inl _, _) \<Rightarrow> pickLocalLocked c req backends now r
           | Some (Inr rep, _) \<Rightarrow> (case peerLeaseLocked rep (q_Model req) now r of (l, r) \<Rightarrow> (Some l, r)))"
    unfolding p prod.case start session_scan_first_max .
qed (simp add: pick_warm_ok [OF d] del: pick_warm.simps)

lemma pickPreferred_ok:
  assumes d: "distinct (map r_Node reports)"
  shows "picker_ok c req backends elig reports now r
    (pickPreferredLocked c req backends elig reports now names r)"
proof (induction names arbitrary: r)
  case (Cons name names)
  show ?case
  proof (cases "name = c_Self c")
    case True
    then show ?thesis
      using Cons.IH pickLocal_ok [of elig c req backends reports now r]
      by (auto intro!: picker_orelse [OF _ _ d])
  next
    case False
    show ?thesis
    proof (cases "find (\<lambda>rep. r_Node rep = name) reports")
      case (Some rep)
      obtain mc free serves r1 where p: "peerFreeLocked c req rep now r = ((mc, free, serves), r1)"
        by (cases "peerFreeLocked c req rep now r") auto
      have "picker_ok c req backends elig reports now r
          (if free > 0 then (case peerLeaseLocked rep (q_Model req) now r1 of (l, r') \<Rightarrow> (Some l, r'))
           else (None, r1))"
        using find_in [OF Some] by (intro peer_attempt_ok [OF _ p]) auto
      then have "picker_ok c req backends elig reports now r
          (case (if free > 0 then (case peerLeaseLocked rep (q_Model req) now r1 of (l, r') \<Rightarrow> (Some l, r'))
             else (None, r1)) of (Some l, r') \<Rightarrow> (Some l, r')
           | (None, r') \<Rightarrow> pickPreferredLocked c req backends elig reports now names r')"
        using Cons.IH by (intro picker_orelse [OF _ _ d])
      then show ?thesis
        using False Some p by (auto split: if_splits prod.splits)
    qed (use False Cons.IH in simp)
  qed
qed simp

section \<open>The scored stage\<close>

lemma cand_pred_ge_1: "1 \<le> cand_pred c req warm medOv medRate x"
  by (simp add: cand_pred_def warm_pred_def Let_def)

lemma least_pred_le: "least_pred ps best \<le> best \<and> (\<forall>p\<in>set ps. least_pred ps best \<le> p)"
proof (induction ps arbitrary: best)
  case (Cons p ps)
  let ?b = "if p < best then p else best"
  have "?b \<le> p" "?b \<le> best" by auto
  with Cons.IH [of ?b] show ?case
    unfolding least_pred.simps by (auto simp del: if_split)
qed simp

lemma least_pred_in: "least_pred ps best \<in> insert best (set ps)"
  by (induction ps arbitrary: best) (auto split: if_splits)

lemma draw_in_range:
  assumes "(\<exists>w\<in>set ws. w \<noteq> 0) \<or> pick \<noteq> None" and "\<And>j. pick = Some j \<Longrightarrow> j < i + length ws"
  shows "\<exists>j<i + length ws. draw i ws x pick = Some j"
  using assms
proof (induction ws arbitrary: i x pick)
  case (Cons w ws)
  show ?case
  proof (cases "w = 0")
    case True
    then show ?thesis using Cons.IH [of pick "Suc i" x] Cons.prems by auto
  next
    case False
    then show ?thesis using Cons.IH [of "Some i" "Suc i" "x - w"] by auto
  qed
qed auto

text \<open>The draw takes a candidate with a weight.\<close>

lemma draw_weighted:
  assumes "draw i ws x pick = Some j" and "pick \<noteq> Some j"
  shows "i \<le> j \<and> j < i + length ws \<and> ws ! (j - i) \<noteq> 0"
  using assms
proof (induction ws arbitrary: i x pick)
  case (Cons w ws)
  show ?case
  proof (cases "j = i")
    case True
    have "w \<noteq> 0"
    proof
      assume "w = 0"
      then have "draw (Suc i) ws x pick = Some j" using Cons.prems(1) by simp
      from Cons.IH [OF this Cons.prems(2)] True show False by simp
    qed
    with True show ?thesis by simp
  next
    case False
    then obtain x' pick' where "draw (Suc i) ws x' pick' = Some j" "pick' \<noteq> Some j"
      using Cons.prems by (auto split: if_splits)
    from Cons.IH [OF this] show ?thesis by (auto simp: nth_Cons')
  qed
qed simp

lemma band_choice_ok:
  assumes "cands \<noteq> []" and len: "length preds = length cands" and ge: "\<And>p. p \<in> set preds \<Longrightarrow> 1 \<le> p"
  obtains i n where "i < length cands" and "band_choice c req cands preds r = (Some i, r\<lparr>rt_rpos := n\<rparr>)"
    and "\<And>p. p \<in> set preds \<Longrightarrow> preds ! i \<le> p * stickyBand"
proof -
  note that_band = that
  define best where "best = least_pred (tl preds) (hd preds)"
  define limit where "limit = best * stickyBand"
  define band where "band = filter (\<lambda>i. \<not> preds ! i > limit) [0..<length cands]"
  define ws where "ws = map (\<lambda>p. if p \<le> limit then 1 / (p * p * p) else 0) preds"
  have "preds \<noteq> []" using assms by auto
  then obtain p0 ps where p0: "preds = p0 # ps" by (cases preds) auto
  have least: "best \<in> set preds" "\<And>p. p \<in> set preds \<Longrightarrow> best \<le> p"
    using least_pred_in [of ps p0] least_pred_le [of ps p0] by (auto simp: best_def p0)
  have limit: "best \<le> limit" "\<And>p. p \<in> set preds \<Longrightarrow> limit \<le> p * stickyBand"
    using ge [OF least(1)] least(2) by (auto simp: limit_def stickyBand_def)
  obtain k where k: "k < length cands" "preds ! k = best"
    using least(1) len by (metis in_set_conv_nth)
  have finish: thesis if "i < length cands" "preds ! i \<le> limit" "band_choice c req cands preds r = (Some i, r\<lparr>rt_rpos := n\<rparr>)" for i n
    by (rule that_band [OF that(1,3)]) (use that(2) limit(2) in \<open>blast intro: order_trans\<close>)
  note unfold = band_choice_def Let_def best_def [symmetric] limit_def [symmetric] band_def [symmetric] ws_def [symmetric]
  consider (session) "q_SessionKey req \<noteq> 0" | (local) "q_SessionKey req = 0" "sc_local (hd cands) \<and> hd preds \<le> limit"
    | (weighted) "q_SessionKey req = 0" "\<not> (sc_local (hd cands) \<and> hd preds \<le> limit)" by blast
  then show thesis
  proof cases
    case session
    have "k \<in> set band" using k limit by (simp add: band_def)
    then have "first_max (\<lambda>i. rendezvous (q_SessionKey req) (cand_name c (cands ! i))) band \<noteq> None" by auto
    then obtain s where s: "first_max (\<lambda>i. rendezvous (q_SessionKey req) (cand_name c (cands ! i))) band = Some s"
      by blast
    have "s \<in> set band" by (rule first_max_greatest [OF s, THEN conjunct1])
    then show thesis
      using session s by (intro finish [of s "rt_rpos r"]) (simp_all add: unfold, simp_all add: band_def)
  next
    case local
    have "band_choice c req cands preds r = (Some 0, r\<lparr>rt_rpos := rt_rpos r\<rparr>)"
      using local by (simp add: unfold)
    moreover have "preds ! 0 \<le> limit"
      using local \<open>preds \<noteq> []\<close> by (simp add: hd_conv_nth)
    ultimately show thesis
      using assms(1) by (intro finish [of 0 "rt_rpos r"]) simp_all
  next
    case weighted
    have weight: "ws ! i \<noteq> 0 \<longleftrightarrow> preds ! i \<le> limit" if "i < length cands" for i
      using that ge [of "preds ! i"] len by (auto simp: ws_def)
    have lws: "length ws = length cands" by (simp add: ws_def len)
    have "ws ! k \<in> set ws" "ws ! k \<noteq> 0" using k lws weight [of k] limit(1) by simp_all
    then obtain j where j: "draw 0 ws (rt_rand r (rt_rpos r) * sum_list ws) None = Some j"
      using draw_in_range [of ws None 0] by fastforce
    then have "j < length cands" "preds ! j \<le> limit"
      using draw_weighted [OF j] lws weight [of j] by auto
    then show thesis
      using weighted j by (intro finish [of j "rt_rpos r + 1"]) (auto simp: unfold router_rand_def)
  qed
qed

definition in_band :: "config \<Rightarrow> request \<Rightarrow> scoredCand list \<Rightarrow> (rat \<times> rat) list \<Rightarrow> warmPair \<Rightarrow> nat \<Rightarrow> bool" where
  "in_band c req cands pool warm i \<longleftrightarrow>
     (let pred = cand_pred c req warm (median (map fst pool)) (median (map snd pool))
      in \<forall>x\<in>set cands. pred (cands ! i) \<le> pred x * stickyBand)"

lemma scored_choice_ok:
  assumes "cands \<noteq> []"
  obtains i n where "i < length cands"
    and "scored_choice c req cands pool warm r = (Some i, r\<lparr>rt_rpos := n\<rparr>)"
    and "in_band c req cands pool warm i \<or> \<not> sc_scored (cands ! i)"
proof -
  define pred where "pred = cand_pred c req warm (median (map fst pool)) (median (map snd pool))"
  define learning where "learning = filter (\<lambda>i. \<not> sc_scored (cands ! i)) [0..<length cands]"
  define trickle where "trickle \<longleftrightarrow> learning \<noteq> [] \<and> \<not> list_ex (\<lambda>x. wp_ok warm \<and>
    (cand_name c x = wp_last warm \<or> cand_name c x = wp_replica warm)) cands"
  define r1 where "r1 = (if trickle then snd (router_rand r) else r)"
  have choice: "scored_choice c req cands pool warm r =
      (if trickle \<and> fst (router_rand r) < trickleShare
       then (Some (learning ! min (nat \<lfloor>fst (router_rand r1) * of_nat (length learning)\<rfloor>) (length learning - 1)),
             snd (router_rand r1))
       else band_choice c req cands (map pred cands) r1)"
    by (auto simp: scored_choice_def Let_def pred_def [symmetric] learning_def [symmetric] trickle_def r1_def
        router_rand_def trickleShare_def)
  define m where "m = (if trickle then rt_rpos r + 1 else rt_rpos r)"
  have m: "r1 = r\<lparr>rt_rpos := m\<rparr>"
    by (simp add: r1_def router_rand_def m_def)
  show thesis
  proof (cases "trickle \<and> fst (router_rand r) < trickleShare")
    case True
    let ?i = "learning ! min (nat \<lfloor>fst (router_rand r1) * of_nat (length learning)\<rfloor>) (length learning - 1)"
    have "?i \<in> set learning"
      using True by (intro nth_mem) (simp add: trickle_def min_less_iff_disj)
    then have "?i < length cands" "\<not> sc_scored (cands ! ?i)" by (auto simp: learning_def)
    then show thesis
      using True by (intro that [of ?i "m + 1"]) (simp_all add: choice m router_rand_def)
  next
    case False
    obtain i n where "i < length cands" "band_choice c req cands (map pred cands) r1 = (Some i, r1\<lparr>rt_rpos := n\<rparr>)"
      and "\<And>p. p \<in> set (map pred cands) \<Longrightarrow> map pred cands ! i \<le> p * stickyBand"
      by (rule band_choice_ok [OF assms, of "map pred cands" c req r1]) (auto simp: pred_def cand_pred_ge_1)
    then show thesis
      using False by (intro that [of i n]) (auto simp: choice m in_band_def Let_def pred_def)
  qed
qed

lemma scored_scan_cands:
  "set (fst (scored_scan as (cands, pool))) \<subseteq>
     set cands \<union> {x. \<not> sc_local x \<and> sc_rep x \<in> fst ` set (roomy as)}"
proof (induction as arbitrary: cands pool)
  case (Cons a as)
  obtain rep mc free serves where a: "a = (rep, mc, free, serves)" by (cases a)
  show ?case
  proof (cases serves)
    case True
    obtain cands' pool' where step: "scored_scan (a # as) (cands, pool) = scored_scan as (cands', pool')"
      and "set cands' \<subseteq> set cands \<union> {x. \<not> sc_local x \<and> sc_rep x = rep \<and> free > 0}"
      using True by (auto simp: a Let_def)
    then show ?thesis
      using Cons.IH [of cands' pool'] True by (auto simp: a)
  qed (use Cons.IH in \<open>auto simp: a\<close>)
qed simp

text \<open>The scored stage, when it decides, grants a slot; when it does not, it takes nothing.\<close>

lemma pickScored_ok:
  assumes d: "distinct (map r_Node reports)"
    and p: "pickScoredLocked c req backends elig reports now r = ((l, handled), r')"
  shows "picker_ok c req backends elig reports now r (l, r') \<and> (handled \<longrightarrow> l \<noteq> None) \<and> (\<not> handled \<longrightarrow> l = None)"
proof -
  define pool0 :: "(rat \<times> rat) list" where "pool0 = (case c_LocalScore c of None \<Rightarrow> []
    | Some f \<Rightarrow> (case f (q_Model req) of None \<Rightarrow> [] | Some (ov, rate) \<Rightarrow> [(of_int ov, of_int rate)]))"
  define cands0 where "cands0 = (if elig \<and> localHasFree c req now r backends
     then [\<lparr>sc_local = True, sc_rep = zero_report, sc_ov = (if pool0 \<noteq> [] then fst (hd pool0) else 0),
            sc_rate = (if pool0 \<noteq> [] then snd (hd pool0) else 0),
            sc_scored = (pool0 \<noteq> []), sc_rttMs = 0\<rparr>] else [])"
  obtain as r1 where ans: "peer_answers c req reports now r = (as, r1)" by fastforce
  have as: "as = map (\<lambda>rep. (rep, peer_info c req rep now r)) reports"
    and u: "untaken reports (q_Model req) r r1"
    using peer_answers_pure [OF order_refl d, of c req now r] ans by auto
  obtain cands pool where s: "scored_scan as (cands0, pool0) = (cands, pool)" by fastforce
  have "fst ` set (roomy as) = {rep \<in> set reports. peer_room c req now r rep}"
    unfolding as roomy_answers by force
  then have "set cands \<subseteq> set cands0 \<union> {x. \<not> sc_local x \<and> sc_rep x \<in> set reports \<and> peer_room c req now r (sc_rep x)}"
    using scored_scan_cands [of as cands0 pool0] unfolding s fst_conv by simp
  moreover have "sc_local x \<and> elig \<and> localHasFree c req now r backends" if "x \<in> set cands0" for x
    using that unfolding cands0_def by (auto simp del: if_split split: if_splits)
  ultimately have cands: "if sc_local x then elig \<and> localHasFree c req now r backends
      else sc_rep x \<in> set reports \<and> peer_room c req now r (sc_rep x)" if "x \<in> set cands" for x
    using that by auto
  note def = pickScoredLocked_def Let_def pool0_def [symmetric] cands0_def [symmetric]
  show ?thesis
  proof (cases "pool = [] \<or> cands = []")
    case True
    then show ?thesis using p ans s u by (auto simp: def picker_ok_def)
  next
    case False
    let ?warm = "warmLocked c req (anyHealthy r1 backends) reports now r1"
    obtain i n where i: "i < length cands" "scored_choice c req cands pool ?warm r1 = (Some i, r1\<lparr>rt_rpos := n\<rparr>)"
      using scored_choice_ok [of cands c req pool ?warm r1] False by metis
    let ?r2 = "r1\<lparr>rt_rpos := n\<rparr>"
    have u2: "untaken reports (q_Model req) r ?r2"
      using u by (simp add: untaken_def same_base_def lifted_def)
    note in_cands = cands [OF nth_mem [OF i(1)]]
    show ?thesis
    proof (cases "sc_local (cands ! i)")
      case True
      then have elig and free: "localHasFree c req now ?r2 backends"
        using in_cands u by (simp_all add: localHasFree_def local_usable_def local_free_def untaken_def)
      have l: "pickLocalLocked c req backends now ?r2 = (l, r')" handled
        using p ans s i False True by (auto simp: def split: prod.splits)
      have "l \<noteq> None" using l(1) free pickLocal_None by metis
      moreover have "picker_ok c req backends elig reports now ?r2 (l, r')"
        using pickLocal_ok [of elig c req backends reports now ?r2] l(1) \<open>elig\<close> by simp
      ultimately show ?thesis
        using picker_ok_untaken [OF u2 _ d] l(2) by blast
    next
      case remote: False
      have l: "(l, r') = (case peerLeaseLocked (sc_rep (cands ! i)) (q_Model req) now ?r2 of (l, r) \<Rightarrow> (Some l, r))" handled
        using p ans s i False remote by (auto simp: def split: prod.splits)
      have "picker_ok c req backends elig reports now r (l, r')"
        unfolding l(1) using in_cands remote by (intro peer_lease_ok [OF u2]) simp_all
      moreover have "l \<noteq> None" using l(1) by (simp split: prod.splits)
      ultimately show ?thesis using l(2) by blast
    qed
  qed
qed

end
