(* ===== verification/RouterPicks.thy ===== *)
theory RouterPicks
  imports RouterStages
begin

text \<open>
  The stages of a pick composed: what \<open>Pick\<close> guarantees of the lease it grants and of the errors it
  returns.
\<close>

section \<open>A whole pick\<close>

definition room :: "config \<Rightarrow> request \<Rightarrow> nat list \<Rightarrow> bool \<Rightarrow> report list \<Rightarrow> gotime \<Rightarrow> router \<Rightarrow> bool" where
  "room c req backends elig reports now r \<longleftrightarrow>
     elig \<and> (q_Host req = '''' \<or> q_Host req = c_Self c) \<and> localHasFree c req now r backends \<or>
     \<not> q_Forwarded req \<and> q_Host req \<noteq> c_Self c \<and> (\<exists>rep\<in>set reports. peer_room c req now r rep)"

definition granted :: "config \<Rightarrow> request \<Rightarrow> nat list \<Rightarrow> bool \<Rightarrow> report list \<Rightarrow> gotime \<Rightarrow> router \<Rightarrow> lease \<Rightarrow> router \<Rightarrow> bool" where
  "granted c req backends elig reports now r l r' \<longleftrightarrow>
     elig \<and> (q_Host req = '''' \<or> q_Host req = c_Self c) \<and> local_grant c req backends reports now r l r' \<or>
     \<not> q_Forwarded req \<and> q_Host req \<noteq> c_Self c \<and> peer_grant c req reports now r l r'"

definition pick_ok :: "config \<Rightarrow> request \<Rightarrow> nat list \<Rightarrow> bool \<Rightarrow> report list \<Rightarrow> gotime \<Rightarrow> router \<Rightarrow>
    lease option \<times> router \<Rightarrow> bool" where
  "pick_ok c req backends elig reports now r res \<longleftrightarrow>
     (case res of
        (None, r') \<Rightarrow> untaken reports (q_Model req) r r' \<and> \<not> room c req backends elig reports now r
      | (Some l, r') \<Rightarrow> granted c req backends elig reports now r l r')"

lemma room_untaken:
  "untaken reports (q_Model req) r r1 \<Longrightarrow> distinct (map r_Node reports) \<Longrightarrow>
   room c req backends elig reports now r1 \<longleftrightarrow> room c req backends elig reports now r"
  by (auto simp: room_def peer_room_untaken)
    (simp_all add: untaken_def localHasFree_def local_usable_def local_free_def)

lemma pick_ok_untaken:
  assumes u: "untaken reports (q_Model req) r r1" and d: "distinct (map r_Node reports)"
    and ok: "pick_ok c req backends elig reports now r1 res"
  shows "pick_ok c req backends elig reports now r res"
  using ok local_grant_untaken [OF u] peer_grant_untaken [OF u _ d] untaken_trans [OF u] room_untaken [OF u d]
  by (auto simp: pick_ok_def granted_def split: option.splits)

text \<open>A stage in front of a complete pick leaves it complete.\<close>

lemma pick_orelse:
  assumes d: "distinct (map r_Node reports)"
    and p: "picker_ok c req backends elig reports now r p"
    and any: "p = (None, snd p) \<or> q_Host req = '''' \<and> \<not> q_Forwarded req \<and> c_Self c \<noteq> ''''"
    and q: "\<And>r1. untaken reports (q_Model req) r r1 \<Longrightarrow> pick_ok c req backends elig reports now r1 (q r1)"
  shows "pick_ok c req backends elig reports now r (case p of (Some l, r') \<Rightarrow> (Some l, r') | (None, r') \<Rightarrow> q r')"
proof (cases p)
  case (Pair x r1)
  show ?thesis
  proof (cases x)
    case None
    then have u: "untaken reports (q_Model req) r r1" using p Pair by (simp add: picker_ok_def)
    from pick_ok_untaken [OF u d q [OF u]] None Pair show ?thesis by simp
  next
    case (Some l)
    then show ?thesis using p any Pair by (auto simp: pick_ok_def picker_ok_def granted_def)
  qed
qed

lemma pick_plain_ok:
  assumes d: "distinct (map r_Node reports)"
  shows "pick_ok c req backends elig reports now r (pick_plain c req backends elig reports now r)"
proof -
  let ?pin = "q_Host req = '''' \<or> q_Host req = c_Self c"
  have peer: "pick_ok c req backends False reports now r
      (if \<not> q_Forwarded req \<and> q_Host req \<noteq> c_Self c then pickPeerLocked c req reports now r else (None, r))"
    using pickPeer_result [of c req reports now r _ _ backends False] d
    by (auto simp: pick_ok_def picker_ok_def granted_def room_def split: prod.split option.split)
  show ?thesis
  proof (cases "elig \<and> ?pin")
    case True
    obtain res r' where res: "pickLocalLocked c req backends now r = (res, r')" by fastforce
    note ok = pickLocal_result [OF res, of reports]
    show ?thesis
    proof (cases res)
      case None
      then have "r' = r" "\<not> localHasFree c req now r backends" using ok by auto
      with peer True res None show ?thesis
        by (auto simp: pick_plain_def pick_ok_def granted_def room_def split: option.splits if_splits)
    next
      case (Some l)
      then show ?thesis
        using ok True res by (auto simp: pick_plain_def pick_ok_def granted_def)
    qed
  next
    case False
    with peer show ?thesis
      by (auto simp: pick_plain_def pick_ok_def granted_def room_def split: option.splits)
  qed
qed

definition as_slot :: "(route_error + lease) \<times> router \<Rightarrow> lease option \<times> router" where
  "as_slot x = (case x of (Inl _, r) \<Rightarrow> (None, r) | (Inr l, r) \<Rightarrow> (Some l, r))"

lemma as_slot_case:
  "as_slot (case p of (Some l, r) \<Rightarrow> (Inr l, r) | (None, r) \<Rightarrow> q r) =
   (case p of (Some l, r) \<Rightarrow> (Some l, r) | (None, r) \<Rightarrow> as_slot (q r))"
  by (cases p; cases "fst p") (auto simp: as_slot_def)

lemma as_slot_scored:
  "as_slot (case p of ((Some l, True), r) \<Rightarrow> (Inr l, r) | ((None, True), r) \<Rightarrow> (Inl ErrNoFreeSlot, r)
     | ((_, False), r) \<Rightarrow> q r) =
   (case p of ((Some l, True), r) \<Rightarrow> (Some l, r) | ((None, True), r) \<Rightarrow> (None, r)
     | ((_, False), r) \<Rightarrow> as_slot (q r))"
  by (cases p; cases "fst (fst p)"; cases "snd (fst p)") (auto simp: as_slot_def)

lemma as_slot_simps:
  "as_slot (slot_result x) = x" "as_slot (if b then y else z) = (if b then as_slot y else as_slot z)"
  by (cases x; cases "fst x") (auto simp: as_slot_def slot_result_def)

lemma pick_hosts_ok:
  assumes d: "distinct (map r_Node reports)" and self: "c_Self c \<noteq> ''''"
  shows "pick_ok c req backends elig reports now r (as_slot (pick_hosts c req backends elig reports now r)) \<and>
    (\<forall>e. fst (pick_hosts c req backends elig reports now r) = Inl e \<longrightarrow> e = ErrNoFreeSlot)"
proof -
  let ?free = "\<not> q_Forwarded req \<and> q_Host req = ''''"
  define tail where "tail r = (case (if q_SessionKey req \<noteq> 0
      then pickSessionLocked c req backends elig reports now r else (None, r)) of
        (Some l, r') \<Rightarrow> (Some l, r') | (None, r') \<Rightarrow> pick_plain c req backends elig reports now r')" for r
  define perf where "perf r = (case pickScoredLocked c req backends elig reports now r of
        ((Some l, True), r') \<Rightarrow> (Some l, r') | ((None, True), r') \<Rightarrow> (None, r') | ((_, False), r') \<Rightarrow> tail r')" for r
  have tail_ok: "pick_ok c req backends elig reports now r (tail r)" if ?free for r
    unfolding tail_def using that self
    by (intro pick_orelse [OF d _ _ pick_plain_ok [OF d]]) (auto simp: pickSession_ok [OF d])
  have perf_ok: "pick_ok c req backends elig reports now r (perf r)" if ?free for r
  proof -
    obtain l h r1 where p: "pickScoredLocked c req backends elig reports now r = ((l, h), r1)"
      by (cases "pickScoredLocked c req backends elig reports now r") auto
    note ok = pickScored_ok [OF d p]
    have "perf r = (case (l, r1) of (Some l, r') \<Rightarrow> (Some l, r') | (None, r') \<Rightarrow> tail r')"
      using ok p unfolding perf_def by (cases l; cases h) auto
    then show ?thesis
      using ok that self tail_ok by (simp only:) (intro pick_orelse [OF d], auto)
  qed
  have as_slot: "as_slot (pick_hosts c req backends elig reports now r) =
      (case (if q_Prefer req \<noteq> [] \<and> ?free
             then pickPreferredLocked c req backends elig reports now (q_Prefer req) r else (None, r)) of
         (Some l, r') \<Rightarrow> (Some l, r')
       | (None, r') \<Rightarrow> (if c_Performance c \<and> ?free then perf r' else pick_plain c req backends elig reports now r'))"
    unfolding pick_hosts_def perf_def tail_def as_slot_case as_slot_scored as_slot_simps ..
  have "pick_ok c req backends elig reports now r (as_slot (pick_hosts c req backends elig reports now r))"
    unfolding as_slot
    by (intro pick_orelse [OF d])
      (use self in \<open>auto simp: pickPreferred_ok [OF d] perf_ok pick_plain_ok [OF d]\<close>)
  moreover have "e = ErrNoFreeSlot" if "fst (pick_hosts c req backends elig reports now r) = Inl e" for e
    using that by (auto simp: pick_hosts_def slot_result_def split: prod.splits option.splits if_splits bool.splits)
  ultimately show ?thesis by blast
qed

section \<open>The guards\<close>

lemma pick_guards_request:
  assumes "pick_guards c req reports now r = Inr (req', backends, elig)"
  shows "\<exists>want. req' = req\<lparr>q_imgWant := want\<rparr> \<and>
    (\<not> (q_Images req \<and> \<not> q_Forwarded req) \<longrightarrow> want = q_imgWant req) \<and>
    (elig \<longrightarrow> rt_models r (q_Model req) = Some (backends, True)) \<and>
    (\<forall>bs adm. rt_models r (q_Model req) = Some (bs, adm) \<longrightarrow> backends = bs \<and>
       (\<not> (q_Images req \<and> \<not> q_Forwarded req) \<longrightarrow> elig = adm))"
  using assms unfolding pick_guards_def Let_def
  by (cases "rt_models r (q_Model req)")
    (auto split: if_splits sum.splits prod.splits intro: exI [of _ "q_imgWant req"])

lemma pick_cases:
  assumes "pickWithReportsLocked c req reports now r = (res, r')"
  obtains (guard) e where "pick_guards c req reports now r = Inl e" and "res = Inl e" and "r' = r"
  | (hosts) req' backends elig r1 where "pick_guards c req reports now r = Inr (req', backends, elig)"
      and "pick_hosts c req' backends elig reports now r = (res, r1)"
      and "r' = noteSessionLocked c req (case res of Inl _ \<Rightarrow> None | Inr l \<Rightarrow> Some l) reports r1"
proof (cases "pick_guards c req reports now r")
  case (Inl e)
  then have "(Inl e, r) = (res, r')"
    using assms by (simp add: pickWithReportsLocked_def noteSessionLocked_def)
  then show thesis using Inl by (intro guard [of e]) simp_all
next
  case (Inr x)
  obtain req' backends elig where x: "x = (req', backends, elig)" by (cases x)
  obtain res1 r1 where p: "pick_hosts c req' backends elig reports now r = (res1, r1)" by fastforce
  have "(res1, noteSessionLocked c req (case res1 of Inl _ \<Rightarrow> None | Inr l \<Rightarrow> Some l) reports r1) = (res, r')"
    using assms unfolding pickWithReportsLocked_def by (simp only: Inr x p sum.case prod.case)
  then have res: "res1 = res" and r': "r' = noteSessionLocked c req (case res1 of Inl _ \<Rightarrow> None | Inr l \<Rightarrow> Some l) reports r1"
    by auto
  show thesis
    using Inr x p r' unfolding res by (intro hosts [of req' backends elig r1]) simp_all
qed

lemma noteSession_frame [simp]:
  "rt_store (noteSessionLocked c req l reports r) = rt_store r"
  "rt_reservations (noteSessionLocked c req l reports r) = rt_reservations r"
  "rt_next (noteSessionLocked c req l reports r) = rt_next r"
  "rt_models (noteSessionLocked c req l reports r) = rt_models r"
  "rt_queues (noteSessionLocked c req l reports r) = rt_queues r"
  "rt_waiters (noteSessionLocked c req l reports r) = rt_waiters r"
  "rt_released (noteSessionLocked c req l reports r) = rt_released r"
  "rt_refused (noteSessionLocked c req l reports r) = rt_refused r"
  by (simp_all add: noteSessionLocked_def Let_def split: option.split)

text \<open>A successful pick grants through the stages; a failed one takes nothing.\<close>

lemma pick_result:
  assumes "pickWithReportsLocked c req reports now r = (res, r')"
    and d: "distinct (map r_Node reports)" and self: "c_Self c \<noteq> ''''"
  shows "case res of
      Inr l \<Rightarrow> (\<exists>req' backends elig r1. pick_guards c req reports now r = Inr (req', backends, elig) \<and>
        granted c req' backends elig reports now r l r1 \<and>
        r' = noteSessionLocked c req (Some l) reports r1)
    | Inl e \<Rightarrow> untaken reports (q_Model req) r r' \<and>
        (pick_guards c req reports now r = Inl e \<or>
         e = ErrNoFreeSlot \<and> (\<exists>req' backends elig. pick_guards c req reports now r = Inr (req', backends, elig) \<and>
           \<not> room c req' backends elig reports now r))"
  using assms(1)
proof (cases rule: pick_cases)
  case (guard e)
  then show ?thesis by simp
next
  case (hosts req' backends elig r1)
  have model: "q_Model req' = q_Model req"
    using pick_guards_request [OF hosts(1)] by auto
  note ok = pick_hosts_ok [OF d self, of req' backends elig now r]
  show ?thesis
  proof (cases res)
    case (Inl e)
    then have "e = ErrNoFreeSlot" "untaken reports (q_Model req) r r1" "\<not> room c req' backends elig reports now r"
      using ok hosts(2) model by (simp_all add: as_slot_def pick_ok_def)
    with Inl hosts show ?thesis by (simp add: noteSessionLocked_def)
  next
    case (Inr l)
    then have "granted c req' backends elig reports now r l r1"
      using ok hosts(2) by (simp add: as_slot_def pick_ok_def)
    with Inr hosts show ?thesis by auto
  qed
qed

section \<open>Properties of a pick\<close>

definition takes_backend :: "config \<Rightarrow> request \<Rightarrow> gotime \<Rightarrow> router \<Rightarrow> lease \<Rightarrow> router \<Rightarrow> nat \<Rightarrow> bool" where
  "takes_backend c req now r l r' b \<longleftrightarrow>
     (\<exists>bs. rt_models r (q_Model req) = Some (bs, True) \<and> b \<in> set bs) \<and>
     (q_Host req = '''' \<or> q_Host req = c_Self c) \<and>
     State (rt_store r b) = StateHealthy \<and> ''local:'' @ b_id (rt_store r b) \<notin> q_Exclude req \<and>
     InFlight (rt_store r b) < Slots now (c_LoadStaleAfter c) (rt_store r b) \<and>
     l_backend l = Some b \<and> t_Local (l_target l) \<and> t_Addr (l_target l) = Addr (rt_store r b) \<and>
     rt_store r' = (rt_store r)(b := Acquire (rt_store r b)) \<and> rt_reservations r' = rt_reservations r"

definition takes_peer :: "config \<Rightarrow> request \<Rightarrow> report list \<Rightarrow> gotime \<Rightarrow> router \<Rightarrow> lease \<Rightarrow> router \<Rightarrow> report \<Rightarrow> bool" where
  "takes_peer c req remote now r l r' rep \<longleftrightarrow>
     rep \<in> set remote \<and> \<not> q_Forwarded req \<and> r_Node rep \<noteq> c_Self c \<and>
     (q_Host req = '''' \<or> q_Host req = r_Node rep) \<and> ''peer:'' @ r_Node rep \<notin> q_Exclude req \<and>
     Fresh rep now (c_StaleAfter c) \<and>
     (\<exists>mc. report_Model rep (q_Model req) = Some mc \<and> mc_HealthyBackends mc > 0 \<and>
       mc_Busy mc + reservedLocked r (r_Node rep, q_Model req) (AsOf rep) < mc_Slots mc) \<and>
     (\<forall>t. rt_refused r (r_Node rep, q_Model req) = Some t \<longrightarrow> AsOf rep > t) \<and>
     l_backend l = None \<and> \<not> t_Local (l_target l) \<and> t_Node (l_target l) = r_Node rep \<and>
     t_Addr (l_target l) = r_APIAddr rep \<and> l_key l = (r_Node rep, q_Model req) \<and>
     rt_store r' = rt_store r \<and>
     (\<exists>res. rs_start res = now \<and> rs_id res = l_res l \<and>
       rt_reservations r' = (rt_reservations r)(l_key l := rt_reservations r (l_key l) @ [res]))"

lemma granted_takes:
  assumes g: "pick_guards c req reports now r = Inr (req', backends, elig)"
    and "granted c req' backends elig reports now r l r1"
  shows "(\<exists>b. takes_backend c req now r l r1 b) \<or> (\<exists>rep. takes_peer c req reports now r l r1 rep)"
proof -
  obtain want where w: "req' = req\<lparr>q_imgWant := want\<rparr>"
    "elig \<longrightarrow> rt_models r (q_Model req) = Some (backends, True)"
    using pick_guards_request [OF g] by blast
  from assms(2) consider
    (local) elig "q_Host req' = '''' \<or> q_Host req' = c_Self c" "local_grant c req' backends reports now r l r1"
    | (peer) "\<not> q_Forwarded req'" "q_Host req' \<noteq> c_Self c" "peer_grant c req' reports now r l r1"
    unfolding granted_def by blast
  then show ?thesis
  proof cases
    case local
    from local(3) obtain b where "b \<in> set backends" "local_usable req' r b" "local_free c now r b > 0"
      "l_backend l = Some b"
      "l_target l = \<lparr>t_Local = True, t_Node = c_Self c, t_BackendID = b_id (rt_store r b),
         t_Addr = Addr (rt_store r b)\<rparr>"
      "rt_store r1 = (rt_store r)(b := Acquire (rt_store r b))" "rt_reservations r1 = rt_reservations r"
      unfolding local_grant_def by blast
    then have "takes_backend c req now r l r1 b"
      using w local(1,2) by (simp add: takes_backend_def local_usable_def local_free_def)
    then show ?thesis by blast
  next
    case peer
    from peer(3) obtain rep where "rep \<in> set reports" and rm: "peer_room c req' now r rep"
      and "l_backend l = None" "l_key l = (r_Node rep, q_Model req')"
      and i: "l_res l = rt_next r" and "l_target l = \<lparr>t_Local = False, t_Node = r_Node rep, t_BackendID = '''', t_Addr = r_APIAddr rep\<rparr>"
      "rt_store r1 = rt_store r"
      and rs: "rt_reservations r1 = (rt_reservations r)(l_key l :=
          rt_reservations r (l_key l) @ [\<lparr>rs_id = rt_next r, rs_start = now\<rparr>])"
      unfolding peer_grant_def by blast
    moreover have "\<exists>res. rs_start res = now \<and> rs_id res = l_res l \<and>
        rt_reservations r1 = (rt_reservations r)(l_key l := rt_reservations r (l_key l) @ [res])"
      using rs i by (intro exI [of _ "\<lparr>rs_id = rt_next r, rs_start = now\<rparr>"]) simp
    moreover have "r_Node rep \<noteq> c_Self c \<and> Fresh rep now (c_StaleAfter c) \<and>
        (q_Host req = '''' \<or> q_Host req = r_Node rep) \<and> ''peer:'' @ r_Node rep \<notin> q_Exclude req \<and>
        (\<forall>t. rt_refused r (r_Node rep, q_Model req) = Some t \<longrightarrow> AsOf rep > t) \<and>
        (\<exists>mc. report_Model rep (q_Model req) = Some mc \<and> mc_HealthyBackends mc > 0 \<and>
          mc_Busy mc + reservedLocked r (r_Node rep, q_Model req) (AsOf rep) < mc_Slots mc)"
      using rm w(1) unfolding peer_room_iff by auto
    ultimately have "takes_peer c req reports now r l r1 rep"
      using w(1) peer(1) unfolding takes_peer_def by simp
    then show ?thesis by blast
  qed
qed

lemma pick_takes:
  assumes "c_Self c \<noteq> ''''" and "distinct (map r_Node remote)"
    and "Pick c req remote now r = (Inr l, r')"
  shows "(\<exists>b. takes_backend c req now r l r' b) \<or> (\<exists>rep. takes_peer c req remote now r l r' rep)"
proof -
  define reports where "reports = (if \<not> q_Forwarded req then remote else [])"
  have pick: "pickWithReportsLocked c req reports now r = (Inr l, r')"
    using assms(3) by (simp add: Pick_def pickLocked_def reports_def)
  have d: "distinct (map r_Node reports)" using assms(2) by (simp add: reports_def)
  obtain req' backends elig r1 where g: "pick_guards c req reports now r = Inr (req', backends, elig)"
    and gr: "granted c req' backends elig reports now r l r1"
    and r': "r' = noteSessionLocked c req (Some l) reports r1"
    using pick_result [OF pick d assms(1)] by auto
  from granted_takes [OF g gr] show ?thesis
    unfolding r' takes_backend_def takes_peer_def reports_def by (auto split: if_splits)
qed

text \<open>C2. A lease is always a slot that was free. Whatever stage of the pick decided (preference list,
  scores, session rendezvous, local first, most-free peer), a granted lease is either on a healthy
  local backend of an admitting model that the request neither excludes nor pins away from, with fewer
  requests in flight than slots, and that backend is acquired exactly once; or on a peer whose
  fresh report lists the model with a healthy backend, that is not excluded, not pinned away from and not
  under a standing refusal, with room left after its own busy slots and this router's forwards
  that the report cannot reflect yet, and exactly one reservation is added. A forwarded request is
  never sent on to a peer.\<close>

theorem pick_takes_a_free_slot:
  assumes "c_Self c \<noteq> ''''" and "distinct (map r_Node remote)"
    and "Pick c req remote now r = (Inr l, r')"
  shows "(\<exists>b. takes_backend c req now r l r' b) \<or> (\<exists>rep. takes_peer c req remote now r l r' rep)"
  using assms by (rule pick_takes)

definition sample_router_config :: config where
  "sample_router_config = \<lparr>c_Self = ''gb1'', c_StaleAfter = 5 * second, c_LoadStaleAfter = 5 * second,
     c_QueueMax = 1, c_QueueTimeout = 30 * second, c_Performance = False, c_LocalScore = None,
     c_LocalImages = None, c_LocalKVShare = None\<rparr>"

definition sample_request :: "string \<Rightarrow> request" where
  "sample_request m = \<lparr>q_Model = m, q_Host = '''', q_Prefer = [], q_Exclude = {}, q_Forwarded = False,
     q_QueueBudget = 0, q_EstK = 1, q_SessionKey = 0, q_Images = False, q_imgWant = imgAny\<rparr>"

definition sample_report :: "string \<Rightarrow> int \<Rightarrow> report" where
  "sample_report node busy = \<lparr>r_Node = node, r_APIAddr = node, r_Received = 100, r_Sent = 90, r_RTT = 10,
     r_Models = [zero_ModelCapacity\<lparr>mc_Name := ''m'', mc_Slots := 2, mc_Busy := busy,
       mc_HealthyBackends := 1\<rparr>]\<rparr>"

lemma sample_fields [simp]:
  "c_Self sample_router_config = ''gb1''" "q_Model (sample_request m) = m" "q_Host (sample_request m) = ''''"
  "\<not> q_Forwarded (sample_request m)" "\<not> q_Images (sample_request m)" "q_imgWant (sample_request m) = imgAny"
  "r_Node (sample_report n b) = n"
  by (simp_all add: sample_router_config_def sample_request_def sample_report_def)

text \<open>A router without local backends: every request goes to a peer.\<close>

definition sample_gateway :: router where
  "sample_gateway = New (\<lambda>_. 0) (\<lambda>_. sample_backend 0 StateStarting 0) (\<lambda>_. None)"

lemmas router_eval = Pick_def pickLocked_def pickWithReportsLocked_def pick_guards_def pick_hosts_def
  pick_plain_def slot_result_def pickPeerLocked_def peerFreeLocked_def exists_remote_def pin_listed_def
  report_Model_def Fresh_def reservedLocked_def AsOf_def noteSessionLocked_def sample_router_config_def
  sample_request_def sample_report_def sample_gateway_def New_def zero_ModelCapacity_def second_def
  tsub_def min_duration_def max_duration_def is_zero_def zero_time_def peerLeaseLocked_def

lemma sample_pick:
  "\<exists>l r'. Pick sample_router_config (sample_request ''m'') [sample_report ''gb2'' 1] 110 sample_gateway = (Inr l, r')"
  by (simp add: router_eval Let_def)

theorem pick_takes_a_free_slot_witness:
  "\<exists>l r'. Pick sample_router_config (sample_request ''m'') [sample_report ''gb2'' 1] 110 sample_gateway = (Inr l, r') \<and>
     ((\<exists>b. takes_backend sample_router_config (sample_request ''m'') 110 sample_gateway l r' b) \<or>
      (\<exists>rep. takes_peer sample_router_config (sample_request ''m'') [sample_report ''gb2'' 1] 110 sample_gateway l r' rep))"
proof -
  obtain l r' where p: "Pick sample_router_config (sample_request ''m'') [sample_report ''gb2'' 1] 110 sample_gateway = (Inr l, r')"
    using sample_pick by blast
  from pick_takes_a_free_slot [OF _ _ p] p show ?thesis
    by (simp add: sample_router_config_def)
qed



lemma pick_hosts_error:
  "fst (pick_hosts c req backends elig reports now r) = Inl e \<Longrightarrow> e = ErrNoFreeSlot"
  by (auto simp: pick_hosts_def slot_result_def split: prod.splits option.splits if_splits bool.splits)

lemma pick_error_guards:
  assumes "e \<noteq> ErrNoFreeSlot"
  shows "fst (pickWithReportsLocked c req reports now r) = Inl e \<longleftrightarrow> pick_guards c req reports now r = Inl e"
proof (cases "pick_guards c req reports now r")
  case (Inr x)
  obtain req' backends elig where x: "x = (req', backends, elig)" by (cases x)
  have "fst (pickWithReportsLocked c req reports now r) = fst (pick_hosts c req' backends elig reports now r)"
    using Inr x by (simp add: pickWithReportsLocked_def split: prod.split)
  then show ?thesis using assms pick_hosts_error Inr by fastforce
qed (simp add: pickWithReportsLocked_def)

definition model_missing :: "config \<Rightarrow> request \<Rightarrow> report list \<Rightarrow> router \<Rightarrow> bool" where
  "model_missing c req reports r \<longleftrightarrow> rt_models r (q_Model req) = None \<and>
     (\<forall>rep\<in>set reports. r_Node rep = c_Self c \<or> report_Model rep (q_Model req) = None)"

definition pin_unserved :: "config \<Rightarrow> request \<Rightarrow> report list \<Rightarrow> router \<Rightarrow> bool" where
  "pin_unserved c req reports r \<longleftrightarrow> q_Host req \<noteq> '''' \<and>
     (if q_Host req = c_Self c then rt_models r (q_Model req) = None
      else \<forall>rep\<in>set reports. r_Node rep = q_Host req \<longrightarrow> report_Model rep (q_Model req) = None)"

definition image_evidence :: "config \<Rightarrow> request \<Rightarrow> report list \<Rightarrow> gotime \<Rightarrow> router \<Rightarrow> imageClass set" where
  "image_evidence c req reports now r =
     set (noted_classes c req (\<exists>bs adm. rt_models r (q_Model req) = Some (bs, adm) \<and> anyHealthy r bs) reports now)"

lemma classOf_not_any [simp]: "classOf i \<noteq> imgAny" "localImageClass c m \<noteq> imgAny"
  by (auto simp: classOf_def localImageClass_def split: option.split bool.split prod.splits)

lemma image_evidence_not_any: "imgAny \<notin> set (noted_classes c req h reports now)"
  using classOf_not_any [symmetric]
  by (auto simp: noted_classes_def simp del: classOf_not_any split: if_splits option.splits)

lemma only_no: "imgAny \<notin> S \<Longrightarrow> S = {imgNo} \<longleftrightarrow> S \<noteq> {} \<and> imgYes \<notin> S \<and> imgUnknown \<notin> S"
proof
  assume S: "imgAny \<notin> S" "S \<noteq> {} \<and> imgYes \<notin> S \<and> imgUnknown \<notin> S"
  then have "x = imgNo" if "x \<in> S" for x using that by (cases x) auto
  with S show "S = {imgNo}" by blast
qed auto

lemma imageClass_result:
  "imageClassLocked c req h reports now =
     (if imgYes \<in> set (noted_classes c req h reports now) then Inr imgYes
      else if set (noted_classes c req h reports now) = {imgNo} then Inl ErrNoImageInput
      else Inr imgUnknown)"
proof -
  let ?n = "noted_classes c req h reports now"
  have "set ?n = {imgNo} \<longleftrightarrow> ?n \<noteq> [] \<and> imgYes \<notin> set ?n \<and> imgUnknown \<notin> set ?n"
    using only_no [OF image_evidence_not_any [of c req h reports now]] by simp
  then show ?thesis by (auto simp: imageClassLocked_def Let_def)
qed

lemma pick_guards_cases:
  "pick_guards c req reports now r =
     (if model_missing c req reports r then Inl ErrModelNotFound
      else if pin_unserved c req reports r then Inl ErrHostNotServing
      else
        let backends = (case rt_models r (q_Model req) of None \<Rightarrow> [] | Some (bs, _) \<Rightarrow> bs);
            admits = (case rt_models r (q_Model req) of None \<Rightarrow> False | Some (_, adm) \<Rightarrow> adm)
        in if q_Images req \<and> \<not> q_Forwarded req then
             (if imgYes \<in> image_evidence c req reports now r
              then Inr (req\<lparr>q_imgWant := imgYes\<rparr>, backends, admits \<and> localImageClass c (q_Model req) = imgYes)
              else if image_evidence c req reports now r = {imgNo} then Inl ErrNoImageInput
              else Inr (req\<lparr>q_imgWant := imgUnknown\<rparr>, backends, admits \<and> localImageClass c (q_Model req) = imgUnknown))
           else Inr (req, backends, admits))"
proof -
  have m: "model_missing c req reports r \<longleftrightarrow> rt_models r (q_Model req) = None \<and> \<not> exists_remote c req reports"
    by (auto simp: model_missing_def exists_remote_def list_ex_iff)
  have u: "pin_unserved c req reports r \<longleftrightarrow> q_Host req \<noteq> '''' \<and>
      (if q_Host req = c_Self c then rt_models r (q_Model req) = None else \<not> pin_listed c req reports)"
    by (auto simp: pin_unserved_def pin_listed_def list_ex_iff)
  define E where "E = image_evidence c req reports now r"
  show ?thesis
  proof (cases "rt_models r (q_Model req)")
    case None
    then have "set (noted_classes c req False reports now) = E" by (simp add: image_evidence_def E_def)
    then show ?thesis
      unfolding pick_guards_def m u E_def [symmetric] using None
      by (cases "imgYes \<in> E"; cases "E = {imgNo}") (simp_all add: Let_def imageClass_result)
  next
    case (Some a)
    obtain bs adm where a: "a = (bs, adm)" by (cases a)
    have "set (noted_classes c req (anyHealthy r bs) reports now) = E"
      using Some a by (simp add: image_evidence_def E_def)
    then show ?thesis
      unfolding pick_guards_def m u E_def [symmetric] using Some a
      by (cases "imgYes \<in> E"; cases "E = {imgNo}") (simp_all add: Let_def imageClass_result)
  qed
qed


definition image_fit :: "imageClass set \<Rightarrow> imageClass \<Rightarrow> bool" where
  "image_fit evidence x \<longleftrightarrow> x \<noteq> imgNo \<and> (imgYes \<in> evidence \<longrightarrow> x = imgYes)"

lemma granted_images:
  assumes "granted c req' backends elig reports now r l r1"
  shows "elig \<and> l_backend l \<noteq> None \<or>
    l_backend l = None \<and> (\<exists>rep\<in>set reports. r_Node rep = t_Node (l_target l) \<and>
      (\<exists>mc. report_Model rep (q_Model req') = Some mc \<and>
        (q_imgWant req' = imgAny \<or> classOf (mc_Images mc) = q_imgWant req')))"
  using assms unfolding granted_def local_grant_def peer_grant_def peer_room_iff by force



section \<open>Sessions\<close>

definition session_hosts :: "config \<Rightarrow> request \<Rightarrow> nat list \<Rightarrow> bool \<Rightarrow> report list \<Rightarrow> gotime \<Rightarrow> router \<Rightarrow> string set" where
  "session_hosts c req backends elig reports now r =
     (if elig \<and> localHasFree c req now r backends then {c_Self c} else {}) \<union>
     r_Node ` {rep \<in> set reports. peer_room c req now r rep}"

lemma pickSession_greatest:
  assumes d: "distinct (map r_Node reports)"
    and cold: "\<not> wp_ok (warmLocked c req (anyHealthy r backends) reports now r)"
    and p: "pickSessionLocked c req backends elig reports now r = (Some l, r')"
  shows "t_Node (l_target l) \<in> session_hosts c req backends elig reports now r \<and>
    (\<forall>n\<in>session_hosts c req backends elig reports now r.
       rendezvous (q_SessionKey req) n \<le> rendezvous (q_SessionKey req) (t_Node (l_target l)))"
proof -
  let ?w = "host_weight c (q_SessionKey req)"
  obtain as r1 where ans: "peer_answers c req reports now r = (as, r1)" by fastforce
  have as: "as = map (\<lambda>rep. (rep, peer_info c req rep now r)) reports"
    using peer_answers_pure [OF order_refl d, of c req now r] ans by auto
  define hs where "hs = (if elig \<and> localHasFree c req now r backends then [Inl () :: unit + report] else [])"
  define hosts where "hosts = hs @ map (\<lambda>a. Inr (fst a)) (roomy as)"
  have start: "(if elig \<and> localHasFree c req now r backends
      then Some (Inl (), rendezvous (q_SessionKey req) (c_Self c)) else None) =
      map_option (\<lambda>h. (h, ?w h)) (first_max ?w hs)"
    by (simp add: hs_def)
  have weights: "?w ` set hosts = rendezvous (q_SessionKey req) ` session_hosts c req backends elig reports now r"
    unfolding hosts_def as roomy_answers hs_def session_hosts_def by (auto simp: image_iff)
  have res: "(Some l, r') = (case map_option (\<lambda>h. (h, ?w h)) (first_max ?w hosts) of
         None \<Rightarrow> (None, r1)
       | Some (Inl _, _) \<Rightarrow> pickLocalLocked c req backends now r1
       | Some (Inr rep, _) \<Rightarrow> (case peerLeaseLocked rep (q_Model req) now r1 of (l, r) \<Rightarrow> (Some l, r)))"
    using p unfolding pickSessionLocked_def Let_def if_not_P [OF cold]
    by (simp only: prod.case option.case ans start session_scan_first_max hosts_def)
  then obtain h where h: "first_max ?w hosts = Some h" by (cases "first_max ?w hosts") auto
  have h': "h \<in> set hosts" "\<forall>y\<in>set hosts. ?w y \<le> ?w h"
    using first_max_greatest [OF h] by auto
  have node: "t_Node (l_target l) = (case h of Inl _ \<Rightarrow> c_Self c | Inr rep \<Rightarrow> r_Node rep)"
  proof (cases h)
    case (Inl u)
    then have "pickLocalLocked c req backends now r1 = (Some l, r')" using res h by simp
    from pickLocal_result [OF this, of reports] Inl show ?thesis by (auto simp: local_grant_def)
  next
    case (Inr rep)
    then show ?thesis using res h by (auto simp: peerLeaseLocked_def Let_def)
  qed
  have "t_Node (l_target l) \<in> session_hosts c req backends elig reports now r"
    using h'(1) unfolding node hosts_def as roomy_answers hs_def session_hosts_def
    by (auto split: if_splits)
  moreover have "?w h = rendezvous (q_SessionKey req) (t_Node (l_target l))"
    by (simp add: node host_weight_def)
  ultimately show ?thesis
    using h'(2) weights by (metis (no_types, lifting) image_iff)
qed


section \<open>Instances\<close>


definition sample_peer_lease :: lease where
  "sample_peer_lease = \<lparr>l_id = 1,
     l_target = \<lparr>t_Local = False, t_Node = ''gb2'', t_BackendID = '''', t_Addr = ''gb2''\<rparr>,
     l_backend = None, l_key = (''gb2'', ''m''), l_res = 0\<rparr>"



end
