(* ===== verification/RouteQueue.thy ===== *)
theory RouteQueue
  imports RouterPicks
begin

text \<open>
  The origin queue of the router (\<open>internal/route/queue.go\<close>): waiting for a slot, the dispatch of waiting
  requests, and the ways a caller stops waiting. A section under the router mutex is one function. The
  order in which Go iterates over the map of queues is an argument: \<open>orders k\<close> is the order of the
  \<open>k\<close>-th pass of a dispatch. The dispatch loop is a partial function whose termination is proved.
\<close>

section \<open>Definitions\<close>

definition removeWaiterLocked :: "nat \<Rightarrow> router \<Rightarrow> router" where
  "removeWaiterLocked w r =
     (case rt_waiters r w of
        None \<Rightarrow> r
      | Some x \<Rightarrow>
          let m = q_Model (w_req x)
          in r\<lparr>rt_queues := (rt_queues r)(m := remove1 w (rt_queues r m))\<rparr>)"

definition completeLocked :: "nat \<Rightarrow> route_error + lease \<Rightarrow> router \<Rightarrow> router" where
  "completeLocked w res r =
     (case rt_waiters r w of
        None \<Rightarrow> r
      | Some x \<Rightarrow>
          let r = r\<lparr>rt_waiters := (rt_waiters r)(w \<mapsto> x\<lparr>w_done := True\<rparr>)\<rparr>;
              r = removeWaiterLocked w r
          in r\<lparr>rt_waiters := (rt_waiters r)(w \<mapsto> x\<lparr>w_done := True, w_result := Some res\<rparr>)\<rparr>)"

text \<open>One model's waiters, in arrival order. The first flag says that an unpinned request found no slot, the
  second that an unpinned request with an image did; the third is \<open>progressed\<close>.\<close>

fun scan_waiters :: "config \<Rightarrow> report list \<Rightarrow> gotime \<Rightarrow> nat list \<Rightarrow> bool \<Rightarrow> bool \<Rightarrow> bool \<Rightarrow> router \<Rightarrow> bool \<times> router" where
  "scan_waiters c reports now [] unpinnedFull imagesFull progressed r = (progressed, r)"
| "scan_waiters c reports now (w # ws) unpinnedFull imagesFull progressed r =
     (case rt_waiters r w of
        None \<Rightarrow> scan_waiters c reports now ws unpinnedFull imagesFull progressed r
      | Some x \<Rightarrow>
          let req = w_req x in
          if q_Host req = '''' \<and> (unpinnedFull \<or> imagesFull \<and> q_Images req)
          then scan_waiters c reports now ws unpinnedFull imagesFull progressed r
          else
            (case pickWithReportsLocked c req reports now r of
               (Inr l, r) \<Rightarrow>
                 scan_waiters c reports now ws unpinnedFull imagesFull True (completeLocked w (Inr l) r)
             | (Inl e, r) \<Rightarrow>
                 if e = ErrModelNotFound \<or> e = ErrHostNotServing \<or> e = ErrNoImageInput
                 then scan_waiters c reports now ws unpinnedFull imagesFull True (completeLocked w (Inl e) r)
                 else if q_Host req = '''' \<and> q_Images req
                 then scan_waiters c reports now ws unpinnedFull True progressed r
                 else if q_Host req = ''''
                 then scan_waiters c reports now ws True imagesFull progressed r
                 else scan_waiters c reports now ws unpinnedFull imagesFull progressed r))"

fun dispatch_pass :: "config \<Rightarrow> report list \<Rightarrow> gotime \<Rightarrow> string list \<Rightarrow> bool \<Rightarrow> router \<Rightarrow> bool \<times> router" where
  "dispatch_pass c reports now [] progressed r = (progressed, r)"
| "dispatch_pass c reports now (m # ms) progressed r =
     (case scan_waiters c reports now (rt_queues r m) False False progressed r of
        (progressed, r) \<Rightarrow> dispatch_pass c reports now ms progressed r)"

partial_function (option) dispatch_loop ::
    "config \<Rightarrow> report list \<Rightarrow> gotime \<Rightarrow> (nat \<Rightarrow> string list) \<Rightarrow> nat \<Rightarrow> router \<Rightarrow> router option" where
  "dispatch_loop c reports now orders k r =
     (case dispatch_pass c reports now (orders k) False r of
        (progressed, r') \<Rightarrow>
          if progressed then dispatch_loop c reports now orders (Suc k) r' else Some r')"

declare dispatch_loop.simps [code]

definition dispatchLocked ::
    "config \<Rightarrow> report list \<Rightarrow> gotime \<Rightarrow> (nat \<Rightarrow> string list) \<Rightarrow> router \<Rightarrow> router option" where
  "dispatchLocked c remote now orders r =
     (if orders 0 = [] then Some r else dispatch_loop c remote now orders 0 r)"

definition Wake :: "config \<Rightarrow> report list \<Rightarrow> gotime \<Rightarrow> (nat \<Rightarrow> string list) \<Rightarrow> router \<Rightarrow> router option" where
  "Wake c remote now orders r = dispatchLocked c remote now orders r"

text \<open>\<open>Lease.Release\<close>: the slot is given back and the queue dispatched, once.\<close>

definition lease_Release ::
    "config \<Rightarrow> report list \<Rightarrow> gotime \<Rightarrow> (nat \<Rightarrow> string list) \<Rightarrow> lease \<Rightarrow> router \<Rightarrow> router option" where
  "lease_Release c remote now orders l r =
     (if l_id l \<in> rt_released r then Some r
      else case release_slot l r of
             None \<Rightarrow> None
           | Some r \<Rightarrow> Wake c remote now orders r)"

definition QueueLen :: "router \<Rightarrow> string \<Rightarrow> int" where
  "QueueLen r model = int (length (rt_queues r model))"

definition queued_request :: "request \<Rightarrow> request" where
  "queued_request req =
     \<lparr>q_Model = q_Model req, q_Host = q_Host req, q_Prefer = q_Prefer req, q_Exclude = {},
      q_Forwarded = False, q_QueueBudget = 0, q_EstK = q_EstK req, q_SessionKey = q_SessionKey req,
      q_Images = q_Images req, q_imgWant = imgAny\<rparr>"

text \<open>\<open>Acquire\<close> up to the point where it blocks.\<close>

datatype acquired = Acquired lease | AcquireFailed route_error | Waiting nat

definition acquire_start :: "config \<Rightarrow> request \<Rightarrow> report list \<Rightarrow> gotime \<Rightarrow> router \<Rightarrow> acquired \<times> router" where
  "acquire_start c req remote now r =
     (case pickLocked c req remote now r of
        (Inr l, r) \<Rightarrow> (Acquired l, r)
      | (Inl e, r) \<Rightarrow>
          if e \<noteq> ErrNoFreeSlot \<or> q_Forwarded req then (AcquireFailed e, r)
          else if q_QueueBudget req < 0 then (AcquireFailed ErrQueueTimeout, r)
          else if c_QueueMax c \<le> 0 \<or> int (length (rt_queues r (q_Model req))) \<ge> c_QueueMax c
          then (AcquireFailed ErrQueueFull, r)
          else
            let w = rt_next r;
                x = \<lparr>w_req = queued_request req, w_result = None, w_done = False\<rparr>
            in (Waiting w,
                r\<lparr>rt_waiters := (rt_waiters r)(w \<mapsto> x), rt_next := rt_next r + 1,
                  rt_queues := (rt_queues r)(q_Model req := rt_queues r (q_Model req) @ [w])\<rparr>))"

definition wait_budget :: "config \<Rightarrow> request \<Rightarrow> duration" where
  "wait_budget c req = (if q_QueueBudget req \<le> 0 then c_QueueTimeout c else q_QueueBudget req)"

text \<open>Receiving from the result channel empties it; \<open>None\<close> is a channel that would block.\<close>

definition receive :: "nat \<Rightarrow> router \<Rightarrow> ((route_error + lease) \<times> router) option" where
  "receive w r =
     (case rt_waiters r w of
        None \<Rightarrow> None
      | Some x \<Rightarrow>
          map_option (\<lambda>res. (res, r\<lparr>rt_waiters := (rt_waiters r)(w \<mapsto> x\<lparr>w_result := None\<rparr>)\<rparr>)) (w_result x))"

text \<open>\<open>Inl ()\<close> is a waiter that left before it was dispatched.\<close>

definition leave :: "nat \<Rightarrow> router \<Rightarrow> ((unit + route_error + lease) \<times> router) option" where
  "leave w r =
     (case rt_waiters r w of
        None \<Rightarrow> None
      | Some x \<Rightarrow>
          if \<not> w_done x
          then Some (Inl (), removeWaiterLocked w (r\<lparr>rt_waiters := (rt_waiters r)(w \<mapsto> x\<lparr>w_done := True\<rparr>)\<rparr>))
          else map_option (\<lambda>(res, r). (Inr res, r)) (receive w r))"

text \<open>The three ways a blocked \<open>Acquire\<close> returns: a result, the timer, the context.\<close>

definition acquire_result :: "nat \<Rightarrow> router \<Rightarrow> ((route_error + lease) \<times> router) option" where
  "acquire_result w r = receive w r"

definition acquire_timeout :: "nat \<Rightarrow> router \<Rightarrow> ((route_error + lease) \<times> router) option" where
  "acquire_timeout w r =
     map_option (\<lambda>(x, r). case x of Inl _ \<Rightarrow> (Inl ErrQueueTimeout, r) | Inr res \<Rightarrow> (res, r)) (leave w r)"

definition acquire_cancelled :: "config \<Rightarrow> report list \<Rightarrow> gotime \<Rightarrow> (nat \<Rightarrow> string list) \<Rightarrow> nat \<Rightarrow> router \<Rightarrow>
    ((route_error + lease) \<times> router) option" where
  "acquire_cancelled c remote now orders w r =
     (case leave w r of
        None \<Rightarrow> None
      | Some (Inr (Inr l), r) \<Rightarrow>
          map_option (\<lambda>r. (Inl ErrContext, r)) (lease_Release c remote now orders l r)
      | Some (_, r) \<Rightarrow> Some (Inl ErrContext, r))"

section \<open>Picks and the queues\<close>

lemma pick_keeps_queues:
  assumes "pickWithReportsLocked c req reports now r = (res, r')"
    and "distinct (map r_Node reports)" and "c_Self c \<noteq> ''''"
  shows "rt_queues r' = rt_queues r \<and> rt_waiters r' = rt_waiters r \<and> rt_models r' = rt_models r \<and>
    rt_released r' = rt_released r \<and> rt_next r \<le> rt_next r'"
proof (cases res)
  case (Inl e)
  then show ?thesis using pick_result [OF assms] by (simp add: untaken_def same_base_def)
next
  case (Inr l)
  then obtain req' backends elig r1 where g: "granted c req' backends elig reports now r l r1"
    and r': "r' = noteSessionLocked c req (Some l) reports r1"
    using pick_result [OF assms] by auto
  have "same_base reports (q_Model req') r r1" "rt_next r \<le> rt_next r1"
    using g by (auto simp: granted_def local_grant_def peer_grant_def)
  then show ?thesis by (simp add: r' same_base_def)
qed

text \<open>Whether a pick succeeds depends only on the room there is.\<close>

definition pick_succeeds :: "config \<Rightarrow> request \<Rightarrow> report list \<Rightarrow> gotime \<Rightarrow> router \<Rightarrow> bool" where
  "pick_succeeds c req reports now r \<longleftrightarrow> (\<exists>l. fst (pickWithReportsLocked c req reports now r) = Inr l)"

lemma granted_room: "granted c req backends elig reports now r l r1 \<Longrightarrow> room c req backends elig reports now r"
  unfolding granted_def room_def local_grant_def peer_grant_def localHasFree_def list_ex_iff by blast

lemma pick_succeeds_iff:
  assumes "distinct (map r_Node reports)" and "c_Self c \<noteq> ''''"
  shows "pick_succeeds c req reports now r \<longleftrightarrow>
    (\<exists>req' backends elig. pick_guards c req reports now r = Inr (req', backends, elig) \<and>
       room c req' backends elig reports now r)"
proof -
  obtain res r' where p: "pickWithReportsLocked c req reports now r = (res, r')" by fastforce
  show ?thesis
  proof (cases res)
    case (Inl e)
    then show ?thesis using pick_result [OF p assms] by (auto simp: pick_succeeds_def p)
  next
    case (Inr l)
    then obtain req' backends elig r1 where "pick_guards c req reports now r = Inr (req', backends, elig)"
      and "granted c req' backends elig reports now r l r1"
      using pick_result [OF p assms] by auto
    with Inr granted_room show ?thesis by (auto simp: pick_succeeds_def p)
  qed
qed

lemma untaken_other:
  assumes "untaken reports m r r1" and "distinct (map r_Node reports)" and "rep \<in> set reports"
  shows "peer_room c req now r1 rep \<longleftrightarrow> peer_room c req now r rep"
proof (cases "m = q_Model req")
  case False
  then have "rt_refused r1 (n, q_Model req) = rt_refused r (n, q_Model req)" for n
    using assms(1) unfolding untaken_def same_base_def lifted_def by (metis prod.inject)
  moreover have "reservedLocked r1 = reservedLocked r"
    using assms(1) by (simp add: untaken_def reservedLocked_def fun_eq_iff)
  ultimately show ?thesis by (simp add: peer_room_iff)
qed (use assms peer_room_untaken in blast)

lemma pick_guards_untaken:
  assumes "untaken reports m r r1"
  shows "pick_guards c req reports' now r1 = pick_guards c req reports' now r"
proof -
  have "anyHealthy r1 = anyHealthy r" "rt_models r1 = rt_models r"
    using assms by (simp_all add: untaken_def same_base_def anyHealthy_def fun_eq_iff)
  then show ?thesis unfolding pick_guards_def by (simp only:)
qed

lemma room_untaken_other:
  "untaken reports m r r1 \<Longrightarrow> distinct (map r_Node reports) \<Longrightarrow>
   room c req backends elig reports now r1 \<longleftrightarrow> room c req backends elig reports now r"
  by (auto simp: room_def untaken_other)
    (simp_all add: untaken_def localHasFree_def local_usable_def local_free_def)

lemma pick_succeeds_untaken:
  "untaken reports m r r1 \<Longrightarrow> distinct (map r_Node reports) \<Longrightarrow> c_Self c \<noteq> '''' \<Longrightarrow>
   pick_succeeds c req reports now r1 \<longleftrightarrow> pick_succeeds c req reports now r"
  by (simp add: pick_succeeds_iff pick_guards_untaken room_untaken_other)

text \<open>A queued request: no exclusions, not a forward, no image class yet.\<close>

definition plain_request :: "request \<Rightarrow> bool" where
  "plain_request req \<longleftrightarrow> q_Exclude req = {} \<and> \<not> q_Forwarded req \<and> q_imgWant req = imgAny"

lemma queued_plain: "plain_request (queued_request req)"
  by (simp add: plain_request_def queued_request_def)

text \<open>An unpinned request that finds no slot speaks for every unpinned request behind it: for all of them
  when it carries no image, for those with an image when it carries one.\<close>

lemma refusal_covers:
  assumes d: "distinct (map r_Node reports)" and self: "c_Self c \<noteq> ''''"
    and "plain_request req1" and "plain_request req2" and m: "q_Model req2 = q_Model req1"
    and h: "q_Host req1 = ''''" "q_Host req2 = ''''"
    and img: "\<not> q_Images req1 \<or> q_Images req2"
    and no: "\<not> pick_succeeds c req1 reports now r"
  shows "\<not> pick_succeeds c req2 reports now r"
proof
  assume "pick_succeeds c req2 reports now r"
  then obtain req' backends elig where g2: "pick_guards c req2 reports now r = Inr (req', backends, elig)"
    and rm: "room c req' backends elig reports now r"
    using pick_succeeds_iff [OF d self] by blast
  have p: "q_Exclude req1 = {}" "q_Exclude req2 = {}" "\<not> q_Forwarded req1" "\<not> q_Forwarded req2"
    "q_imgWant req1 = imgAny" "q_imgWant req2 = imgAny"
    using assms(3,4) by (simp_all add: plain_request_def)
  have same: "model_missing c req1 reports r = model_missing c req2 reports r"
    "pin_unserved c req1 reports r = pin_unserved c req2 reports r"
    "image_evidence c req1 reports now r = image_evidence c req2 reports now r"
    using m h by (simp_all add: model_missing_def pin_unserved_def image_evidence_def noted_classes_def)
  have rooms: "room c (req1\<lparr>q_imgWant := want1\<rparr>) backends elig1 reports now r"
    if "room c (req2\<lparr>q_imgWant := want2\<rparr>) backends elig2 reports now r" "elig2 \<longrightarrow> elig1"
      "want1 = imgAny \<or> want1 = want2" for want1 want2 elig1 elig2
  proof -
    have "localHasFree c (req1\<lparr>q_imgWant := want1\<rparr>) now r backends =
        localHasFree c (req2\<lparr>q_imgWant := want2\<rparr>) now r backends"
      using p by (simp add: localHasFree_def local_usable_def)
    moreover have "peer_room c (req1\<lparr>q_imgWant := want1\<rparr>) now r rep"
      if "peer_room c (req2\<lparr>q_imgWant := want2\<rparr>) now r rep" for rep
      using that \<open>want1 = imgAny \<or> want1 = want2\<close> p m h unfolding peer_room_iff by auto
    ultimately show ?thesis
      using that p m h by (auto simp: room_def)
  qed
  have ok: "\<not> model_missing c req2 reports r" "\<not> pin_unserved c req2 reports r"
    using g2 by (auto simp: pick_guards_cases split: if_splits)
  obtain want where w: "req' = req2\<lparr>q_imgWant := want\<rparr>"
    using pick_guards_request [OF g2] by blast
  have "\<exists>want1 elig1. pick_guards c req1 reports now r = Inr (req1\<lparr>q_imgWant := want1\<rparr>, backends, elig1) \<and>
      (elig \<longrightarrow> elig1) \<and> (want1 = imgAny \<or> want1 = want)"
  proof (cases "q_Images req1")
    case False
    have "req1 = req1\<lparr>q_imgWant := imgAny\<rparr>" using p by simp
    then show ?thesis
      using g2 ok same p m False
      by (auto simp: pick_guards_cases Let_def split: if_splits intro!: exI [of _ imgAny])
  next
    case True
    then have "q_Images req2" using img by simp
    define E where "E = image_evidence c req2 reports now r"
    define bs where "bs = (case rt_models r (q_Model req1) of None \<Rightarrow> [] | Some (bs, _) \<Rightarrow> bs)"
    define adm where "adm = (case rt_models r (q_Model req1) of None \<Rightarrow> False | Some (_, adm) \<Rightarrow> adm)"
    define w where "w = (if imgYes \<in> E then imgYes else imgUnknown)"
    have ne: "imgYes \<in> E \<or> E \<noteq> {imgNo}"
      using g2 ok \<open>q_Images req2\<close> p by (auto simp: pick_guards_cases E_def Let_def split: if_splits)
    have "pick_guards c req2 reports now r = Inr (req2\<lparr>q_imgWant := w\<rparr>, bs, adm \<and> localImageClass c (q_Model req1) = w)"
      "pick_guards c req1 reports now r = Inr (req1\<lparr>q_imgWant := w\<rparr>, bs, adm \<and> localImageClass c (q_Model req1) = w)"
      unfolding pick_guards_cases same m E_def [symmetric] bs_def [symmetric] adm_def [symmetric] w_def Let_def
      using ne ok True \<open>q_Images req2\<close> p by (cases "imgYes \<in> E"; simp)+
    moreover have "want = w"
    proof -
      have "q_imgWant req' = w" using g2 calculation(1) by auto
      then show ?thesis using \<open>req' = req2\<lparr>q_imgWant := want\<rparr>\<close> by simp
    qed
    ultimately show ?thesis
      using g2 by auto
  qed
  then obtain want1 elig1 where "pick_guards c req1 reports now r = Inr (req1\<lparr>q_imgWant := want1\<rparr>, backends, elig1)"
    and "room c (req1\<lparr>q_imgWant := want1\<rparr>) backends elig1 reports now r"
    using rooms rm w by blast
  then show False
    using no pick_succeeds_iff [OF d self] by blast
qed

section \<open>Well-formed queues\<close>

definition queue_ok :: "router \<Rightarrow> bool" where
  "queue_ok r \<longleftrightarrow>
     (\<forall>m. distinct (rt_queues r m)) \<and>
     (\<forall>m. \<forall>w\<in>set (rt_queues r m). \<exists>x. rt_waiters r w = Some x \<and> q_Model (w_req x) = m \<and> \<not> w_done x \<and>
        w_result x = None \<and> plain_request (w_req x)) \<and>
     (\<forall>w x. rt_waiters r w = Some x \<longrightarrow> w < rt_next r \<and> (w_done x \<or> w \<in> set (rt_queues r (q_Model (w_req x)))))"

definition req_of :: "router \<Rightarrow> nat \<Rightarrow> request" where
  "req_of r w = w_req (the (rt_waiters r w))"

text \<open>From one state to another the waiters of a set got their result; nothing else about waiters changed.\<close>

definition completes :: "nat set \<Rightarrow> router \<Rightarrow> router \<Rightarrow> bool" where
  "completes C r r' \<longleftrightarrow>
     (\<forall>m. rt_queues r' m = filter (\<lambda>w. w \<notin> C) (rt_queues r m)) \<and>
     (\<forall>w. w \<notin> C \<longrightarrow> rt_waiters r' w = rt_waiters r w) \<and>
     (\<forall>w\<in>C. \<exists>x res. rt_waiters r w = Some x \<and> \<not> w_done x \<and>
        rt_waiters r' w = Some (x\<lparr>w_done := True, w_result := Some res\<rparr>)) \<and>
     rt_next r \<le> rt_next r'"

lemma completes_refl: "rt_queues r' = rt_queues r \<Longrightarrow> rt_waiters r' = rt_waiters r \<Longrightarrow> rt_next r \<le> rt_next r' \<Longrightarrow>
    completes {} r r'"
  by (simp add: completes_def)

lemma completes_trans:
  assumes "completes C r r1" and "completes D r1 r2"
  shows "completes (C \<union> D) r r2"
proof -
  have "D \<inter> C = {}"
    using assms by (fastforce simp: completes_def)
  then show ?thesis
    using assms unfolding completes_def by (auto simp: conj_commute) (metis UnE disjoint_iff)+
qed

lemma completes_req: "completes C r r' \<Longrightarrow> req_of r' w = req_of r w"
  by (cases "w \<in> C") (force simp: completes_def req_of_def)+

lemma completes_ok:
  assumes "completes C r r'" and "queue_ok r"
  shows "queue_ok r'"
proof -
  have "\<exists>x. rt_waiters r' w = Some x \<and> q_Model (w_req x) = m \<and> \<not> w_done x \<and> w_result x = None \<and> plain_request (w_req x)"
    if "w \<in> set (rt_queues r' m)" for m w
  proof -
    have "w \<in> set (rt_queues r m)" "rt_waiters r' w = rt_waiters r w"
      using that assms(1) by (auto simp: completes_def)
    then show ?thesis using assms(2) by (simp add: queue_ok_def)
  qed
  moreover have "w < rt_next r' \<and> (w_done x \<or> w \<in> set (rt_queues r' (q_Model (w_req x))))"
    if "rt_waiters r' w = Some x" for w x
  proof (cases "w \<in> C")
    case True
    then obtain y res where y: "rt_waiters r w = Some y"
      "rt_waiters r' w = Some (y\<lparr>w_done := True, w_result := Some res\<rparr>)"
      using assms(1) unfolding completes_def by blast
    then have "rt_waiters r w = Some y" "x = y\<lparr>w_done := True, w_result := Some res\<rparr>"
      using that by simp_all
    moreover have "w < rt_next r" using assms(2) calculation(1) unfolding queue_ok_def by blast
    ultimately show ?thesis using assms(1) by (simp add: completes_def)
  next
    case False
    then have "rt_waiters r w = Some x" using assms(1) that by (simp add: completes_def)
    then have "w < rt_next r" "w_done x \<or> w \<in> set (rt_queues r (q_Model (w_req x)))"
      using assms(2) unfolding queue_ok_def by blast+
    then show ?thesis using assms(1) False by (auto simp: completes_def)
  qed
  moreover have "distinct (rt_queues r' m)" for m
    using assms by (simp add: completes_def queue_ok_def)
  ultimately show ?thesis unfolding queue_ok_def by blast
qed

lemma complete_completes:
  assumes "queue_ok r" and "w \<in> set (rt_queues r m)"
  shows "completes {w} r (completeLocked w res r)"
proof -
  obtain x where x: "rt_waiters r w = Some x" "q_Model (w_req x) = m" "\<not> w_done x"
    using assms unfolding queue_ok_def by blast
  have other: "w \<notin> set (rt_queues r m')" if "m' \<noteq> m" for m'
    using assms(1) x(1,2) that unfolding queue_ok_def by (metis option.inject)
  have "remove1 w (rt_queues r m) = filter (\<lambda>v. v \<noteq> w) (rt_queues r m)"
    using assms(1) unfolding queue_ok_def
    by (auto simp: distinct_remove1_removeAll removeAll_filter_not_eq intro: filter_cong)
  moreover have "filter (\<lambda>v. v \<noteq> w) (rt_queues r m') = rt_queues r m'" if "m' \<noteq> m" for m'
    using other [OF that] by (metis (mono_tags, lifting) filter_True)
  ultimately show ?thesis
    using x by (auto simp: completes_def completeLocked_def removeWaiterLocked_def Let_def)
qed

section \<open>One scan\<close>

definition unpinned :: "router \<Rightarrow> nat \<Rightarrow> bool" where
  "unpinned r w \<longleftrightarrow> q_Host (req_of r w) = ''''"

text \<open>A waiter whose refusal answers another's question.\<close>

definition covers :: "router \<Rightarrow> nat \<Rightarrow> nat \<Rightarrow> bool" where
  "covers r v w \<longleftrightarrow> unpinned r v \<and> unpinned r w \<and> (\<not> q_Images (req_of r v) \<or> q_Images (req_of r w))"

definition in_order :: "router \<Rightarrow> nat set \<Rightarrow> nat list \<Rightarrow> bool" where
  "in_order r C ws \<longleftrightarrow> sorted_wrt (\<lambda>v w. covers r v w \<longrightarrow> w \<in> C \<longrightarrow> v \<in> C) ws"

text \<open>Nothing was handed out: the same picks succeed before and after.\<close>

definition quiet :: "config \<Rightarrow> report list \<Rightarrow> gotime \<Rightarrow> router \<Rightarrow> router \<Rightarrow> bool" where
  "quiet c reports now r r' \<longleftrightarrow>
     (\<forall>req. pick_succeeds c req reports now r' \<longleftrightarrow> pick_succeeds c req reports now r)"

definition flags_ok :: "config \<Rightarrow> report list \<Rightarrow> gotime \<Rightarrow> string \<Rightarrow> bool \<Rightarrow> bool \<Rightarrow> router \<Rightarrow> bool" where
  "flags_ok c reports now m unpinnedFull imagesFull r \<longleftrightarrow>
     (unpinnedFull \<longrightarrow> (\<exists>req. plain_request req \<and> q_Model req = m \<and> q_Host req = '''' \<and> \<not> q_Images req \<and>
        \<not> pick_succeeds c req reports now r)) \<and>
     (imagesFull \<longrightarrow> (\<exists>req. plain_request req \<and> q_Model req = m \<and> q_Host req = '''' \<and> q_Images req \<and>
        \<not> pick_succeeds c req reports now r))"

definition scan_spec :: "config \<Rightarrow> report list \<Rightarrow> gotime \<Rightarrow> string \<Rightarrow> nat list \<Rightarrow> bool \<Rightarrow> bool \<Rightarrow> bool \<Rightarrow> router \<Rightarrow>
    nat set \<Rightarrow> bool \<Rightarrow> router \<Rightarrow> bool" where
  "scan_spec c reports now m ws unpinnedFull imagesFull progressed r C progressed' r' \<longleftrightarrow>
     C \<subseteq> set ws \<and> completes C r r' \<and> (progressed' \<longleftrightarrow> progressed \<or> C \<noteq> {}) \<and> in_order r C ws \<and>
     (unpinnedFull \<longrightarrow> (\<forall>w\<in>C. \<not> unpinned r w)) \<and>
     (imagesFull \<longrightarrow> (\<forall>w\<in>C. \<not> (unpinned r w \<and> q_Images (req_of r w)))) \<and>
     (C = {} \<and> flags_ok c reports now m unpinnedFull imagesFull r \<longrightarrow>
        quiet c reports now r r' \<and> (\<forall>w\<in>set ws. \<not> pick_succeeds c (req_of r w) reports now r))"

lemma scan_spec_skip:
  assumes "scan_spec c reports now m ws uf imf pr r C pr' r'"
    and "q_Host (req_of r w) = '''' \<and> (uf \<or> imf \<and> q_Images (req_of r w))"
    and "w \<notin> set ws" and "plain_request (req_of r w)" "q_Model (req_of r w) = m"
    and d: "distinct (map r_Node reports)" and self: "c_Self c \<noteq> ''''"
  shows "scan_spec c reports now m (w # ws) uf imf pr r C pr' r'"
proof -
  have "v \<notin> C" if "covers r w v" for v
    using assms(1,2) that by (auto simp: scan_spec_def covers_def)
  moreover have "\<not> pick_succeeds c (req_of r w) reports now r" if "flags_ok c reports now m uf imf r"
    using that assms(2,4,5) refusal_covers [OF d self _ assms(4)] unfolding flags_ok_def by metis
  ultimately show ?thesis
    using assms(1) by (auto simp: scan_spec_def in_order_def)
qed

lemma scan_spec_complete:
  assumes q: "queue_ok r" and w: "w \<in> set (rt_queues r m)" "w \<notin> set ws"
    and keep: "rt_queues r1 = rt_queues r" "rt_waiters r1 = rt_waiters r" "rt_next r \<le> rt_next r1"
    and spec: "scan_spec c reports now m ws uf imf True (completeLocked w res r1) C pr' r'"
    and ask: "\<not> (q_Host (req_of r w) = '''' \<and> (uf \<or> imf \<and> q_Images (req_of r w)))"
  shows "scan_spec c reports now m (w # ws) uf imf pr r (insert w C) pr' r'"
proof -
  have q1: "queue_ok r1" using q keep completes_ok [OF completes_refl] by simp
  have c1: "completes {w} r1 (completeLocked w res r1)"
    using complete_completes [OF q1] w keep(1) by simp
  have c: "completes (insert w C) r r'"
    using completes_trans [OF completes_trans [OF completes_refl [OF keep] c1], of C r'] spec
    by (simp add: scan_spec_def)
  have req: "req_of (completeLocked w res r1) = req_of r"
    using completes_req [OF c1] keep(2) by (simp add: fun_eq_iff req_of_def)
  have "in_order r (insert w C) ws"
  proof -
    have "in_order r C ws"
      using spec unfolding scan_spec_def in_order_def covers_def unpinned_def req by blast
    then show ?thesis
      unfolding in_order_def by (rule sorted_wrt_mono_rel [rotated]) (use w(2) in auto)
  qed
  then show ?thesis
    using spec c ask unfolding scan_spec_def in_order_def unpinned_def req by auto
qed

lemma quiet_trans: "quiet c reports now r r1 \<Longrightarrow> quiet c reports now r1 r2 \<Longrightarrow> quiet c reports now r r2"
  by (simp add: quiet_def)

lemma untaken_quiet:
  "untaken reports m r r1 \<Longrightarrow> distinct (map r_Node reports) \<Longrightarrow> c_Self c \<noteq> '''' \<Longrightarrow> quiet c reports now r r1"
  by (simp add: quiet_def pick_succeeds_untaken)

lemma scan_spec_refused:
  assumes "plain_request (req_of r w)" and "q_Model (req_of r w) = m"
    and keep: "rt_queues r1 = rt_queues r" "rt_waiters r1 = rt_waiters r" "rt_next r \<le> rt_next r1"
    and no: "\<not> pick_succeeds c (req_of r w) reports now r" and quiet: "quiet c reports now r r1"
    and spec: "scan_spec c reports now m ws uf' imf' pr r1 C pr' r'"
    and flags: "uf' = (uf \<or> unpinned r w \<and> \<not> q_Images (req_of r w))"
      "imf' = (imf \<or> unpinned r w \<and> q_Images (req_of r w))"
    and w: "w \<notin> set ws"
  shows "scan_spec c reports now m (w # ws) uf imf pr r C pr' r'"
proof -
  have req: "req_of r1 = req_of r" using keep(2) by (simp add: req_of_def fun_eq_iff)
  have c: "completes C r r'"
    using completes_trans [OF completes_refl [OF keep], of C r'] spec by (simp add: scan_spec_def)
  have "v \<notin> C" if "covers r w v" for v
    using spec flags that unfolding scan_spec_def covers_def unpinned_def req by auto
  then have order: "in_order r C (w # ws)"
    using spec w unfolding scan_spec_def in_order_def covers_def unpinned_def req by simp
  have flag: "flags_ok c reports now m uf' imf' r1" if "flags_ok c reports now m uf imf r"
  proof -
    have same: "pick_succeeds c req reports now r1 \<longleftrightarrow> pick_succeeds c req reports now r" for req
      using quiet by (simp add: quiet_def)
    show ?thesis
      using that no assms(1,2) unfolding flags_ok_def flags unpinned_def same by blast
  qed
  have rest: "quiet c reports now r r' \<and> (\<forall>v\<in>set (w # ws). \<not> pick_succeeds c (req_of r v) reports now r)"
    if "C = {} \<and> flags_ok c reports now m uf imf r"
  proof -
    have "quiet c reports now r1 r'" "\<forall>v\<in>set ws. \<not> pick_succeeds c (req_of r v) reports now r1"
      using that flag spec unfolding scan_spec_def req by blast+
    then show ?thesis
      using quiet_trans [OF quiet] no quiet by (simp add: quiet_def)
  qed
  have "C \<subseteq> set (w # ws)" "pr' = (pr \<or> C \<noteq> {})"
    using spec by (auto simp: scan_spec_def)
  moreover have "uf \<longrightarrow> (\<forall>v\<in>C. \<not> unpinned r v)"
      "imf \<longrightarrow> (\<forall>v\<in>C. \<not> (unpinned r v \<and> q_Images (req_of r v)))"
    using spec flags unfolding scan_spec_def unpinned_def req by blast+
  ultimately show ?thesis
    using c order rest unfolding scan_spec_def by blast
qed

lemma pick_refused_quiet:
  assumes p: "pickWithReportsLocked c req reports now r = (Inl e, r1)"
    and d: "distinct (map r_Node reports)" and self: "c_Self c \<noteq> ''''"
  shows "\<not> pick_succeeds c req reports now r" and "quiet c reports now r r1"
proof -
  show "\<not> pick_succeeds c req reports now r" using p by (simp add: pick_succeeds_def)
  show "quiet c reports now r r1"
    using untaken_quiet [OF _ d self] pick_result [OF p d self] by (simp add: conj_commute) blast
qed

lemma scan_waiters_spec:
  assumes "queue_ok r" and "distinct ws" and "set ws \<subseteq> set (rt_queues r m)"
    and d: "distinct (map r_Node reports)" and self: "c_Self c \<noteq> ''''"
    and "scan_waiters c reports now ws uf imf pr r = (pr', r')"
  shows "\<exists>C. scan_spec c reports now m ws uf imf pr r C pr' r'"
  using assms(1-3,6)
proof (induction ws arbitrary: uf imf pr r)
  case Nil
  then show ?case
    by (auto simp: scan_spec_def in_order_def quiet_def intro!: exI [of _ "{}"] completes_refl)
next
  case (Cons w ws)
  obtain x where x: "rt_waiters r w = Some x" "q_Model (w_req x) = m" "plain_request (w_req x)"
    using Cons.prems(1,3) unfolding queue_ok_def by fastforce
  have rq: "req_of r w = w_req x" using x(1) by (simp add: req_of_def)
  have w: "w \<notin> set ws" "distinct ws" "w \<in> set (rt_queues r m)" using Cons.prems(2,3) by auto
  show ?case
  proof (cases "q_Host (w_req x) = '''' \<and> (uf \<or> imf \<and> q_Images (w_req x))")
    case True
    then have "scan_waiters c reports now ws uf imf pr r = (pr', r')"
      using Cons.prems(4) x(1) by (simp add: Let_def)
    then obtain C where "scan_spec c reports now m ws uf imf pr r C pr' r'"
      using Cons.IH [OF Cons.prems(1) w(2)] Cons.prems(3) by (meson order_trans set_subset_Cons)
    from scan_spec_skip [OF this _ w(1) _ _ d self] show ?thesis
      using True x(2,3) unfolding rq by blast
  next
    case ask: False
    obtain res r1 where p: "pickWithReportsLocked c (w_req x) reports now r = (res, r1)" by fastforce
    have keep: "rt_queues r1 = rt_queues r" "rt_waiters r1 = rt_waiters r" "rt_next r \<le> rt_next r1"
      using pick_keeps_queues [OF p d self] by simp_all
    have q1: "queue_ok r1" using completes_ok [OF completes_refl [OF keep] Cons.prems(1)] .
    have finished: "\<exists>C. scan_spec c reports now m (w # ws) uf imf pr r C pr' r'"
      if rest: "scan_waiters c reports now ws uf imf True (completeLocked w res r1) = (pr', r')"
    proof -
      have c1: "completes {w} r1 (completeLocked w res r1)"
        using complete_completes [OF q1] w(3) keep(1) by simp
      have "set ws \<subseteq> set (rt_queues (completeLocked w res r1) m)"
        using c1 w(1) Cons.prems(3) keep(1) by (auto simp: completes_def)
      then obtain C where "scan_spec c reports now m ws uf imf True (completeLocked w res r1) C pr' r'"
        using Cons.IH [OF completes_ok [OF c1 q1] w(2) _ rest] by blast
      from scan_spec_complete [OF Cons.prems(1) w(3,1) keep this] show ?thesis
        using ask unfolding rq by blast
    qed
    have refused: "\<exists>C. scan_spec c reports now m (w # ws) uf imf pr r C pr' r'"
      if rest: "scan_waiters c reports now ws uf' imf' pr r1 = (pr', r')" and e: "res = Inl e"
        and fl: "uf' = (uf \<or> unpinned r w \<and> \<not> q_Images (req_of r w))"
          "imf' = (imf \<or> unpinned r w \<and> q_Images (req_of r w))" for uf' imf' e
    proof -
      obtain C where C: "scan_spec c reports now m ws uf' imf' pr r1 C pr' r'"
        using Cons.IH [OF q1 w(2) _ rest] Cons.prems(3) keep(1) by (metis order_trans set_subset_Cons)
      note no = pick_refused_quiet [OF p [unfolded e] d self]
      from scan_spec_refused [OF _ _ keep _ no(2) C fl w(1)] show ?thesis
        using no(1) x(2,3) unfolding rq by blast
    qed
    have step: "scan_waiters c reports now (w # ws) uf imf pr r =
        (case res of
           Inr l \<Rightarrow> scan_waiters c reports now ws uf imf True (completeLocked w res r1)
         | Inl e \<Rightarrow>
             if e = ErrModelNotFound \<or> e = ErrHostNotServing \<or> e = ErrNoImageInput
             then scan_waiters c reports now ws uf imf True (completeLocked w res r1)
             else scan_waiters c reports now ws (uf \<or> unpinned r w \<and> \<not> q_Images (req_of r w))
               (imf \<or> unpinned r w \<and> q_Images (req_of r w)) pr r1)"
      using ask x(1) by (auto simp: p Let_def unpinned_def rq split: sum.split)
    show ?thesis
    proof (cases res)
      case (Inr l)
      then show ?thesis using finished step Cons.prems(4) by simp
    next
      case (Inl e)
      then show ?thesis
        using finished refused [OF _ Inl refl refl] step Cons.prems(4) by (auto split: if_splits)
    qed
  qed
qed

section \<open>A pass and the loop\<close>

lemma in_order_disjoint: "C \<inter> set ws = {} \<Longrightarrow> in_order r C ws"
  by (induction ws) (auto simp: in_order_def)

lemma in_order_trans: "in_order r C ws \<Longrightarrow> in_order r D (filter (\<lambda>w. w \<notin> C) ws) \<Longrightarrow> in_order r (C \<union> D) ws"
  by (induction ws) (auto simp: in_order_def split: if_splits)

lemma in_order_req: "(\<And>w. req_of r' w = req_of r w) \<Longrightarrow> in_order r' = in_order r"
  by (simp add: in_order_def covers_def unpinned_def fun_eq_iff)

definition served :: "router \<Rightarrow> nat set \<Rightarrow> router \<Rightarrow> bool" where
  "served r C r' \<longleftrightarrow> completes C r r' \<and> (\<forall>m. in_order r C (rt_queues r m))"

lemma served_trans:
  assumes "served r C r1" and "served r1 D r2"
  shows "served r (C \<union> D) r2"
proof -
  have c: "completes C r r1" "completes D r1 r2" using assms by (simp_all add: served_def)
  have "in_order r1 = in_order r" by (rule in_order_req) (rule completes_req [OF c(1)])
  then show ?thesis
    using assms c completes_trans [OF c]
    by (auto simp: served_def completes_def intro: in_order_trans)
qed

definition idle :: "config \<Rightarrow> report list \<Rightarrow> gotime \<Rightarrow> string set \<Rightarrow> router \<Rightarrow> bool" where
  "idle c reports now M r \<longleftrightarrow>
     (\<forall>m\<in>M. \<forall>w\<in>set (rt_queues r m). \<not> pick_succeeds c (req_of r w) reports now r)"

lemma idle_quiet:
  assumes "completes {} r r1" and "quiet c reports now r r1"
  shows "idle c reports now M r1 \<longleftrightarrow> idle c reports now M r"
  using assms completes_req [OF assms(1)] by (simp add: idle_def quiet_def completes_def)

lemma scan_served:
  assumes q: "queue_ok r" and d: "distinct (map r_Node reports)" and self: "c_Self c \<noteq> ''''"
    and s: "scan_waiters c reports now (rt_queues r m) False False pr r = (pr', r')"
  shows "\<exists>C. served r C r' \<and> pr' = (pr \<or> C \<noteq> {}) \<and>
    (C = {} \<longrightarrow> quiet c reports now r r' \<and> idle c reports now {m} r)"
proof -
  have "distinct (rt_queues r m)" using q by (simp add: queue_ok_def)
  from scan_waiters_spec [OF q this _ d self s] obtain C
    where C: "scan_spec c reports now m (rt_queues r m) False False pr r C pr' r'" by blast
  have "in_order r C (rt_queues r m')" for m'
  proof (cases "m' = m")
    case False
    have "w \<notin> set (rt_queues r m')" if "w \<in> set (rt_queues r m)" for w
      using q that False unfolding queue_ok_def by (metis option.inject)
    then have "C \<inter> set (rt_queues r m') = {}" using C by (auto simp: scan_spec_def)
    then show ?thesis by (rule in_order_disjoint)
  qed (use C in \<open>simp add: scan_spec_def\<close>)
  moreover have "flags_ok c reports now m False False r" by (simp add: flags_ok_def)
  ultimately show ?thesis
    using C unfolding scan_spec_def served_def idle_def by blast
qed

lemma pass_served:
  assumes "queue_ok r" and d: "distinct (map r_Node reports)" and self: "c_Self c \<noteq> ''''"
    and "dispatch_pass c reports now ms pr r = (pr', r')"
  shows "\<exists>C. served r C r' \<and> pr' = (pr \<or> C \<noteq> {}) \<and>
    (C = {} \<longrightarrow> quiet c reports now r r' \<and> idle c reports now (set ms) r)"
  using assms(1,4)
proof (induction ms arbitrary: pr r)
  case Nil
  then show ?case
    by (auto simp: served_def quiet_def idle_def intro!: exI [of _ "{}"] completes_refl in_order_disjoint)
next
  case (Cons m ms)
  obtain pr1 r1 where s: "scan_waiters c reports now (rt_queues r m) False False pr r = (pr1, r1)" by fastforce
  from scan_served [OF Cons.prems(1) d self s] obtain C where
    C: "served r C r1" "pr1 = (pr \<or> C \<noteq> {})" "C = {} \<longrightarrow> quiet c reports now r r1 \<and> idle c reports now {m} r" by blast
  have c: "completes C r r1" using C(1) by (simp add: served_def)
  have "dispatch_pass c reports now ms pr1 r1 = (pr', r')" using Cons.prems(2) s by simp
  from Cons.IH [OF completes_ok [OF c Cons.prems(1)] this] obtain D where
    D: "served r1 D r'" "pr' = (pr1 \<or> D \<noteq> {})" "D = {} \<longrightarrow> quiet c reports now r1 r' \<and> idle c reports now (set ms) r1" by blast
  have "quiet c reports now r r' \<and> idle c reports now (set (m # ms)) r" if "C \<union> D = {}"
  proof -
    have "C = {}" "D = {}" using that by simp_all
    then have "quiet c reports now r r1" "idle c reports now {m} r" "quiet c reports now r1 r'"
      "idle c reports now (set ms) r1" using C(3) D(3) by simp_all
    moreover have "completes {} r r1" using c \<open>C = {}\<close> by simp
    ultimately show ?thesis
      using idle_quiet [of r r1] quiet_trans by (auto simp: idle_def)
  qed
  then show ?case
    using served_trans [OF C(1) D(1)] C(2) D(2) by (intro exI [of _ "C \<union> D"]) auto
qed

definition waiting :: "router \<Rightarrow> nat set" where
  "waiting r = (\<Union>m. set (rt_queues r m))"

lemma completes_waiting:
  assumes "queue_ok r" and "completes C r r'"
  shows "C \<subseteq> waiting r" and "waiting r' = waiting r - C"
proof -
  show "C \<subseteq> waiting r"
  proof
    fix w assume "w \<in> C"
    then obtain x where "rt_waiters r w = Some x" "\<not> w_done x"
      using assms(2) unfolding completes_def by blast
    then show "w \<in> waiting r" using assms(1) unfolding queue_ok_def waiting_def by blast
  qed
  show "waiting r' = waiting r - C" using assms(2) by (auto simp: completes_def waiting_def)
qed

lemma finite_waiting: "{m. rt_queues r m \<noteq> []} \<subseteq> set ms \<Longrightarrow> finite (waiting r)"
proof -
  assume a: "{m. rt_queues r m \<noteq> []} \<subseteq> set ms"
  have "waiting r \<subseteq> (\<Union>m\<in>set ms. set (rt_queues r m))"
    using a by (fastforce simp: waiting_def)
  then show ?thesis by (rule finite_subset) simp
qed

lemma loop_served:
  assumes "queue_ok r" and d: "distinct (map r_Node reports)" and self: "c_Self c \<noteq> ''''"
    and "\<forall>k. {m. rt_queues r m \<noteq> []} \<subseteq> set (orders k)"
  shows "\<exists>r' C. dispatch_loop c reports now orders k r = Some r' \<and> served r C r' \<and> idle c reports now UNIV r'"
  using assms(1,4)
proof (induction "card (waiting r)" arbitrary: r k rule: less_induct)
  case less
  obtain pr r1 where p: "dispatch_pass c reports now (orders k) False r = (pr, r1)" by fastforce
  from pass_served [OF less.prems(1) d self p] obtain C where
    C: "served r C r1" "pr = (C \<noteq> {})" "C = {} \<longrightarrow> quiet c reports now r r1 \<and> idle c reports now (set (orders k)) r"
    by auto
  have c: "completes C r r1" using C(1) by (simp add: served_def)
  show ?case
  proof (cases pr)
    case True
    have fin: "finite (waiting r)" using less.prems(2) finite_waiting by blast
    have "card (waiting r1) < card (waiting r)"
      using completes_waiting [OF less.prems(1) c] True C(2) fin by (auto intro!: psubset_card_mono)
    moreover have "\<forall>k. {m. rt_queues r1 m \<noteq> []} \<subseteq> set (orders k)"
    proof -
      have "{m. rt_queues r1 m \<noteq> []} \<subseteq> {m. rt_queues r m \<noteq> []}"
        using c by (auto simp: completes_def)
      then show ?thesis using less.prems(2) by blast
    qed
    ultimately obtain r' D where "dispatch_loop c reports now orders (Suc k) r1 = Some r'" "served r1 D r'"
      "idle c reports now UNIV r'"
      using less.hyps completes_ok [OF c less.prems(1)] by blast
    then show ?thesis
      using served_trans [OF C(1)] p True by (subst dispatch_loop.simps) auto
  next
    case False
    have "idle c reports now (set (orders k)) r1"
      using C False c idle_quiet [of r r1] by simp
    moreover have "rt_queues r1 m = []" if "m \<notin> set (orders k)" for m
    proof -
      have "rt_queues r m = []" using that less.prems(2) by blast
      then show ?thesis using c by (simp add: completes_def)
    qed
    ultimately have "idle c reports now UNIV r1" unfolding idle_def by (metis empty_iff empty_set)
    then show ?thesis
      using C(1) p False by (subst dispatch_loop.simps) auto
  qed
qed

lemma dispatch_served:
  assumes "queue_ok r" and "distinct (map r_Node reports)" and "c_Self c \<noteq> ''''"
    and orders: "\<forall>k. {m. rt_queues r m \<noteq> []} \<subseteq> set (orders k)"
  shows "\<exists>r' C. dispatchLocked c reports now orders r = Some r' \<and> served r C r' \<and> idle c reports now UNIV r'"
proof (cases "orders 0 = []")
  case True
  then have "rt_queues r m = []" for m using orders by (metis (mono_tags, lifting) empty_set mem_Collect_eq subset_empty empty_iff)
  then show ?thesis
    using True by (auto simp: dispatchLocked_def served_def idle_def intro!: exI [of _ "{}"] completes_refl in_order_disjoint)
next
  case False
  then show ?thesis using loop_served [OF assms] by (simp add: dispatchLocked_def)
qed

end
