(* ===== verification/RouterLeases.thy ===== *)
theory RouterLeases
  imports RouteQueue
begin

text \<open>
  The router as the callers see it: any number of requests that pick, wait, give up and release, in any
  order, with dispatches in between. The inductive relation \<open>gateway_run\<close> has one rule for every section under the router
  mutex; its state pairs the router with the leases the callers hold. The main invariant
  ties the counters of the backends and the reservation lists to the leases that are out, whether a caller
  holds them or they sit in a waiter's result channel.
\<close>

section \<open>Leases and counters\<close>

definition on_backend :: "lease set \<Rightarrow> nat \<Rightarrow> lease set" where
  "on_backend L b = {l \<in> L. l_backend l = Some b}"

definition on_peer :: "lease set \<Rightarrow> resKey \<Rightarrow> lease set" where
  "on_peer L key = {l \<in> L. l_backend l = None \<and> l_key l = key}"

definition lease_ids :: "lease set \<Rightarrow> router \<Rightarrow> bool" where
  "lease_ids L r \<longleftrightarrow>
     finite L \<and> inj_on l_id L \<and> (\<forall>l\<in>L. l_id l < rt_next r \<and> l_id l \<notin> rt_released r \<and> (l_backend l = None \<longrightarrow> l_res l < rt_next r)) \<and>
     inj_on l_res {l \<in> L. l_backend l = None} \<and> rt_released r \<subseteq> {..<rt_next r}"

definition counted :: "lease set \<Rightarrow> router \<Rightarrow> bool" where
  "counted L r \<longleftrightarrow>
     (\<forall>b. InFlight (rt_store r b) = int (card (on_backend L b))) \<and>
     (\<forall>key. distinct (map rs_id (rt_reservations r key)) \<and>
        set (map rs_id (rt_reservations r key)) = l_res ` on_peer L key)"

definition accounted :: "lease set \<Rightarrow> router \<Rightarrow> bool" where
  "accounted L r \<longleftrightarrow> lease_ids L r \<and> counted L r"

lemma accounted_cong:
  assumes "accounted L r" and "rt_released r' = rt_released r" "rt_next r \<le> rt_next r'"
    and "\<And>b. InFlight (rt_store r' b) = InFlight (rt_store r b)" "rt_reservations r' = rt_reservations r"
  shows "accounted L r'"
  using assms by (fastforce simp: accounted_def lease_ids_def counted_def)

lemma on_backend_insert: "on_backend (insert l L) b = (if l_backend l = Some b then insert l (on_backend L b) else on_backend L b)"
  by (auto simp: on_backend_def)

lemma on_peer_insert:
  "on_peer (insert l L) key = (if l_backend l = None \<and> l_key l = key then insert l (on_peer L key) else on_peer L key)"
  by (auto simp: on_peer_def)

lemma accounted_local_grant:
  assumes a: "accounted L r" and g: "local_grant c req bs reports now r l r'"
  shows "accounted (insert l L) r'" and "l \<notin> L"
proof -
  obtain b where b: "l_id l = rt_next r" "rt_next r' = rt_next r + 1" "l_backend l = Some b"
    "rt_store r' = (rt_store r)(b := Acquire (rt_store r b))" "rt_reservations r' = rt_reservations r"
    "rt_released r' = rt_released r"
    using g by (auto simp: local_grant_def same_base_def)
  have fresh: "l_id l \<noteq> l_id l'" if "l' \<in> L" for l'
    using a that b(1) by (auto simp: accounted_def lease_ids_def)
  then show l: "l \<notin> L" by blast
  have "lease_ids (insert l L) r'"
    using a b fresh by (fastforce simp: accounted_def lease_ids_def inj_on_def)
  moreover have "counted (insert l L) r'"
  proof -
    have "finite (on_backend L b)" using a by (simp add: accounted_def lease_ids_def on_backend_def)
    moreover have "l \<notin> on_backend L b" using l by (simp add: on_backend_def)
    ultimately show ?thesis
      using a b by (auto simp: accounted_def counted_def on_backend_insert on_peer_insert InFlight_def Acquire_def)
  qed
  ultimately show "accounted (insert l L) r'" by (simp add: accounted_def)
qed

lemma accounted_peer_grant:
  assumes a: "accounted L r" and g: "peer_grant c req reports now r l r'"
  shows "accounted (insert l L) r'" and "l \<notin> L"
proof -
  have b: "l_id l = rt_next r + 1" "rt_next r' = rt_next r + 2" "l_backend l = None" "l_res l = rt_next r"
    "rt_store r' = rt_store r" "rt_reservations r' = (rt_reservations r)(l_key l :=
          rt_reservations r (l_key l) @ [\<lparr>rs_id = rt_next r, rs_start = now\<rparr>])"
    "rt_released r' = rt_released r"
    using g by (auto simp: peer_grant_def same_base_def)
  have fresh: "l_id l \<noteq> l_id l'" "l_backend l' = None \<longrightarrow> l_res l \<noteq> l_res l'" if "l' \<in> L" for l'
    using a that b(1,4) by (fastforce simp: accounted_def lease_ids_def)+
  then show l: "l \<notin> L" by blast
  have "lease_ids (insert l L) r'"
    using a b fresh by (fastforce simp: accounted_def lease_ids_def inj_on_def)
  moreover have "rt_next r \<notin> set (map rs_id (rt_reservations r key))" for key
  proof -
    have "set (map rs_id (rt_reservations r key)) = l_res ` on_peer L key"
      using a unfolding accounted_def counted_def by blast
    then show ?thesis using fresh(2) b(4) unfolding on_peer_def by force
  qed
  then have "counted (insert l L) r'"
    using a unfolding accounted_def counted_def on_backend_insert on_peer_insert b(3-6)
    by (simp del: set_map) (simp add: b(4) insert_commute)
  ultimately show "accounted (insert l L) r'" by (simp add: accounted_def)
qed

lemma remove_reservation_ids:
  "distinct (map rs_id xs) \<Longrightarrow> map rs_id (remove_reservation i xs) = filter (\<lambda>j. j \<noteq> i) (map rs_id xs)"
  by (induction xs) (auto intro!: filter_True [symmetric])

lemma accounted_release:
  assumes a: "accounted L r" and l: "l \<in> L"
  obtains r' where "release_slot l r = Some r'" "accounted (L - {l}) r'"
    "rt_queues r' = rt_queues r" "rt_waiters r' = rt_waiters r" "rt_models r' = rt_models r" "rt_next r' = rt_next r"
proof (cases "l_backend l")
  case (Some b)
  have fin: "finite (on_backend L b)" and lb: "l \<in> on_backend L b"
    using a l Some by (auto simp: accounted_def lease_ids_def on_backend_def)
  then have pos: "InFlight (rt_store r b) > 0"
    using a by (auto simp: accounted_def counted_def card_gt_0_iff)
  define r' where "r' = r\<lparr>rt_released := insert (l_id l) (rt_released r),
    rt_store := (rt_store r)(b := (rt_store r b)\<lparr>b_inFlight := b_inFlight (rt_store r b) - 1\<rparr>)\<rparr>"
  have "release_slot l r = Some r'"
    using a l Some pos by (auto simp: release_slot_def accounted_def lease_ids_def Release_def InFlight_def r'_def Let_def)
  moreover have "lease_ids (L - {l}) r'"
    using a l unfolding r'_def accounted_def lease_ids_def inj_on_def by auto
  moreover have "counted (L - {l}) r'"
  proof -
    have "on_backend (L - {l}) b = on_backend L b - {l}" by (auto simp: on_backend_def)
    then have "int (card (on_backend (L - {l}) b)) = int (card (on_backend L b)) - 1"
      using card_Suc_Diff1 [OF fin lb] by simp
    moreover have "on_backend (L - {l}) b' = on_backend L b'" if "b' \<noteq> b" for b'
      using Some that by (auto simp: on_backend_def)
    moreover have "on_peer (L - {l}) key = on_peer L key" for key
      using Some by (auto simp: on_peer_def)
    ultimately show ?thesis
      using a by (auto simp: r'_def accounted_def counted_def InFlight_def)
  qed
  ultimately show ?thesis
    using that [of r'] by (simp add: r'_def accounted_def)
next
  case None
  define r' where "r' = r\<lparr>rt_released := insert (l_id l) (rt_released r),
    rt_reservations := (rt_reservations r)(l_key l := remove_reservation (l_res l) (rt_reservations r (l_key l)))\<rparr>"
  have "release_slot l r = Some r'"
    using a l None by (auto simp: release_slot_def accounted_def lease_ids_def r'_def Let_def dropReservationLocked_def)
  moreover have "lease_ids (L - {l}) r'"
    using a l unfolding r'_def accounted_def lease_ids_def inj_on_def by auto
  moreover have "counted (L - {l}) r'"
  proof -
    have local: "on_backend (L - {l}) b = on_backend L b" for b
      using None by (auto simp: on_backend_def)
    have others: "on_peer (L - {l}) key = on_peer L key" if "key \<noteq> l_key l" for key
      using that by (auto simp: on_peer_def)
    have own: "l_res ` on_peer (L - {l}) (l_key l) = l_res ` on_peer L (l_key l) - {l_res l}"
      using a None l unfolding accounted_def lease_ids_def inj_on_def on_peer_def by auto
    have ids: "distinct (map rs_id (rt_reservations r (l_key l)))"
      "set (map rs_id (rt_reservations r (l_key l))) = l_res ` on_peer L (l_key l)"
      using a unfolding accounted_def counted_def by blast+
    have "distinct (map rs_id (rt_reservations r' key)) \<and>
        set (map rs_id (rt_reservations r' key)) = l_res ` on_peer (L - {l}) key" for key
    proof (cases "key = l_key l")
      case True
      have "map rs_id (rt_reservations r' key) = filter (\<lambda>j. j \<noteq> l_res l) (map rs_id (rt_reservations r key))"
        unfolding r'_def True by (simp add: remove_reservation_ids ids)
      then have "distinct (map rs_id (rt_reservations r' key))"
        "set (map rs_id (rt_reservations r' key)) = set (map rs_id (rt_reservations r key)) - {l_res l}"
        using ids(1) True by (simp_all del: set_map) auto
      then show ?thesis unfolding True own ids(2) by blast
    next
      case False
      then show ?thesis
        using a others unfolding accounted_def counted_def r'_def by (simp del: split_paired_All)
    qed
    then show ?thesis
      using a local unfolding accounted_def counted_def r'_def by (simp del: split_paired_All)
  qed
  ultimately show ?thesis
    using that [of r'] by (simp add: r'_def accounted_def)
qed

section \<open>Leases on their way to a waiter\<close>

definition pending :: "router \<Rightarrow> lease set" where
  "pending r = {l. \<exists>w x. rt_waiters r w = Some x \<and> w_result x = Some (Inr l)}"

lemma pending_alt: "pending r = {l. \<exists>w. Option.bind (rt_waiters r w) w_result = Some (Inr l)}"
  by (auto simp: pending_def bind_eq_Some_conv)

definition delivered_once :: "router \<Rightarrow> bool" where
  "delivered_once r \<longleftrightarrow>
     (\<forall>v w x y l. rt_waiters r v = Some x \<longrightarrow> rt_waiters r w = Some y \<longrightarrow>
        w_result x = Some (Inr l) \<longrightarrow> w_result y = Some (Inr l) \<longrightarrow> v = w)"

definition sound :: "config \<Rightarrow> lease set \<Rightarrow> router \<Rightarrow> bool" where
  "sound c H r \<longleftrightarrow>
     queue_ok r \<and> delivered_once r \<and> H \<inter> pending r = {} \<and> accounted (H \<union> pending r) r \<and>
     (\<forall>m. int (length (rt_queues r m)) \<le> max 0 (c_QueueMax c))"

lemma sound_quiet:
  assumes s: "sound c H r" and u: "untaken reports m r r'"
  shows "sound c H r'"
proof -
  have k: "rt_queues r' = rt_queues r" "rt_waiters r' = rt_waiters r" "rt_next r' = rt_next r"
    "rt_store r' = rt_store r" "rt_reservations r' = rt_reservations r" "rt_released r' = rt_released r"
    using u by (simp_all add: untaken_def same_base_def)
  then have "accounted (H \<union> pending r) r'"
    using s accounted_cong [of "H \<union> pending r" r r'] by (simp add: sound_def)
  then show ?thesis using s k by (simp add: sound_def queue_ok_def delivered_once_def pending_def)
qed

lemma pick_accounted:
  assumes p: "pickWithReportsLocked c req reports now r = (Inr l, r')"
    and d: "distinct (map r_Node reports)" and self: "c_Self c \<noteq> ''''" and a: "accounted L r"
  shows "l \<notin> L \<and> accounted (insert l L) r'"
proof -
  obtain req' backends elig r1 where g: "granted c req' backends elig reports now r l r1"
    and r': "r' = noteSessionLocked c req (Some l) reports r1"
    using pick_result [OF p d self] by auto
  have "l \<notin> L \<and> accounted (insert l L) r1"
    using g accounted_local_grant [OF a] accounted_peer_grant [OF a] unfolding granted_def by metis
  then show ?thesis
    using accounted_cong [of "insert l L" r1 r'] by (simp add: r')
qed

lemma pick_sound:
  assumes p: "pickWithReportsLocked c req reports now r = (res, r')"
    and d: "distinct (map r_Node reports)" and self: "c_Self c \<noteq> ''''" and s: "sound c H r"
  shows "case res of
      Inl _ \<Rightarrow> sound c H r'
    | Inr l \<Rightarrow> l \<notin> H \<union> pending r \<and> sound c (insert l H) r'"
proof (cases res)
  case (Inl e)
  then show ?thesis using pick_result [OF p d self] sound_quiet [OF s] by auto
next
  case (Inr l)
  have k: "rt_queues r' = rt_queues r" "rt_waiters r' = rt_waiters r" "rt_next r \<le> rt_next r'"
    using pick_keeps_queues [OF p d self] by simp_all
  have q: "queue_ok r'" using completes_ok [OF completes_refl [OF k]] s by (simp add: sound_def)
  have "l \<notin> H \<union> pending r" "accounted (insert l (H \<union> pending r)) r'"
    using pick_accounted [OF p [unfolded Inr] d self, of "H \<union> pending r"] s by (auto simp: sound_def)
  then show ?thesis using s k q Inr by (simp add: sound_def delivered_once_def pending_def)
qed

lemma complete_sound:
  assumes s: "sound c (case res of Inl _ \<Rightarrow> H | Inr l \<Rightarrow> insert l H) r"
    and new: "\<And>l. res = Inr l \<Longrightarrow> l \<notin> H"
    and w: "w \<in> set (rt_queues r m)"
  shows "sound c H (completeLocked w res r)"
proof -
  let ?r = "completeLocked w res r" and ?H = "case res of Inl _ \<Rightarrow> H | Inr l \<Rightarrow> insert l H"
  have q: "queue_ok r" and fresh: "?H \<inter> pending r = {}" and one: "delivered_once r"
    and acc: "accounted (?H \<union> pending r) r" using s by (simp_all add: sound_def)
  note c = complete_completes [OF q w, of res]
  obtain x where x: "rt_waiters r w = Some x" "w_result x = None" using q w unfolding queue_ok_def by blast
  have ws: "rt_waiters ?r = (rt_waiters r)(w \<mapsto> x\<lparr>w_done := True, w_result := Some res\<rparr>)"
    and k: "rt_store ?r = rt_store r" "rt_reservations ?r = rt_reservations r" "rt_next ?r = rt_next r"
      "rt_released ?r = rt_released r"
    using x(1) by (auto simp: completeLocked_def removeWaiterLocked_def Let_def)
  have pend: "pending ?r = (case res of Inl _ \<Rightarrow> pending r | Inr l \<Rightarrow> insert l (pending r))"
  proof -
    have "l \<in> pending ?r \<longleftrightarrow> res = Inr l \<or> l \<in> pending r" for l
    proof
      assume "l \<in> pending ?r"
      then obtain v y where "rt_waiters ?r v = Some y" "w_result y = Some (Inr l)"
        unfolding pending_def by blast
      then show "res = Inr l \<or> l \<in> pending r"
        unfolding ws pending_def by (cases "v = w") auto
    next
      assume "res = Inr l \<or> l \<in> pending r"
      then show "l \<in> pending ?r"
      proof
        assume "res = Inr l"
        then have "w_result (x\<lparr>w_done := True, w_result := Some res\<rparr>) = Some (Inr l)" by simp
        moreover have "rt_waiters ?r w = Some (x\<lparr>w_done := True, w_result := Some res\<rparr>)" by (simp add: ws)
        ultimately show ?thesis unfolding pending_def by blast
      next
        assume "l \<in> pending r"
        then obtain v y where v: "rt_waiters r v = Some y" "w_result y = Some (Inr l)"
          unfolding pending_def by blast
        then have "v \<noteq> w" using x by auto
        then have "rt_waiters ?r v = Some y" using v(1) unfolding ws by simp
        then show ?thesis using v(2) unfolding pending_def by blast
      qed
    qed
    then show ?thesis by (auto split: sum.split)
  qed
  have "delivered_once ?r"
    unfolding delivered_once_def
  proof (intro allI impI)
    fix v v' y y' l
    assume a: "rt_waiters ?r v = Some y" "rt_waiters ?r v' = Some y'" "w_result y = Some (Inr l)" "w_result y' = Some (Inr l)"
    have "l \<notin> pending r" if "res = Inr l" using fresh that by auto
    then have "v = w \<longleftrightarrow> v' = w" using a unfolding ws pending_def by (auto split: if_splits)
    then show "v = v'" using a one unfolding ws delivered_once_def by (metis fun_upd_other)
  qed
  moreover have "H \<union> pending ?r = ?H \<union> pending r" by (auto simp: pend split: sum.split)
  then have "accounted (H \<union> pending ?r) ?r"
    using acc accounted_cong [of "?H \<union> pending r" r ?r] k by simp
  moreover have "H \<inter> pending ?r = {}"
    unfolding pend using fresh new by (auto split: sum.splits)
  moreover have "int (length (rt_queues ?r m')) \<le> max 0 (c_QueueMax c)" for m'
  proof -
    have "length (rt_queues ?r m') \<le> length (rt_queues r m')"
      using c by (simp add: completes_def)
    moreover have "int (length (rt_queues r m')) \<le> max 0 (c_QueueMax c)" using s by (simp add: sound_def)
    ultimately show ?thesis by linarith
  qed
  ultimately show ?thesis
    using completes_ok [OF c q] by (simp add: sound_def)
qed

lemma scan_sound:
  assumes "sound c H r" and "distinct ws" and "set ws \<subseteq> set (rt_queues r m)"
    and d: "distinct (map r_Node reports)" and self: "c_Self c \<noteq> ''''"
  shows "sound c H (snd (scan_waiters c reports now ws uf imf pr r))"
  using assms(1-3)
proof (induction ws arbitrary: uf imf pr r)
  case (Cons w ws)
  have q: "queue_ok r" using Cons.prems(1) by (simp add: sound_def)
  obtain x where x: "rt_waiters r w = Some x"
    using Cons.prems(3) q unfolding queue_ok_def by fastforce
  have w: "w \<notin> set ws" "distinct ws" "w \<in> set (rt_queues r m)" "set ws \<subseteq> set (rt_queues r m)"
    using Cons.prems(2,3) by auto
  obtain res r1 where p: "pickWithReportsLocked c (w_req x) reports now r = (res, r1)" by fastforce
  have keep: "rt_queues r1 = rt_queues r" using pick_keeps_queues [OF p d self] by simp
  note ps = pick_sound [OF p d self Cons.prems(1)]
  have "sound c (case res of Inl _ \<Rightarrow> H | Inr l \<Rightarrow> insert l H) r1"
    using ps by (simp split: sum.splits)
  from complete_sound [OF this _ w(3) [folded keep]] have fin: "sound c H (completeLocked w res r1)"
    using ps by (cases res) auto
  have "queue_ok r1" using ps by (cases res) (auto simp: sound_def)
  from complete_completes [OF this w(3) [folded keep], of res]
  have sub: "set ws \<subseteq> set (rt_queues (completeLocked w res r1) m)"
    using w(1,4) keep by (auto simp: completes_def)
  show ?case
  proof (cases res)
    case (Inr l)
    then show ?thesis
      using Cons.IH [OF Cons.prems(1) w(2,4)] Cons.IH [OF fin w(2) sub] x p
      by (simp add: Let_def)
  next
    case (Inl e)
    have "sound c H r1" using ps Inl by simp
    then show ?thesis
      using Cons.IH [OF Cons.prems(1) w(2,4)] Cons.IH [OF fin w(2) sub] Cons.IH [of r1] x p Inl keep w(2,4)
      by (simp add: Let_def)
  qed
qed simp

lemma pass_sound:
  assumes "sound c H r" and "distinct (map r_Node reports)" and "c_Self c \<noteq> ''''"
  shows "sound c H (snd (dispatch_pass c reports now ms pr r))"
  using assms(1)
proof (induction ms arbitrary: pr r)
  case (Cons m ms)
  have "distinct (rt_queues r m)" using Cons.prems by (simp add: sound_def queue_ok_def)
  from scan_sound [OF Cons.prems this subset_refl assms(2,3), of now False False pr] show ?case
    using Cons.IH by (simp split: prod.split) (metis snd_conv)
qed simp

lemma loop_sound:
  assumes "dispatch_loop c reports now orders k r = Some r'" and "sound c H r"
    and "distinct (map r_Node reports)" and "c_Self c \<noteq> ''''"
  shows "sound c H r'"
proof -
  let ?P = "\<lambda>c reports now orders (k :: nat) r r'. sound c H r \<and> distinct (map r_Node reports) \<and> c_Self c \<noteq> '''' \<longrightarrow> sound c H r'"
  have "?P c reports now orders k r r'"
  proof (rule dispatch_loop.raw_induct [of ?P, OF _ assms(1)])
    fix loop and c :: config and reports now and orders :: "nat \<Rightarrow> string list" and k r r'
    assume IH: "\<And>c reports now orders k r r'. loop c reports now orders k r = Some r' \<Longrightarrow> ?P c reports now orders k r r'"
      and body: "(case dispatch_pass c reports now (orders k) False r of
        (progressed, r') \<Rightarrow> if progressed then loop c reports now orders (Suc k) r' else Some r') = Some r'"
    obtain pr r1 where p: "dispatch_pass c reports now (orders k) False r = (pr, r1)" by fastforce
    show "?P c reports now orders k r r'"
    proof
      assume a: "sound c H r \<and> distinct (map r_Node reports) \<and> c_Self c \<noteq> ''''"
      then have "sound c H r1" using pass_sound [of c H r reports now "orders k" False] p by simp
      then show "sound c H r'" using body IH [of c reports now orders "Suc k" r1] a p by (cases pr) auto
    qed
  qed
  then show ?thesis using assms by simp
qed

section \<open>All runs\<close>

definition receives :: "route_error + lease \<Rightarrow> lease set \<Rightarrow> lease set" where
  "receives res H = (case res of Inl _ \<Rightarrow> H | Inr l \<Rightarrow> insert l H)"

inductive gateway_run :: "config \<Rightarrow> lease set \<Rightarrow> router \<Rightarrow> bool" for c where
  start: "\<forall>b. InFlight (store b) = 0 \<Longrightarrow> gateway_run c {} (New rand store models)"
| acquired: "gateway_run c H r \<Longrightarrow> distinct (map r_Node remote) \<Longrightarrow>
    acquire_start c req remote now r = (Acquired l, r') \<Longrightarrow> gateway_run c (insert l H) r'"
| refused_or_waiting: "gateway_run c H r \<Longrightarrow> distinct (map r_Node remote) \<Longrightarrow>
    acquire_start c req remote now r = (a, r') \<Longrightarrow> \<forall>l. a \<noteq> Acquired l \<Longrightarrow> gateway_run c H r'"
| result: "gateway_run c H r \<Longrightarrow> acquire_result w r = Some (res, r') \<Longrightarrow> gateway_run c (receives res H) r'"
| timeout: "gateway_run c H r \<Longrightarrow> acquire_timeout w r = Some (res, r') \<Longrightarrow> gateway_run c (receives res H) r'"
| cancelled: "gateway_run c H r \<Longrightarrow> distinct (map r_Node remote) \<Longrightarrow>
    acquire_cancelled c remote now orders w r = Some (res, r') \<Longrightarrow> gateway_run c H r'"
| released: "gateway_run c H r \<Longrightarrow> distinct (map r_Node remote) \<Longrightarrow> l \<in> H \<Longrightarrow>
    lease_Release c remote now orders l r = Some r' \<Longrightarrow> gateway_run c (H - {l}) r'"
| refused: "gateway_run c H r \<Longrightarrow> l \<in> H \<Longrightarrow> gateway_run c H (Refused l now r)"
| woken: "gateway_run c H r \<Longrightarrow> distinct (map r_Node remote) \<Longrightarrow>
    Wake c remote now orders r = Some r' \<Longrightarrow> gateway_run c H r'"
| supervised: "gateway_run c H r \<Longrightarrow> \<forall>b. InFlight (store b) = InFlight (rt_store r b) \<Longrightarrow>
    gateway_run c H (r\<lparr>rt_store := store, rt_models := models\<rparr>)"

lemma dispatch_sound:
  "dispatchLocked c remote now orders r = Some r' \<Longrightarrow> sound c H r \<Longrightarrow> distinct (map r_Node remote) \<Longrightarrow>
    c_Self c \<noteq> '''' \<Longrightarrow> sound c H r'"
  by (auto simp: dispatchLocked_def split: if_splits intro: loop_sound)

lemma release_sound:
  assumes "lease_Release c remote now orders l r = Some r'" and s: "sound c H r" and l: "l \<in> H"
    and "distinct (map r_Node remote)" and "c_Self c \<noteq> ''''"
  shows "sound c (H - {l}) r'"
proof -
  have a: "accounted (H \<union> pending r) r" and "l \<notin> pending r" using s l by (auto simp: sound_def)
  from accounted_release [OF a, of l] l obtain r1 where r1: "release_slot l r = Some r1"
    "accounted (H \<union> pending r - {l}) r1" "rt_queues r1 = rt_queues r" "rt_waiters r1 = rt_waiters r" "rt_next r1 = rt_next r"
    by blast
  have "l_id l \<notin> rt_released r" using a l by (simp add: accounted_def lease_ids_def)
  moreover have "sound c (H - {l}) r1"
  proof -
    have p: "pending r1 = pending r" using r1(4) by (simp add: pending_def)
    have "H - {l} \<union> pending r1 = H \<union> pending r - {l}" using \<open>l \<notin> pending r\<close> unfolding p by auto
    then have "accounted (H - {l} \<union> pending r1) r1" using r1(2) by simp
    moreover have "(H - {l}) \<inter> pending r1 = {}" using s unfolding p sound_def by blast
    ultimately show ?thesis
      using s r1(3-5) by (simp add: sound_def queue_ok_def delivered_once_def)
  qed
  ultimately show ?thesis
    using assms(1,4,5) r1(1) dispatch_sound by (simp add: lease_Release_def Wake_def)
qed

lemma receive_sound:
  assumes "receive w r = Some (res, r')" and s: "sound c H r"
  shows "sound c (receives res H) r'"
proof -
  obtain x where x: "rt_waiters r w = Some x" "w_result x = Some res"
    and r': "r' = r\<lparr>rt_waiters := (rt_waiters r)(w \<mapsto> x\<lparr>w_result := None\<rparr>)\<rparr>"
    using assms(1) by (auto simp: receive_def split: option.splits)
  have q: "queue_ok r" and one: "delivered_once r" using s by (simp_all add: sound_def)
  have free: "w \<notin> set (rt_queues r m)" for m using q x unfolding queue_ok_def by fastforce
  have "queue_ok r'"
  proof -
    have "rt_waiters r' v = rt_waiters r v" if "v \<in> set (rt_queues r m)" for v m
      using free that unfolding r' by auto
    moreover have "w_done x" using q x(1) free unfolding queue_ok_def by blast
    ultimately show ?thesis
      using q x(1) unfolding r' queue_ok_def by auto
  qed
  moreover have "delivered_once r'"
    using one unfolding r' delivered_once_def by auto
  moreover have pend: "l \<in> pending r' \<longleftrightarrow> l \<in> pending r \<and> res \<noteq> Inr l" for l
  proof
    assume "l \<in> pending r'"
    then obtain v y where v: "rt_waiters r' v = Some y" "w_result y = Some (Inr l)"
      unfolding pending_def by blast
    then have "v \<noteq> w" "rt_waiters r v = Some y" unfolding r' by (auto split: if_splits)
    then show "l \<in> pending r \<and> res \<noteq> Inr l"
      using v(2) x one unfolding pending_def delivered_once_def by blast
  next
    assume l: "l \<in> pending r \<and> res \<noteq> Inr l"
    then obtain v y where v: "rt_waiters r v = Some y" "w_result y = Some (Inr l)"
      unfolding pending_def by blast
    then have "v \<noteq> w" using l x by auto
    then have "rt_waiters r' v = Some y" using v(1) unfolding r' by simp
    then show "l \<in> pending r'" using v(2) unfolding pending_def by blast
  qed
  moreover have "receives res H \<inter> pending r' = {}"
    using s pend by (auto simp: receives_def sound_def split: sum.splits)
  moreover have "receives res H \<union> pending r' = H \<union> pending r"
  proof -
    have "l \<in> pending r" if "res = Inr l" for l using x that unfolding pending_def by blast
    then show ?thesis using pend by (auto simp: receives_def split: sum.splits)
  qed
  then have "accounted (receives res H \<union> pending r') r'"
    using s accounted_cong [of "H \<union> pending r" r r'] unfolding r' sound_def by simp
  ultimately show ?thesis
    using s unfolding sound_def r' by simp
qed

lemma leave_sound:
  assumes "leave w r = Some (a, r')" and s: "sound c H r"
  shows "sound c (case a of Inl _ \<Rightarrow> H | Inr res \<Rightarrow> receives res H) r'"
proof -
  obtain x where x: "rt_waiters r w = Some x"
    using assms(1) by (auto simp: leave_def split: option.splits)
  show ?thesis
  proof (cases "w_done x")
    case True
    then obtain res where "receive w r = Some (res, r')" "a = Inr res"
      using assms(1) x by (auto simp: leave_def)
    then show ?thesis using receive_sound [OF _ s] by simp
  next
    case False
    let ?m = "q_Model (w_req x)"
    have q: "queue_ok r" using s by (simp add: sound_def)
    then have w: "w \<in> set (rt_queues r ?m)" using x False unfolding queue_ok_def by blast
    have "w_result x = None" using q w x unfolding queue_ok_def by fastforce
    have a: "a = Inl ()" and r': "r' = r\<lparr>rt_waiters := (rt_waiters r)(w \<mapsto> x\<lparr>w_done := True\<rparr>),
        rt_queues := (rt_queues r)(?m := remove1 w (rt_queues r ?m))\<rparr>"
      using assms(1) x False by (auto simp: leave_def removeWaiterLocked_def Let_def)
    have "queue_ok r'"
    proof -
      have d: "distinct (rt_queues r m)" for m using q by (simp add: queue_ok_def)
      have in': "v \<in> set (rt_queues r' m) \<longleftrightarrow> v \<in> set (rt_queues r m) \<and> v \<noteq> w" for v m
      proof (cases "m = ?m")
        case True
        then show ?thesis using d unfolding r' by (simp add: set_remove1_eq)
      next
        case False
        then have "w \<notin> set (rt_queues r m)" using q w x unfolding queue_ok_def by (metis option.inject)
        then show ?thesis using False unfolding r' by auto
      qed
      have "rt_waiters r' v = (if v = w then Some (x\<lparr>w_done := True\<rparr>) else rt_waiters r v)" for v
        by (simp add: r')
      moreover have "distinct (rt_queues r' m)" for m using d unfolding r' by (simp add: distinct_remove1)
      moreover have "rt_next r' = rt_next r" by (simp add: r')
      ultimately show ?thesis
        using q x in' unfolding queue_ok_def by auto
    qed
    moreover have p: "pending r' = pending r"
    proof -
      have "Option.bind (rt_waiters r' v) w_result = Option.bind (rt_waiters r v) w_result" for v
        using x by (simp add: r')
      then show ?thesis by (simp add: pending_alt)
    qed
    moreover have "delivered_once r'"
      using s \<open>w_result x = None\<close> unfolding r' sound_def delivered_once_def by auto
    moreover have "accounted (H \<union> pending r') r'"
      using s accounted_cong [of "H \<union> pending r" r r'] unfolding p unfolding r' sound_def by simp
    moreover have "length (rt_queues r' m) \<le> length (rt_queues r m)" for m
      unfolding r' by (auto simp: length_remove1)
    then have "int (length (rt_queues r' m)) \<le> max 0 (c_QueueMax c)" for m
    proof -
      have "int (length (rt_queues r m)) \<le> max 0 (c_QueueMax c)" using s by (simp add: sound_def)
      then show ?thesis using \<open>length (rt_queues r' m) \<le> length (rt_queues r m)\<close> by linarith
    qed
    ultimately show ?thesis
      using s a unfolding sound_def by simp
  qed
qed

lemma enqueue_sound:
  assumes s: "sound c H r" and w: "w = rt_next r" and x: "\<not> w_done x" "w_result x = None" "plain_request (w_req x)"
    "q_Model (w_req x) = m" and room: "int (length (rt_queues r m)) < c_QueueMax c"
    and r': "r' = r\<lparr>rt_waiters := (rt_waiters r)(w \<mapsto> x), rt_next := rt_next r + 1,
      rt_queues := (rt_queues r)(m := rt_queues r m @ [w])\<rparr>"
  shows "sound c H r'"
proof -
  have q: "queue_ok r" using s by (simp add: sound_def)
  have old: "v \<noteq> w" if "rt_waiters r v \<noteq> None" for v
    using q that w unfolding queue_ok_def by fastforce
  then have none: "rt_waiters r w = None" by blast
  have away: "w \<notin> set (rt_queues r m')" for m' using q none unfolding queue_ok_def by fastforce
  have "queue_ok r'"
  proof -
    have "distinct (rt_queues r' m')" for m'
      using q away unfolding r' queue_ok_def by simp
    moreover have "\<exists>y. rt_waiters r' v = Some y \<and> q_Model (w_req y) = m' \<and> \<not> w_done y \<and> w_result y = None \<and>
        plain_request (w_req y)" if "v \<in> set (rt_queues r' m')" for v m'
    proof (cases "v = w")
      case True
      then have "m' = m" using that away unfolding r' by (auto split: if_splits)
      then show ?thesis using x True unfolding r' by simp
    next
      case False
      then have "v \<in> set (rt_queues r m')" using that unfolding r' by (auto split: if_splits)
      then show ?thesis using q False unfolding queue_ok_def r' by simp
    qed
    moreover have "v < rt_next r' \<and> (w_done y \<or> v \<in> set (rt_queues r' (q_Model (w_req y))))"
      if "rt_waiters r' v = Some y" for v y
    proof (cases "v = w")
      case True
      then show ?thesis using that x w unfolding r' by auto
    next
      case False
      then have "rt_waiters r v = Some y" using that unfolding r' by simp
      then have "v < rt_next r" "w_done y \<or> v \<in> set (rt_queues r (q_Model (w_req y)))"
        using q unfolding queue_ok_def by blast+
      then show ?thesis unfolding r' by auto
    qed
    ultimately show ?thesis unfolding queue_ok_def by blast
  qed
  moreover have p: "pending r' = pending r"
  proof -
    have "Option.bind (rt_waiters r' v) w_result = Option.bind (rt_waiters r v) w_result" for v
      using x none by (simp add: r')
    then show ?thesis by (simp add: pending_alt)
  qed
  moreover have "delivered_once r'"
    using s x(2) unfolding r' sound_def delivered_once_def by auto
  moreover have "accounted (H \<union> pending r') r'"
    using s accounted_cong [of "H \<union> pending r" r r'] unfolding p unfolding r' sound_def by simp
  moreover have "int (length (rt_queues r' m')) \<le> max 0 (c_QueueMax c)" for m'
    using s room unfolding r' sound_def by auto
  ultimately show ?thesis using s unfolding sound_def by simp
qed

lemma start_sound:
  assumes a: "acquire_start c req remote now r = (a, r')" and d: "distinct (map r_Node remote)"
    and self: "c_Self c \<noteq> ''''" and s: "sound c H r"
  shows "sound c (case a of Acquired l \<Rightarrow> insert l H | _ \<Rightarrow> H) r'"
proof -
  define reports where "reports = (if \<not> q_Forwarded req then remote else [])"
  obtain res r1 where p: "pickWithReportsLocked c req reports now r = (res, r1)" by fastforce
  have pl: "pickLocked c req remote now r = (res, r1)" using p by (simp add: pickLocked_def reports_def)
  have "distinct (map r_Node reports)" using d by (simp add: reports_def)
  from pick_sound [OF p this self s] have ps: "case res of Inl _ \<Rightarrow> sound c H r1 | Inr l \<Rightarrow> sound c (insert l H) r1"
    by (auto split: sum.splits)
  show ?thesis
  proof (cases "\<exists>w. a = Waiting w")
    case False
    then show ?thesis
      using a pl ps by (auto simp: acquire_start_def Let_def split: sum.splits if_splits)
  next
    case True
    then obtain w e where w: "a = Waiting w" and e: "res = Inl e"
      using a pl by (auto simp: acquire_start_def Let_def split: sum.splits if_splits)
    have "w = rt_next r1 \<and> \<not> (c_QueueMax c \<le> 0 \<or> int (length (rt_queues r1 (q_Model req))) \<ge> c_QueueMax c) \<and>
      r' = r1\<lparr>rt_waiters := (rt_waiters r1)(w \<mapsto> \<lparr>w_req = queued_request req, w_result = None, w_done = False\<rparr>),
        rt_next := rt_next r1 + 1, rt_queues := (rt_queues r1)(q_Model req := rt_queues r1 (q_Model req) @ [w])\<rparr>"
      using a pl e unfolding w by (auto simp: acquire_start_def Let_def split: if_splits)
    then show ?thesis
      using enqueue_sound [of c H r1 w "\<lparr>w_req = queued_request req, w_result = None, w_done = False\<rparr>" "q_Model req" r']
        ps e w queued_plain by (simp add: queued_request_def)
  qed
qed

lemma gateway_sound:
  assumes "gateway_run c H r" and self: "c_Self c \<noteq> ''''"
  shows "sound c H r"
  using assms(1)
proof induction
  case (start store rand models)
  then show ?case
    by (auto simp: sound_def New_def queue_ok_def delivered_once_def pending_def accounted_def lease_ids_def
        counted_def on_backend_def on_peer_def)
next
  case (acquired H r remote req now l r')
  then show ?case using start_sound [OF acquired(3,2) self acquired(4)] by simp
next
  case (refused_or_waiting H r remote req now a r')
  then show ?case
    using start_sound [OF refused_or_waiting(3,2) self refused_or_waiting(5)] by (simp split: acquired.splits)
next
  case (result H r w res r')
  then show ?case using receive_sound by (simp add: acquire_result_def)
next
  case (timeout H r w res r')
  obtain a r1 where l: "leave w r = Some (a, r1)" using timeout(2) by (auto simp: acquire_timeout_def)
  then have "res = (case a of Inl _ \<Rightarrow> Inl ErrQueueTimeout | Inr res \<Rightarrow> res)" "leave w r = Some (a, r')"
    using timeout(2) by (auto simp: acquire_timeout_def split: sum.splits)
  with leave_sound [OF this(2) timeout(3)] show ?case by (cases a) (simp_all add: receives_def)
next
  case (cancelled H r remote now orders w res r')
  then obtain a r1 where l: "leave w r = Some (a, r1)" by (auto simp: acquire_cancelled_def split: option.splits)
  note s = leave_sound [OF l cancelled(4)]
  show ?case
  proof (cases "\<exists>l. a = Inr (Inr l)")
    case True
    then obtain l where la: "a = Inr (Inr l)" by blast
    then have rel: "lease_Release c remote now orders l r1 = Some r'" and "sound c (insert l H) r1"
      using cancelled(3) s \<open>leave w r = Some (a, r1)\<close> by (auto simp: acquire_cancelled_def receives_def)
    from release_sound [OF this _ cancelled(2) self] have "sound c (insert l H - {l}) r'" by simp
    moreover have "l \<notin> H"
    proof -
      have "l \<in> pending r"
        using l la by (auto simp: leave_def receive_def pending_def split: option.splits if_splits)
      then show ?thesis using cancelled(4) by (auto simp: sound_def)
    qed
    ultimately show ?thesis by simp
  next
    case False
    then have "r' = r1" using cancelled(3) l by (auto simp: acquire_cancelled_def split: sum.splits)
    then show ?thesis using s False by (auto simp: receives_def split: sum.splits)
  qed
next
  case (released H r remote l now orders r')
  then show ?case using release_sound self by blast
next
  case (refused H r l now)
  then have "sound c H r" by simp
  moreover have "accounted L (Refused l now r) = accounted L r" for L
    by (simp add: Refused_def accounted_def lease_ids_def counted_def)
  ultimately show ?case by (simp add: sound_def Refused_def queue_ok_def delivered_once_def pending_def)
next
  case (woken H r remote now orders r')
  then show ?case using dispatch_sound self by (simp add: Wake_def)
next
  case (supervised H r store models)
  then have "accounted (H \<union> pending r) (r\<lparr>rt_store := store, rt_models := models\<rparr>)"
    using accounted_cong [of "H \<union> pending r" r "r\<lparr>rt_store := store, rt_models := models\<rparr>"] by (simp add: sound_def)
  then show ?case using supervised by (simp add: sound_def queue_ok_def delivered_once_def pending_def)
qed

section \<open>Properties of all runs\<close>

text \<open>A run for the examples: one request holds the last slot of a peer, two more wait for it.\<close>

definition sample_wait_config :: config where
  "sample_wait_config = sample_router_config\<lparr>c_QueueMax := 2\<rparr>"

definition sample_held :: lease where
  "sample_held = \<lparr>l_id = 1, l_target = \<lparr>t_Local = False, t_Node = ''gb2'', t_BackendID = '''', t_Addr = ''gb2''\<rparr>,
     l_backend = None, l_key = (''gb2'', ''m''), l_res = 0\<rparr>"

definition sample_taken :: router where
  "sample_taken = snd (acquire_start sample_wait_config (sample_request ''m'') [sample_report ''gb2'' 1] 110 sample_gateway)"

definition sample_waiting :: router where
  "sample_waiting = snd (acquire_start sample_wait_config (sample_request ''m'') [sample_report ''gb2'' 1] 111
     (snd (acquire_start sample_wait_config (sample_request ''m'') [sample_report ''gb2'' 1] 111 sample_taken)))"

lemmas queue_eval = router_eval acquire_start_def sample_wait_config_def queued_request_def sample_held_def

lemma sample_taken_eq:
  "acquire_start sample_wait_config (sample_request ''m'') [sample_report ''gb2'' 1] 110 sample_gateway =
     (Acquired sample_held, sample_taken)"
  unfolding sample_taken_def by (simp add: queue_eval Let_def)

lemma sample_runs: "gateway_run sample_wait_config {sample_held} sample_taken"
  by (rule gateway_run.acquired [OF gateway_run.start _ sample_taken_eq [unfolded sample_gateway_def]])
     (simp_all add: sample_defs)

lemma sample_waits:
  "\<exists>s. acquire_start sample_wait_config (sample_request ''m'') [sample_report ''gb2'' 1] 111 sample_taken =
     (Waiting 2, s) \<and>
   acquire_start sample_wait_config (sample_request ''m'') [sample_report ''gb2'' 1] 111 s = (Waiting 3, sample_waiting)"
  unfolding sample_waiting_def sample_taken_def by (simp add: queue_eval Let_def)

lemma sample_waiting_runs: "gateway_run sample_wait_config {sample_held} sample_waiting"
proof -
  obtain s where s: "acquire_start sample_wait_config (sample_request ''m'') [sample_report ''gb2'' 1] 111 sample_taken =
      (Waiting 2, s)"
    "acquire_start sample_wait_config (sample_request ''m'') [sample_report ''gb2'' 1] 111 s = (Waiting 3, sample_waiting)"
    using sample_waits by blast
  have "gateway_run sample_wait_config {sample_held} s"
    by (rule gateway_run.refused_or_waiting [OF sample_runs _ s(1)]) simp_all
  then show ?thesis
    by (rule gateway_run.refused_or_waiting [OF _ _ s(2)]) simp_all
qed

lemma sample_wait_self [simp]: "c_Self sample_wait_config = ''gb1''"
  by (simp add: sample_wait_config_def)

lemma sample_waiting_queues [simp]: "rt_queues sample_waiting = (\<lambda>m. if m = ''m'' then [2, 3] else [])"
  unfolding sample_waiting_def sample_taken_def by (simp add: queue_eval Let_def fun_eq_iff)

text \<open>C1. Slots are never lost and never handed out twice. In every state the router can reach, under any
  sequence of picks, waits, dispatches, timeouts, cancellations, refusals and releases, the in-flight
  counter of a local backend is the number of leases on it that are out (held by a caller or in a waiter's
  result channel), and the reservations for a peer and model are as many as the leases on them that are
  out.\<close>

theorem leases_accounted:
  assumes "gateway_run c H r" and "c_Self c \<noteq> ''''"
  shows "InFlight (rt_store r b) = int (card {l \<in> H \<union> pending r. l_backend l = Some b}) \<and>
    length (rt_reservations r key) = card {l \<in> H \<union> pending r. l_backend l = None \<and> l_key l = key}"
proof -
  have a: "accounted (H \<union> pending r) r" using gateway_sound [OF assms] by (simp add: sound_def)
  then have "InFlight (rt_store r b) = int (card (on_backend (H \<union> pending r) b))"
    unfolding accounted_def counted_def by blast
  moreover have ids: "distinct (map rs_id (rt_reservations r key))"
    "set (map rs_id (rt_reservations r key)) = l_res ` on_peer (H \<union> pending r) key"
    using a unfolding accounted_def counted_def by blast+
  moreover have "inj_on l_res (on_peer (H \<union> pending r) key)"
    using a unfolding accounted_def lease_ids_def on_peer_def by (auto intro: inj_on_subset)
  then have "card (l_res ` on_peer (H \<union> pending r) key) = card (on_peer (H \<union> pending r) key)"
    by (rule card_image)
  then have "length (rt_reservations r key) = card (on_peer (H \<union> pending r) key)"
    using distinct_card [OF ids(1)] unfolding ids(2) by simp
  ultimately show ?thesis by (simp add: on_backend_def on_peer_def)
qed

theorem leases_accounted_witness:
  "gateway_run sample_wait_config {sample_held} sample_taken \<and>
   length (rt_reservations sample_taken (''gb2'', ''m'')) =
     card {l \<in> {sample_held} \<union> pending sample_taken. l_backend l = None \<and> l_key l = (''gb2'', ''m'')}"
  using sample_runs leases_accounted [OF sample_runs, of 0 "(''gb2'', ''m'')"] by simp

text \<open>C11. Releasing a lease always returns. In every state the router can reach, \<open>Release\<close> of a lease a caller holds
  neither panics on the backend's counter nor spins: the dispatch it triggers ends.\<close>

theorem release_returns:
  assumes "gateway_run c H r" and "c_Self c \<noteq> ''''" and "l \<in> H" and "distinct (map r_Node remote)"
    and "\<forall>k. {m. rt_queues r m \<noteq> []} \<subseteq> set (orders k)"
  shows "\<exists>r'. lease_Release c remote now orders l r = Some r'"
proof -
  have s: "sound c H r" using gateway_sound assms(1,2) by blast
  then have "accounted (H \<union> pending r) r" by (simp add: sound_def)
  from accounted_release [OF this, of l] assms(3) obtain r1 where r1: "release_slot l r = Some r1"
    "rt_queues r1 = rt_queues r" "rt_waiters r1 = rt_waiters r" "rt_next r1 = rt_next r"
    by blast
  have "queue_ok r1" using s r1 by (simp add: sound_def queue_ok_def)
  then have "\<exists>r'. dispatchLocked c remote now orders r1 = Some r'"
    using dispatch_served [OF _ assms(4,2), of r1 orders now] assms(5) unfolding r1(2) by blast
  then show ?thesis using r1(1) by (simp add: lease_Release_def Wake_def)
qed

theorem release_returns_witness:
  "\<exists>r'. lease_Release sample_wait_config [sample_report ''gb2'' 1] 120 (\<lambda>_. [''m'']) sample_held sample_waiting = Some r'"
  by (rule release_returns [OF sample_waiting_runs]) auto

text \<open>C3. A wake-up always returns and is work-conserving: whatever the order in which Go visits the queues,
  the dispatch loop ends, and afterwards no waiting request is left for which the router would
  find a slot, although a scan skips the waiters behind a refused one.\<close>

theorem wake_serves_all_it_can:
  assumes "gateway_run c H r" and "c_Self c \<noteq> ''''" and "distinct (map r_Node remote)"
    and "\<forall>k. {m. rt_queues r m \<noteq> []} \<subseteq> set (orders k)"
  shows "\<exists>r'. Wake c remote now orders r = Some r' \<and>
    (\<forall>m. \<forall>w\<in>set (rt_queues r' m). \<exists>x. rt_waiters r' w = Some x \<and>
       (\<forall>l r''. pickWithReportsLocked c (w_req x) remote now r' \<noteq> (Inr l, r'')))"
proof -
  have s: "sound c H r" using gateway_sound assms(1,2) by blast
  then have q: "queue_ok r" by (simp add: sound_def)
  from dispatch_served [OF this assms(3,2,4)] obtain r' C where r': "dispatchLocked c remote now orders r = Some r'"
    "served r C r'" "idle c remote now UNIV r'" by blast
  have q': "queue_ok r'" using completes_ok [OF _ q] r'(2) unfolding served_def by blast
  have "\<exists>x. rt_waiters r' w = Some x \<and> (\<forall>l r''. pickWithReportsLocked c (w_req x) remote now r' \<noteq> (Inr l, r''))"
    if w: "w \<in> set (rt_queues r' m)" for m w
  proof -
    obtain x where x: "rt_waiters r' w = Some x" using q' w unfolding queue_ok_def by blast
    then have "\<not> pick_succeeds c (w_req x) remote now r'"
      using r'(3) w unfolding idle_def req_of_def by fastforce
    then show ?thesis using x by (auto simp: pick_succeeds_def)
  qed
  then show ?thesis using r'(1) by (auto simp: Wake_def)
qed

theorem wake_serves_all_it_can_witness:
  "\<exists>r'. Wake sample_wait_config [sample_report ''gb2'' 1] 120 (\<lambda>_. [''m'']) sample_waiting = Some r' \<and>
    (\<forall>m. \<forall>w\<in>set (rt_queues r' m). \<exists>x. rt_waiters r' w = Some x \<and>
       (\<forall>l r''. pickWithReportsLocked sample_wait_config (w_req x) [sample_report ''gb2'' 1] 120 r' \<noteq> (Inr l, r'')))"
  by (rule wake_serves_all_it_can [OF sample_waiting_runs]) auto



text \<open>A queue never grows beyond \<open>QueueMax\<close>, in every state the router can reach.\<close>

lemma queue_bounded:
  assumes "gateway_run c H r" and "c_Self c \<noteq> ''''"
  shows "QueueLen r m \<le> max 0 (c_QueueMax c)"
  using gateway_sound [OF assms] by (simp add: sound_def QueueLen_def)

lemma queue_bounded_witness: "QueueLen sample_waiting ''m'' \<le> 2"
  using queue_bounded [OF sample_waiting_runs, of "''m''"] by (simp add: sample_wait_config_def sample_router_config_def)

end
