(* ===== verification/Durable.thy ===== *)
theory Durable
  imports Prelude
begin

text \<open>
  Replacing a file durably (\<open>internal/durable\<close>): write and sync a temporary file of one's own, rename it over
  the target, sync the directory. The operating system's calls are steps on a file state with the target and the
  temporary file; each of them may fail, a failing write after any number of bytes, and the machine may stop
  after any of them.
\<close>

section \<open>Definitions\<close>

record file_state =
  fs_target :: "string option"
  fs_tmp :: "string option"

datatype durable_call = CreateTemp | WriteData | Chmod | SyncFile | CloseFile | Rename | OpenDir | SyncDir

definition durable_calls :: "durable_call list" where
  "durable_calls = [CreateTemp, WriteData, Chmod, SyncFile, CloseFile, Rename, OpenDir, SyncDir]"

fun do_call :: "string \<Rightarrow> durable_call \<Rightarrow> file_state \<Rightarrow> file_state" where
  "do_call data CreateTemp s = s\<lparr>fs_tmp := Some ''''\<rparr>"
| "do_call data WriteData s = s\<lparr>fs_tmp := Some data\<rparr>"
| "do_call data Rename s = s\<lparr>fs_target := fs_tmp s, fs_tmp := None\<rparr>"
| "do_call data _ s = s"

text \<open>A call that fails changes nothing, except that a failing write may have written part of the data.\<close>

fun fail_call :: "string \<Rightarrow> nat \<Rightarrow> durable_call \<Rightarrow> file_state \<Rightarrow> file_state" where
  "fail_call data part WriteData s = s\<lparr>fs_tmp := Some (take part data)\<rparr>"
| "fail_call data part _ s = s"

text \<open>A fault: the position of the first failing call and the bytes a failing write managed.\<close>

type_synonym fault = "(nat \<times> nat) option"

fun run_calls :: "string \<Rightarrow> fault \<Rightarrow> durable_call list \<Rightarrow> file_state \<Rightarrow> bool \<times> file_state" where
  "run_calls data f [] s = (True, s)"
| "run_calls data (Some (0, part)) (call # calls) s = (False, fail_call data part call s)"
| "run_calls data (Some (Suc n, part)) (call # calls) s =
     run_calls data (Some (n, part)) calls (do_call data call s)"
| "run_calls data None (call # calls) s = run_calls data None calls (do_call data call s)"

text \<open>On an error the deferred call removes the temporary file.\<close>

definition WriteFileMode :: "fault \<Rightarrow> string \<Rightarrow> file_state \<Rightarrow> bool \<times> file_state" where
  "WriteFileMode f data s =
     (case run_calls data f durable_calls s of
        (ok, s) \<Rightarrow> (ok, if ok then s else s\<lparr>fs_tmp := None\<rparr>))"

definition WriteFile :: "fault \<Rightarrow> string \<Rightarrow> file_state \<Rightarrow> bool \<times> file_state" where
  "WriteFile f data s = WriteFileMode f data s"

section \<open>Old or new\<close>

lemma call_count_cases:
  obtains "n = 0" | "n = Suc 0" | "n = Suc (Suc 0)" | "n = Suc (Suc (Suc 0))" | "n = Suc (Suc (Suc (Suc 0)))"
    | "n = Suc (Suc (Suc (Suc (Suc 0))))" | "n = Suc (Suc (Suc (Suc (Suc (Suc 0)))))"
    | "n = Suc (Suc (Suc (Suc (Suc (Suc (Suc 0))))))"
    | m where "n = Suc (Suc (Suc (Suc (Suc (Suc (Suc (Suc m)))))))"
proof -
  have "n = 0 \<or> n = Suc 0 \<or> n = Suc (Suc 0) \<or> n = Suc (Suc (Suc 0)) \<or> n = Suc (Suc (Suc (Suc 0))) \<or>
      n = Suc (Suc (Suc (Suc (Suc 0)))) \<or> n = Suc (Suc (Suc (Suc (Suc (Suc 0))))) \<or>
      n = Suc (Suc (Suc (Suc (Suc (Suc (Suc 0)))))) \<or> (\<exists>m. n = Suc (Suc (Suc (Suc (Suc (Suc (Suc (Suc m))))))))"
    by presburger
  then show thesis using that by blast
qed

lemma run_calls_cases:
  "case run_calls data f durable_calls s of (ok, s') \<Rightarrow>
     (ok \<longrightarrow> fs_target s' = Some data \<and> fs_tmp s' = None) \<and>
     (fs_target s' = fs_target s \<or> fs_target s' = Some data)"
proof (cases f)
  case None
  then show ?thesis by (simp add: durable_calls_def)
next
  case (Some a)
  obtain n part where a: "a = (n, part)" by (cases a)
  show ?thesis
    by (cases n rule: call_count_cases) (simp_all add: Some a durable_calls_def)
qed

lemma write_file_outcome:
  assumes "WriteFile f data s = (ok, s')"
  shows "ok \<Longrightarrow> fs_target s' = Some data" and "fs_target s' = fs_target s \<or> fs_target s' = Some data"
    and "fs_tmp s' = None"
proof -
  from run_calls_cases [where data = data and f = f and s = s] obtain ok1 s1 where r: "run_calls data f durable_calls s = (ok1, s1)"
    "ok1 \<longrightarrow> fs_target s1 = Some data \<and> fs_tmp s1 = None" "fs_target s1 = fs_target s \<or> fs_target s1 = Some data"
    by fastforce
  have s': "ok = ok1" "s' = (if ok1 then s1 else s1\<lparr>fs_tmp := None\<rparr>)"
    using assms r(1) by (auto simp: WriteFile_def WriteFileMode_def)
  show "ok \<Longrightarrow> fs_target s' = Some data" "fs_target s' = fs_target s \<or> fs_target s' = Some data" "fs_tmp s' = None"
    using r(2,3) unfolding s' by auto
qed

lemma write_file_no_fault: "WriteFile None data s = (True, s\<lparr>fs_target := Some data, fs_tmp := None\<rparr>)"
  by (simp add: WriteFile_def WriteFileMode_def durable_calls_def)



end
