(* ===== verification/AliasStore.thy ===== *)
theory AliasStore
  imports Durable "HOL-Library.AList" "HOL-Library.Product_Lexorder"
begin

text \<open>
  The mesh-wide table of model aliases (\<open>meshapi/aliases.go\<close>, \<open>internal/alias/store.go\<close> and
  \<open>internal/alias/merge.go\<close>): versioned entries with tombstones and a bounded history, local writes, the
  merge rule for entries that arrive by gossip, and the durable file behind the table. A Go map is an
  association list with distinct keys; Go's \<open>nil\<close> and empty slices are the same list. The JSON encoder of the table is the
  argument \<open>marshal\<close>, its decoder \<open>unmarshal\<close>; the wall clock arrives as Unix milliseconds. Every write takes
  the fault of its durable file write as an argument.
\<close>

section \<open>Wire types\<close>

definition AliasTableVersion :: int where "AliasTableVersion = 1"

definition MaxAliases :: int where "MaxAliases = 256"

definition MaxAliasHistory :: nat where "MaxAliasHistory = 10"

text \<open>In milliseconds.\<close>

definition AliasTombstoneTTL :: int where "AliasTombstoneTTL = 30 * 24 * 3600 * 1000"

record AliasVersion =
  av_Target :: string
  av_Fallbacks :: "string list"
  av_TS :: int
  av_By :: string

record AliasEntry =
  ae_Target :: string
  ae_Fallbacks :: "string list"
  ae_Ver :: "64 word"
  ae_TS :: int
  ae_By :: string
  ae_Deleted :: bool
  ae_History :: "AliasVersion list"

record AliasTable =
  at_V :: int
  at_Aliases :: "(string \<times> AliasEntry) list"

record AliasBroadcast =
  ab_Name :: string
  ab_Entry :: AliasEntry

definition zero_AliasEntry :: AliasEntry where
  "zero_AliasEntry =
     \<lparr>ae_Target = '''', ae_Fallbacks = [], ae_Ver = 0, ae_TS = 0, ae_By = '''', ae_Deleted = False, ae_History = []\<rparr>"

definition alias_char :: "char \<Rightarrow> bool" where
  "alias_char c \<longleftrightarrow>
     (let n = of_char c :: nat in 65 \<le> n \<and> n \<le> 90 \<or> 97 \<le> n \<and> n \<le> 122 \<or> 48 \<le> n \<and> n \<le> 57 \<or> c \<in> {CHR ''.'', CHR ''_'', CHR ''-''})"

definition ValidAliasName :: "string \<Rightarrow> bool" where
  "ValidAliasName name \<longleftrightarrow> 1 \<le> length name \<and> length name \<le> 64 \<and> list_all alias_char name"

definition winner :: "bool \<Rightarrow> int" where
  "winner aWins = (if aWins then 1 else - 1)"

definition CompareAliasEntries :: "AliasEntry \<Rightarrow> AliasEntry \<Rightarrow> int" where
  "CompareAliasEntries a b =
     (if ae_Ver a \<noteq> ae_Ver b then winner (ae_Ver a > ae_Ver b)
      else if ae_TS a \<noteq> ae_TS b then winner (ae_TS a > ae_TS b)
      else if ae_By a \<noteq> ae_By b then winner (ae_By a > ae_By b)
      else 0)"

definition IsAliasConflict :: "AliasEntry \<Rightarrow> AliasEntry \<Rightarrow> bool" where
  "IsAliasConflict a b \<longleftrightarrow> ae_Ver a = ae_Ver b \<and> (ae_TS a \<noteq> ae_TS b \<or> ae_By a \<noteq> ae_By b)"

section \<open>The store\<close>

datatype alias_error = ErrNotFound | ErrNoHistory | ErrTooMany | ErrVersionExhausted | ErrInvalidName | ErrPersist

record store =
  st_self :: string
  st_table :: AliasTable
  st_files :: file_state

type_synonym marshal = "AliasTable \<Rightarrow> string"

definition MaxAliasVer :: "64 word" where
  "MaxAliasVer = 2 ^ 53"

definition store_peek :: "store \<Rightarrow> string \<Rightarrow> AliasEntry option" where
  "store_peek s name = map_of (at_Aliases (st_table s)) name"

definition store_Get :: "store \<Rightarrow> string \<Rightarrow> AliasEntry option" where
  "store_Get s name = map_of (at_Aliases (st_table s)) name"

definition Table :: "store \<Rightarrow> AliasTable" where
  "Table s = st_table s"

definition liveLocked :: "store \<Rightarrow> int" where
  "liveLocked s = int (length (filter (\<lambda>(_, e). \<not> ae_Deleted e) (at_Aliases (st_table s))))"

definition Live :: "store \<Rightarrow> int" where
  "Live s = liveLocked s"

definition put_entry :: "string \<Rightarrow> AliasEntry \<Rightarrow> store \<Rightarrow> store" where
  "put_entry name e s =
     s\<lparr>st_table := (st_table s)\<lparr>at_Aliases := AList.update name e (at_Aliases (st_table s))\<rparr>\<rparr>"

definition drop_entry :: "string \<Rightarrow> store \<Rightarrow> store" where
  "drop_entry name s = s\<lparr>st_table := (st_table s)\<lparr>at_Aliases := AList.delete name (at_Aliases (st_table s))\<rparr>\<rparr>"

definition versionOf :: "AliasEntry \<Rightarrow> AliasVersion" where
  "versionOf e = \<lparr>av_Target = ae_Target e, av_Fallbacks = ae_Fallbacks e, av_TS = ae_TS e, av_By = ae_By e\<rparr>"

definition capHistory :: "AliasVersion list \<Rightarrow> AliasVersion list" where
  "capHistory h = (if length h > MaxAliasHistory then take MaxAliasHistory h else h)"

text \<open>\<open>prev\<close> is \<open>None\<close> for an alias the table does not have.\<close>

definition historyAfter :: "AliasEntry option \<Rightarrow> AliasVersion list \<Rightarrow> AliasVersion list" where
  "historyAfter prev rest =
     capHistory ((case prev of None \<Rightarrow> [] | Some p \<Rightarrow> if \<not> ae_Deleted p then [versionOf p] else []) @ rest)"

definition nextVersion :: "string \<Rightarrow> int \<Rightarrow> AliasEntry \<Rightarrow> alias_error + AliasEntry" where
  "nextVersion self now_ms prev =
     (if ae_Ver prev \<ge> MaxAliasVer then Inl ErrVersionExhausted
      else Inr (zero_AliasEntry\<lparr>ae_Ver := ae_Ver prev + 1, ae_TS := now_ms, ae_By := self\<rparr>))"

definition persistLocked :: "marshal \<Rightarrow> fault \<Rightarrow> store \<Rightarrow> bool \<times> store" where
  "persistLocked marshal f s =
     (case WriteFile f (marshal (st_table s)) (st_files s) of (ok, files) \<Rightarrow> (ok, s\<lparr>st_files := files\<rparr>))"

definition restoreLocked :: "string \<Rightarrow> AliasEntry option \<Rightarrow> store \<Rightarrow> store" where
  "restoreLocked name prev s = (case prev of Some p \<Rightarrow> put_entry name p s | None \<Rightarrow> drop_entry name s)"

definition commitLocked :: "marshal \<Rightarrow> fault \<Rightarrow> string \<Rightarrow> AliasEntry \<Rightarrow> store \<Rightarrow>
    (alias_error + AliasEntry) \<times> store" where
  "commitLocked marshal f name e s =
     (let prev = store_peek s name in
      case persistLocked marshal f (put_entry name e s) of
        (True, s) \<Rightarrow> (Inr e, s)
      | (False, s) \<Rightarrow> (Inl ErrPersist, restoreLocked name prev s))"

definition entry_or_zero :: "AliasEntry option \<Rightarrow> AliasEntry" where
  "entry_or_zero prev = (case prev of None \<Rightarrow> zero_AliasEntry | Some p \<Rightarrow> p)"

definition store_Set :: "marshal \<Rightarrow> fault \<Rightarrow> int \<Rightarrow> string \<Rightarrow> string \<Rightarrow> string list \<Rightarrow> store \<Rightarrow>
    (alias_error + AliasEntry) \<times> store" where
  "store_Set marshal f now_ms name target fallbacks s =
     (if \<not> ValidAliasName name then (Inl ErrInvalidName, s)
      else
        let prev = store_peek s name in
        if (prev = None \<or> ae_Deleted (entry_or_zero prev)) \<and> liveLocked s \<ge> MaxAliases then (Inl ErrTooMany, s)
        else
          case nextVersion (st_self s) now_ms (entry_or_zero prev) of
            Inl err \<Rightarrow> (Inl err, s)
          | Inr e \<Rightarrow>
              commitLocked marshal f name
                (e\<lparr>ae_Target := target, ae_Fallbacks := fallbacks,
                   ae_History := historyAfter prev (ae_History (entry_or_zero prev))\<rparr>) s)"

definition store_Delete :: "marshal \<Rightarrow> fault \<Rightarrow> int \<Rightarrow> string \<Rightarrow> store \<Rightarrow> (alias_error + AliasEntry) \<times> store" where
  "store_Delete marshal f now_ms name s =
     (case store_peek s name of
        None \<Rightarrow> (Inl ErrNotFound, s)
      | Some prev \<Rightarrow>
          if ae_Deleted prev then (Inl ErrNotFound, s)
          else
            case nextVersion (st_self s) now_ms prev of
              Inl err \<Rightarrow> (Inl err, s)
            | Inr e \<Rightarrow>
                commitLocked marshal f name
                  (e\<lparr>ae_Fallbacks := [], ae_Deleted := True, ae_History := historyAfter (Some prev) (ae_History prev)\<rparr>) s)"

definition store_Revert :: "marshal \<Rightarrow> fault \<Rightarrow> int \<Rightarrow> string \<Rightarrow> store \<Rightarrow> (alias_error + AliasEntry) \<times> store" where
  "store_Revert marshal f now_ms name s =
     (case store_peek s name of
        None \<Rightarrow> (Inl ErrNotFound, s)
      | Some prev \<Rightarrow>
          (case ae_History prev of
             [] \<Rightarrow> (Inl ErrNoHistory, s)
           | back # rest \<Rightarrow>
               (case nextVersion (st_self s) now_ms prev of
                  Inl err \<Rightarrow> (Inl err, s)
                | Inr e \<Rightarrow>
                    commitLocked marshal f name
                      (e\<lparr>ae_Target := av_Target back, ae_Fallbacks := av_Fallbacks back,
                         ae_History := historyAfter (Some prev) rest\<rparr>) s)))"

definition PurgeTombstones :: "marshal \<Rightarrow> fault \<Rightarrow> int \<Rightarrow> store \<Rightarrow> (alias_error + int) \<times> store" where
  "PurgeTombstones marshal f now_ms s =
     (let cutoff = now_ms - AliasTombstoneTTL;
          old = (\<lambda>(_, e). ae_Deleted e \<and> ae_TS e < cutoff);
          removed = filter old (at_Aliases (st_table s));
          kept = filter (\<lambda>x. \<not> old x) (at_Aliases (st_table s))
      in if removed = [] then (Inr 0, s)
         else
           case persistLocked marshal f (s\<lparr>st_table := (st_table s)\<lparr>at_Aliases := kept\<rparr>\<rparr>) of
             (True, s) \<Rightarrow> (Inr (int (length removed)), s)
           | (False, s) \<Rightarrow> (Inl ErrPersist, fold (\<lambda>(name, e). put_entry name e) removed s))"

datatype open_error = OpenRead | OpenDecode | OpenVersion int | OpenNotWritable | OpenPurge alias_error

text \<open>\<open>readErr\<close> is a read failure other than a missing file; \<open>writable\<close> the outcome of the probe file.\<close>

definition openWith :: "marshal \<Rightarrow> (string \<Rightarrow> AliasTable option) \<Rightarrow> bool \<Rightarrow> bool \<Rightarrow> fault \<Rightarrow> int \<Rightarrow> string \<Rightarrow>
    file_state \<Rightarrow> open_error + store" where
  "openWith marshal unmarshal readErr writable f now_ms self files =
     (let empty = \<lparr>at_V = AliasTableVersion, at_Aliases = []\<rparr>;
          loaded =
            (if readErr then Inl OpenRead
             else case fs_target files of
                    None \<Rightarrow> Inr empty
                  | Some data \<Rightarrow>
                      (case unmarshal data of
                         None \<Rightarrow> Inl OpenDecode
                       | Some t \<Rightarrow> if at_V t \<noteq> AliasTableVersion then Inl (OpenVersion (at_V t)) else Inr t))
      in case loaded of
           Inl err \<Rightarrow> Inl err
         | Inr t \<Rightarrow>
             if \<not> writable then Inl OpenNotWritable
             else
               (case PurgeTombstones marshal f now_ms \<lparr>st_self = self, st_table = t, st_files = files\<rparr> of
                  (Inl err, _) \<Rightarrow> Inl (OpenPurge err)
                | (Inr _, s) \<Rightarrow> Inr s))"

section \<open>Merging\<close>

record alias_conflict =
  cf_Name :: string
  cf_Winner :: AliasEntry
  cf_Loser :: AliasEntry

record undo =
  u_name :: string
  u_prev :: "AliasEntry option"

definition acceptRemote :: "AliasEntry \<Rightarrow> bool" where
  "acceptRemote remote \<longleftrightarrow> \<not> (ae_Target remote = '''' \<and> \<not> ae_Deleted remote) \<and> ae_Ver remote \<le> MaxAliasVer"

definition withLoserFirst :: "AliasVersion list \<Rightarrow> AliasEntry \<Rightarrow> AliasVersion list" where
  "withLoserFirst h loser =
     (if ae_Deleted loser then h
      else if list_ex (\<lambda>v. av_TS v = ae_TS loser \<and> av_By v = ae_By loser) h then h
      else capHistory (versionOf loser # h))"

fun unseen :: "(int \<times> string) list \<Rightarrow> AliasVersion list \<Rightarrow> AliasVersion list" where
  "unseen seen [] = []"
| "unseen seen (v # vs) =
     (if (av_TS v, av_By v) \<in> set seen then unseen seen vs else v # unseen ((av_TS v, av_By v) # seen) vs)"

text \<open>The stable descending sort of \<open>sort.SliceStable\<close>: the ascending one of the mirrored list, mirrored.\<close>

definition unionHistory :: "AliasVersion list \<Rightarrow> AliasVersion list \<Rightarrow> AliasVersion list" where
  "unionHistory a b = capHistory (rev (sort_key (\<lambda>v. (av_TS v, av_By v)) (rev (unseen [] (a @ b)))))"

definition historiesEqual :: "AliasVersion list \<Rightarrow> AliasVersion list \<Rightarrow> bool" where
  "historiesEqual a b \<longleftrightarrow>
     list_all2 (\<lambda>x y. av_TS x = av_TS y \<and> av_By x = av_By y \<and> av_Target x = av_Target y \<and>
       av_Fallbacks x = av_Fallbacks y) a b"

definition mergeLocked :: "string \<Rightarrow> AliasEntry \<Rightarrow> store \<Rightarrow> (bool \<times> alias_conflict option \<times> undo) \<times> store" where
  "mergeLocked name remote s =
     (let prev = store_peek s name;
          u = \<lparr>u_name = name, u_prev = prev\<rparr>
      in if \<not> acceptRemote remote then ((False, None, u), s)
         else
           let remote = remote\<lparr>ae_History := capHistory (ae_History remote)\<rparr> in
           case prev of
             None \<Rightarrow> ((True, None, u), put_entry name remote s)
           | Some local \<Rightarrow>
               let conflicted = IsAliasConflict remote local;
                   c = CompareAliasEntries remote local
               in if c > 0 then
                    let result = (if ae_History remote = []
                                  then remote\<lparr>ae_History := historyAfter (Some local) (ae_History local)\<rparr>
                                  else remote);
                        result = (if conflicted
                                  then result\<lparr>ae_History := withLoserFirst (ae_History result) local\<rparr>
                                  else result);
                        conflict = (if conflicted
                                    then Some \<lparr>cf_Name = name, cf_Winner = result, cf_Loser = local\<rparr> else None)
                    in ((True, conflict, u), put_entry name result s)
                  else if c < 0 then
                    if \<not> conflicted then ((False, None, u), s)
                    else
                      let result = local\<lparr>ae_History := withLoserFirst (ae_History local) remote\<rparr>;
                          conflict = Some \<lparr>cf_Name = name, cf_Winner = result, cf_Loser = remote\<rparr>
                      in if historiesEqual (ae_History result) (ae_History local) then ((False, conflict, u), s)
                         else ((True, conflict, u), put_entry name result s)
                  else
                    let united = unionHistory (ae_History local) (ae_History remote) in
                    if historiesEqual united (ae_History local) then ((False, None, u), s)
                    else ((True, None, u), put_entry name (local\<lparr>ae_History := united\<rparr>) s))"

definition Merge :: "marshal \<Rightarrow> fault \<Rightarrow> string \<Rightarrow> AliasEntry \<Rightarrow> store \<Rightarrow>
    (alias_error + bool \<times> alias_conflict option) \<times> store" where
  "Merge marshal f name remote s =
     (if \<not> ValidAliasName name then (Inr (False, None), s)
      else
        case mergeLocked name remote s of
          ((changed, conflict, u), s1) \<Rightarrow>
            if \<not> changed then (Inr (False, conflict), s1)
            else
              (case persistLocked marshal f s1 of
                 (True, s2) \<Rightarrow> (Inr (True, conflict), s2)
               | (False, s2) \<Rightarrow> (Inl ErrPersist, restoreLocked (u_name u) (u_prev u) s2)))"

fun merge_all :: "(string \<times> AliasEntry) list \<Rightarrow> string list \<Rightarrow> string list \<Rightarrow>
    alias_conflict list \<Rightarrow> undo list \<Rightarrow> store \<Rightarrow> (string list \<times> alias_conflict list \<times> undo list) \<times> store" where
  "merge_all t [] changed conflicts undos s = ((changed, conflicts, undos), s)"
| "merge_all t (name # names) changed conflicts undos s =
     (case mergeLocked name (entry_or_zero (map_of t name)) s of
        ((c, conflict, u), s) \<Rightarrow>
          let conflicts = conflicts @ (case conflict of None \<Rightarrow> [] | Some x \<Rightarrow> [x])
          in if c then merge_all t names (changed @ [name]) conflicts (undos @ [u]) s
             else merge_all t names changed conflicts undos s)"

datatype merge_error = MergeVersion int | MergePersist

definition MergeTable :: "marshal \<Rightarrow> fault \<Rightarrow> AliasTable \<Rightarrow> store \<Rightarrow>
    (merge_error + string list \<times> alias_conflict list) \<times> store" where
  "MergeTable marshal f t s =
     (if at_V t \<noteq> AliasTableVersion then (Inl (MergeVersion (at_V t)), s)
      else
        let names = sort (filter ValidAliasName (map fst (at_Aliases t))) in
        case merge_all (at_Aliases t) names [] [] [] s of
          ((changed, conflicts, undos), s1) \<Rightarrow>
            if changed = [] then (Inr ([], conflicts), s1)
            else
              (case persistLocked marshal f s1 of
                 (True, s2) \<Rightarrow> (Inr (changed, conflicts), s2)
               | (False, s2) \<Rightarrow>
                   (Inl MergePersist, fold (\<lambda>u. restoreLocked (u_name u) (u_prev u)) (rev undos) s2)))"

section \<open>The table as a map\<close>

definition table_map :: "store \<Rightarrow> string \<rightharpoonup> AliasEntry" where
  "table_map s = map_of (at_Aliases (st_table s))"

lemma store_peek_map [simp]: "store_peek s name = table_map s name"
  by (simp add: store_peek_def table_map_def)

lemma table_map_put [simp]: "table_map (put_entry name e s) = (table_map s)(name \<mapsto> e)"
  by (simp add: table_map_def put_entry_def update_conv')

lemma table_map_drop [simp]: "table_map (drop_entry name s) = (table_map s)(name := None)"
  by (simp add: table_map_def drop_entry_def delete_conv')

lemma table_map_restore [simp]: "table_map (restoreLocked name prev s) = (table_map s)(name := prev)"
  by (simp add: restoreLocked_def split: option.split)

lemma put_files [simp]: "st_files (put_entry name e s) = st_files s" "st_self (put_entry name e s) = st_self s"
  by (simp_all add: put_entry_def)

lemma restore_files [simp]:
  "st_files (restoreLocked name prev s) = st_files s" "st_self (restoreLocked name prev s) = st_self s"
  by (simp_all add: restoreLocked_def drop_entry_def split: option.split)

lemma persist_table: "persistLocked marshal f s = (ok, s') \<Longrightarrow> st_table s' = st_table s \<and> st_self s' = st_self s"
  by (auto simp: persistLocked_def split: prod.splits)

lemma persist_map: "persistLocked marshal f s = (ok, s') \<Longrightarrow> table_map s' = table_map s"
  using persist_table by (fastforce simp: table_map_def)

lemma persist_written: "persistLocked marshal f s = (True, s') \<Longrightarrow> fs_target (st_files s') = Some (marshal (st_table s'))"
  by (auto simp: persistLocked_def split: prod.splits dest: write_file_outcome(1))

lemma persist_either:
  "persistLocked marshal f s = (ok, s') \<Longrightarrow>
    fs_target (st_files s') = fs_target (st_files s) \<or> fs_target (st_files s') = Some (marshal (st_table s'))"
  by (auto simp: persistLocked_def split: prod.splits dest: write_file_outcome(2))

lemma fold_restore_cong:
  fixes us :: "undo list"
  shows "table_map s = table_map s' \<Longrightarrow>
    table_map (fold (\<lambda>u. restoreLocked (u_name u) (u_prev u)) us s) =
    table_map (fold (\<lambda>u. restoreLocked (u_name u) (u_prev u)) us s')"
  by (induction us arbitrary: s s') auto

section \<open>The merge order\<close>

definition version_key :: "AliasEntry \<Rightarrow> 64 word \<times> int \<times> string" where
  "version_key e = (ae_Ver e, ae_TS e, ae_By e)"

text \<open>What an entry says now, without its history.\<close>

definition current :: "AliasEntry \<Rightarrow> AliasEntry" where
  "current e = e\<lparr>ae_History := []\<rparr>"

lemma current_simps [simp]:
  "current (e\<lparr>ae_History := h\<rparr>) = current e" "version_key (e\<lparr>ae_History := h\<rparr>) = version_key e"
  "version_key (current e) = version_key e"
  by (simp_all add: current_def version_key_def)

lemma current_key: "current a = current b \<Longrightarrow> version_key a = version_key b"
  by (metis current_simps(3))

lemma compare_key:
  "CompareAliasEntries a b > 0 \<longleftrightarrow> version_key a > version_key b"
  "CompareAliasEntries a b < 0 \<longleftrightarrow> version_key a < version_key b"
  by (auto simp: CompareAliasEntries_def winner_def version_key_def less_prod_def')

text \<open>Of a set of versions of one alias, the newest.\<close>

definition newest :: "AliasEntry set \<Rightarrow> AliasEntry option \<Rightarrow> bool" where
  "newest B r \<longleftrightarrow>
     (case r of
        None \<Rightarrow> B = {}
      | Some e \<Rightarrow> current e \<in> current ` B \<and> (\<forall>x\<in>B. version_key x \<le> version_key e))"

lemma newest_self: "newest (set_option r) r"
  by (auto simp: newest_def split: option.split)

lemma newest_trans:
  assumes "newest B r" and "newest (set_option r \<union> A) r'"
  shows "newest (B \<union> A) r'"
proof (cases r)
  case None
  then show ?thesis using assms by (simp add: newest_def)
next
  case (Some e)
  then obtain e' where e': "r' = Some e'" and cur: "current e' \<in> current ` (insert e A)"
    and ub: "\<forall>x\<in>insert e A. version_key x \<le> version_key e'"
    using assms(2) by (cases r') (auto simp: newest_def)
  have e: "current e \<in> current ` B" "\<forall>x\<in>B. version_key x \<le> version_key e"
    using assms(1) Some by (auto simp: newest_def)
  have "current e' \<in> current ` (B \<union> A)" using cur e(1) by auto
  moreover have "version_key x \<le> version_key e'" if "x \<in> B \<union> A" for x
    using that e(2) ub by (metis UnE insertI1 insertI2 order_trans)
  ultimately show ?thesis using e' by (simp add: newest_def)
qed

lemma newest_unique:
  assumes "newest B r" and "newest B r'"
    and "\<And>x y. x \<in> B \<Longrightarrow> y \<in> B \<Longrightarrow> version_key x = version_key y \<Longrightarrow> current x = current y"
  shows "map_option current r = map_option current r'"
proof (cases r)
  case None
  then show ?thesis using assms(1,2) by (cases r') (auto simp: newest_def)
next
  case (Some e)
  then obtain e' where e': "r' = Some e'" using assms(1,2) by (cases r') (auto simp: newest_def)
  obtain x y where x: "x \<in> B" "current e = current x" and y: "y \<in> B" "current e' = current y"
    using assms(1,2) Some e' by (auto simp: newest_def)
  have "version_key x \<le> version_key e'" "version_key y \<le> version_key e"
    using assms(1,2) Some e' x(1) y(1) by (auto simp: newest_def)
  then have "version_key x = version_key y"
    using current_key [OF x(2)] current_key [OF y(2)] by simp
  then show ?thesis using assms(3) [OF x(1) y(1)] x(2) y(2) Some e' by simp
qed

lemma merge_newest:
  assumes "mergeLocked name remote s = ((changed, conflict, u), s')" and "acceptRemote remote"
  shows "newest (set_option (table_map s name) \<union> {remote}) (table_map s' name)"
proof (cases "table_map s name")
  case None
  then show ?thesis using assms by (auto simp: mergeLocked_def Let_def newest_def)
next
  case (Some local)
  let ?r = "remote\<lparr>ae_History := capHistory (ae_History remote)\<rparr>"
  consider "CompareAliasEntries ?r local > 0" | "CompareAliasEntries ?r local < 0" | "CompareAliasEntries ?r local = 0"
    by linarith
  then show ?thesis
  proof cases
    case 1
    then have "version_key local < version_key remote" by (simp add: compare_key)
    moreover obtain h where "table_map s' name = Some (remote\<lparr>ae_History := h\<rparr>)"
      using assms Some 1 by (auto simp: mergeLocked_def Let_def split: if_splits)
    ultimately show ?thesis using Some by (simp add: newest_def)
  next
    case 2
    then have "version_key remote < version_key local" by (simp add: compare_key)
    moreover obtain h where "table_map s' name = Some (local\<lparr>ae_History := h\<rparr>)"
    proof -
      have "table_map s' name = Some local \<or> (\<exists>h. table_map s' name = Some (local\<lparr>ae_History := h\<rparr>))"
        using assms Some 2 by (auto simp: mergeLocked_def Let_def split: if_splits)
      moreover have "local = local\<lparr>ae_History := ae_History local\<rparr>" by simp
      ultimately show ?thesis using that by metis
    qed
    ultimately show ?thesis using Some by (simp add: newest_def)
  next
    case 3
    then have "version_key remote = version_key local"
      using compare_key [of ?r local] by (metis current_simps(2) linorder_less_linear less_irrefl)
    moreover obtain h where "table_map s' name = Some (local\<lparr>ae_History := h\<rparr>)"
    proof -
      have "table_map s' name = Some local \<or> (\<exists>h. table_map s' name = Some (local\<lparr>ae_History := h\<rparr>))"
        using assms Some 3 by (auto simp: mergeLocked_def Let_def split: if_splits)
      moreover have "local = local\<lparr>ae_History := ae_History local\<rparr>" by simp
      ultimately show ?thesis using that by metis
    qed
    ultimately show ?thesis using Some by (simp add: newest_def)
  qed
qed

lemma merge_frame:
  assumes "mergeLocked name remote s = ((changed, conflict, u), s')"
  shows "u = \<lparr>u_name = name, u_prev = table_map s name\<rparr>" and "n \<noteq> name \<Longrightarrow> table_map s' n = table_map s n"
    and "\<not> changed \<Longrightarrow> s' = s" and "\<not> acceptRemote remote \<Longrightarrow> s' = s" and "st_files s' = st_files s"
  using assms by (auto simp: mergeLocked_def Let_def split: if_splits option.splits)

section \<open>Convergence\<close>

text \<open>What gossip delivers to a node: single broadcast entries, and whole tables of other members.\<close>

datatype delivery = Broadcast string AliasEntry | PushPull AliasTable

fun deliver :: "marshal \<Rightarrow> delivery \<Rightarrow> store \<Rightarrow> store" where
  "deliver marshal (Broadcast name e) s = snd (Merge marshal None name e s)"
| "deliver marshal (PushPull t) s = snd (MergeTable marshal None t s)"

text \<open>The versions of an alias a delivery carries that the node accepts.\<close>

fun carries :: "string \<Rightarrow> delivery \<Rightarrow> AliasEntry set" where
  "carries name (Broadcast n e) = (if n = name \<and> acceptRemote e then {e} else {})"
| "carries name (PushPull t) =
     (if at_V t = AliasTableVersion then {e \<in> set_option (map_of (at_Aliases t) name). acceptRemote e} else {})"

fun proper_table :: "delivery \<Rightarrow> bool" where
  "proper_table (Broadcast n e) = True"
| "proper_table (PushPull t) = distinct (map fst (at_Aliases t))"

lemma persist_ok: "\<exists>s'. persistLocked marshal None s = (True, s') \<and> table_map s' = table_map s"
  by (simp add: persistLocked_def write_file_no_fault table_map_def)

lemma merge_deliver:
  assumes "ValidAliasName name"
  shows "newest (set_option (table_map s n) \<union> carries n (Broadcast name e)) (table_map (snd (Merge marshal None name e s)) n)"
proof -
  obtain changed conflict u s1 where m: "mergeLocked name e s = ((changed, conflict, u), s1)" by (metis prod.collapse)
  obtain s2 where p: "persistLocked marshal None s1 = (True, s2)" "table_map s2 = table_map s1"
    using persist_ok by blast
  have t: "table_map (snd (Merge marshal None name e s)) = table_map s1"
    using assms m p by (simp add: Merge_def)
  show ?thesis
  proof (cases "n = name \<and> acceptRemote e")
    case True
    then show ?thesis using merge_newest [OF m] unfolding t by simp
  next
    case False
    then have "table_map s1 n = table_map s n" using merge_frame [OF m] by metis
    moreover have "carries n (Broadcast name e) = {}" using False by auto
    ultimately show ?thesis using newest_self unfolding t by simp
  qed
qed

lemma merge_all_newest:
  assumes "distinct names" and "merge_all t names changed conflicts undos s = (res, s')"
    and "\<forall>n\<in>set names. map_of t n \<noteq> None"
  shows "newest (set_option (table_map s n) \<union> {e \<in> set_option (map_of t n). acceptRemote e \<and> n \<in> set names}) (table_map s' n)"
  using assms
proof (induction t names changed conflicts undos s rule: merge_all.induct)
  case (1 t changed conflicts undos s)
  then show ?case using newest_self by simp
next
  case (2 t name names changed conflicts undos s)
  obtain c conflict u s1 where m: "mergeLocked name (entry_or_zero (map_of t name)) s = ((c, conflict, u), s1)"
    by (metis prod.collapse)
  obtain e where e: "map_of t name = Some e" using 2(5) by auto
  have IH: "newest (set_option (table_map s1 n) \<union> {e \<in> set_option (map_of t n). acceptRemote e \<and> n \<in> set names}) (table_map s' n)"
    using 2(1,2) [OF m [symmetric] refl refl refl] 2(3-5) m by (auto simp: Let_def split: if_splits)
  show ?case
  proof (cases "n = name \<and> acceptRemote e")
    case True
    then have "newest (set_option (table_map s n) \<union> {e}) (table_map s1 n)"
      using merge_newest [OF m] e by (simp add: entry_or_zero_def)
    moreover have "{x \<in> set_option (map_of t n). acceptRemote x \<and> n \<in> set (name # names)} = {e}"
      using True e by auto
    moreover have "{x \<in> set_option (map_of t n). acceptRemote x \<and> n \<in> set names} = {}"
      using True 2(3) by auto
    ultimately show ?thesis using newest_trans [OF _ IH] by (metis Un_empty_right)
  next
    case False
    then have "table_map s1 n = table_map s n"
      using merge_frame [OF m] e by (metis entry_or_zero_def option.simps(5))
    moreover have "{x \<in> set_option (map_of t n). acceptRemote x \<and> n \<in> set (name # names)} =
        {x \<in> set_option (map_of t n). acceptRemote x \<and> n \<in> set names}"
      using False e by auto
    ultimately show ?thesis using IH by metis
  qed
qed

lemma deliver_newest:
  assumes "ValidAliasName n" and "proper_table d"
  shows "newest (set_option (table_map s n) \<union> carries n d) (table_map (deliver marshal d s) n)"
proof (cases d)
  case (Broadcast name e)
  show ?thesis
  proof (cases "ValidAliasName name")
    case True
    then show ?thesis using merge_deliver Broadcast by simp
  next
    case False
    then have "deliver marshal d s = s" "n \<noteq> name" using Broadcast assms(1) by (auto simp: Merge_def)
    then show ?thesis using Broadcast newest_self by simp
  qed
next
  case (PushPull t)
  let ?names = "sort (filter ValidAliasName (map fst (at_Aliases t)))"
  show ?thesis
  proof (cases "at_V t = AliasTableVersion")
    case False
    then show ?thesis using PushPull newest_self by (simp add: MergeTable_def)
  next
    case True
    obtain changed conflicts undos s1 where m: "merge_all (at_Aliases t) ?names [] [] [] s = ((changed, conflicts, undos), s1)"
      by (metis prod.collapse)
    obtain s2 where p: "persistLocked marshal None s1 = (True, s2)" "table_map s2 = table_map s1"
      using persist_ok by blast
    have t: "table_map (deliver marshal d s) = table_map s1"
      using True PushPull m p by (simp add: MergeTable_def)
    have d: "distinct ?names" using assms(2) PushPull by simp
    have dom: "\<forall>n\<in>set ?names. map_of (at_Aliases t) n \<noteq> None" by (auto simp: map_of_eq_None_iff)
    have "n \<in> set ?names" if "map_of (at_Aliases t) n = Some e" for e
      using that assms(1) by (force dest!: map_of_SomeD)
    then have "{e \<in> set_option (map_of (at_Aliases t) n). acceptRemote e \<and> n \<in> set ?names} = carries n d"
      using True PushPull by auto
    then show ?thesis using merge_all_newest [OF d m dom, of n] unfolding t by metis
  qed
qed

lemma deliveries_newest:
  assumes "ValidAliasName n" and "\<forall>d\<in>set ds. proper_table d"
  shows "newest (set_option (table_map s n) \<union> (\<Union>d\<in>set ds. carries n d)) (table_map (fold (deliver marshal) ds s) n)"
  using assms(2)
proof (induction ds arbitrary: s)
  case Nil
  then show ?case using newest_self by simp
next
  case (Cons d ds)
  have "newest (set_option (table_map s n) \<union> carries n d) (table_map (deliver marshal d s) n)"
    using deliver_newest assms(1) Cons.prems by simp
  from newest_trans [OF this Cons.IH [of "deliver marshal d s"]] show ?case
    using Cons.prems by (simp add: Un_assoc)
qed

text \<open>C4. Alias tables converge. Two nodes that between their own table and everything gossip brought them have seen
  the same versions of an alias agree on its current version, target, fallbacks and whether it is deleted,
  whatever the order, the grouping into broadcasts and pushed tables, and the repetitions of the
  deliveries; the version is the newest of those seen. Writes are told apart by version, time and writer, as the merge rule does.\<close>

theorem alias_tables_converge:
  assumes "ValidAliasName n" and "\<forall>d\<in>set ds1 \<union> set ds2. proper_table d"
    and "set_option (store_Get s1 n) \<union> (\<Union>d\<in>set ds1. carries n d) = B"
    and "set_option (store_Get s2 n) \<union> (\<Union>d\<in>set ds2. carries n d) = B"
    and "\<forall>x\<in>B. \<forall>y\<in>B. version_key x = version_key y \<longrightarrow> current x = current y"
  shows "map_option current (store_Get (fold (deliver marshal1) ds1 s1) n) =
      map_option current (store_Get (fold (deliver marshal2) ds2 s2) n) \<and>
    newest B (store_Get (fold (deliver marshal1) ds1 s1) n)"
proof -
  have get: "store_Get s = table_map s" for s by (simp add: store_Get_def table_map_def fun_eq_iff)
  have "newest B (table_map (fold (deliver marshal1) ds1 s1) n)" "newest B (table_map (fold (deliver marshal2) ds2 s2) n)"
    using deliveries_newest [of n ds1 s1 marshal1] deliveries_newest [of n ds2 s2 marshal2] assms
    unfolding get by simp_all
  then show ?thesis using newest_unique assms(5) unfolding get by blast
qed

definition sample_alias :: "64 word \<Rightarrow> string \<Rightarrow> string \<Rightarrow> AliasEntry" where
  "sample_alias ver target by = zero_AliasEntry\<lparr>ae_Target := target, ae_Ver := ver, ae_TS := 5, ae_By := by\<rparr>"

definition sample_store :: "string \<Rightarrow> store" where
  "sample_store self = \<lparr>st_self = self, st_table = \<lparr>at_V = 1, at_Aliases = []\<rparr>, st_files = \<lparr>fs_target = None, fs_tmp = None\<rparr>\<rparr>"

lemmas alias_eval = sample_alias_def sample_store_def zero_AliasEntry_def store_Get_def acceptRemote_def MaxAliasVer_def
  AliasTableVersion_def ValidAliasName_def alias_char_def version_key_def current_def

theorem alias_tables_converge_witness:
  "map_option current (store_Get (fold (deliver (\<lambda>_. ''''))
      [Broadcast ''coder'' (sample_alias 1 ''a'' ''gb1''), Broadcast ''coder'' (sample_alias 1 ''b'' ''gb2'')] (sample_store ''gb1'')) ''coder'') =
   map_option current (store_Get (fold (deliver (\<lambda>_. ''''))
      [PushPull \<lparr>at_V = 1, at_Aliases = [(''coder'', sample_alias 1 ''b'' ''gb2'')]\<rparr>, Broadcast ''coder'' (sample_alias 1 ''a'' ''gb1'')]
      (sample_store ''gb2'')) ''coder'')"
  by (rule conjunct1 [OF alias_tables_converge [where B = "{sample_alias 1 ''a'' ''gb1'', sample_alias 1 ''b'' ''gb2''}"]])
    (auto simp: alias_eval)

section \<open>Writes and the file\<close>

text \<open>All operations that change the table, with whether they returned without an error.\<close>

datatype store_op = OpSet string string "string list" | OpDelete string | OpRevert string
  | OpMerge string AliasEntry | OpMergeTable AliasTable | OpPurge

definition succeeded :: "('e + 'a) \<times> store \<Rightarrow> bool \<times> store" where
  "succeeded r = (\<not> isl (fst r), snd r)"

fun store_step :: "marshal \<Rightarrow> fault \<Rightarrow> int \<Rightarrow> store_op \<Rightarrow> store \<Rightarrow> bool \<times> store" where
  "store_step marshal f now_ms (OpSet name target fallbacks) s = succeeded (store_Set marshal f now_ms name target fallbacks s)"
| "store_step marshal f now_ms (OpDelete name) s = succeeded (store_Delete marshal f now_ms name s)"
| "store_step marshal f now_ms (OpRevert name) s = succeeded (store_Revert marshal f now_ms name s)"
| "store_step marshal f now_ms (OpMerge name e) s = succeeded (Merge marshal f name e s)"
| "store_step marshal f now_ms (OpMergeTable t) s = succeeded (MergeTable marshal f t s)"
| "store_step marshal f now_ms OpPurge s = succeeded (PurgeTombstones marshal f now_ms s)"

text \<open>An operation's effect on table and file: on success the table is in the file unless nothing changed, and on
  an error the table is as before.\<close>

definition atomic :: "marshal \<Rightarrow> store \<Rightarrow> bool \<times> store \<Rightarrow> bool" where
  "atomic marshal s r \<longleftrightarrow>
     (if fst r then snd r = s \<or> fs_target (st_files (snd r)) = Some (marshal (st_table (snd r)))
      else table_map (snd r) = table_map s)"

lemma atomic_unchanged [simp]: "atomic marshal s (ok, s)"
  by (simp add: atomic_def)

lemma commit_atomic: "atomic marshal s (succeeded (commitLocked marshal f name e s))"
proof -
  obtain ok s1 where p: "persistLocked marshal f (put_entry name e s) = (ok, s1)" by fastforce
  then show ?thesis
    using persist_written [of marshal f "put_entry name e s" s1] persist_map [OF p]
    by (cases ok) (auto simp: commitLocked_def succeeded_def atomic_def Let_def)
qed

lemma error_atomic: "atomic marshal s (succeeded (Inl e, s))"
  by (simp add: succeeded_def)

lemma local_writes_atomic:
  "atomic marshal s (succeeded (store_Set marshal f now_ms name target fallbacks s))"
  "atomic marshal s (succeeded (store_Delete marshal f now_ms name s))"
  "atomic marshal s (succeeded (store_Revert marshal f now_ms name s))"
  by (simp_all add: store_Set_def store_Delete_def store_Revert_def commit_atomic error_atomic Let_def
      split: sum.split option.split list.split)

lemma merge_atomic: "atomic marshal s (succeeded (Merge marshal f name remote s))"
proof -
  obtain changed conflict u s1 where m: "mergeLocked name remote s = ((changed, conflict, u), s1)" by (metis prod.collapse)
  obtain ok s2 where p: "persistLocked marshal f s1 = (ok, s2)" by fastforce
  have u: "u = \<lparr>u_name = name, u_prev = table_map s name\<rparr>" using merge_frame(1) [OF m] .
  have "table_map s1 = (table_map s)(name := table_map s1 name)"
    using merge_frame(2) [OF m] by auto
  then have undone: "(table_map s1)(name := table_map s name) = table_map s" by (metis fun_upd_triv fun_upd_upd)
  have "fs_target (st_files s2) = Some (marshal (st_table s2))" if "ok" using persist_written p that by simp
  then show ?thesis
    using m p u undone persist_map [OF p] merge_frame(3) [OF m]
    by (cases ok) (auto simp: Merge_def succeeded_def atomic_def)
qed

lemma merge_all_undo:
  assumes "merge_all t names changed conflicts undos s = ((changed', conflicts', undos'), s')"
    and "table_map (fold (\<lambda>u. restoreLocked (u_name u) (u_prev u)) (rev undos) s) = table_map s0"
    and "changed = [] \<longrightarrow> s = s0"
  shows "table_map (fold (\<lambda>u. restoreLocked (u_name u) (u_prev u)) (rev undos') s') = table_map s0 \<and>
    (changed' = [] \<longrightarrow> s' = s0)"
  using assms
proof (induction t names changed conflicts undos s rule: merge_all.induct)
  case (1 t changed conflicts undos s)
  then show ?case by simp
next
  case (2 t name names changed conflicts undos s)
  obtain c conflict u s1 where m: "mergeLocked name (entry_or_zero (map_of t name)) s = ((c, conflict, u), s1)"
    by (metis prod.collapse)
  note frame = merge_frame [OF m]
  have same: "table_map (restoreLocked (u_name u) (u_prev u) s1) = table_map s"
  proof -
    have "table_map s1 = (table_map s)(name := table_map s1 name)" using frame(2) by auto
    then have "(table_map s1)(name := table_map s name) = table_map s" by (metis fun_upd_triv fun_upd_upd)
    then show ?thesis using frame(1) by simp
  qed
  show ?case
  proof (cases c)
    case True
    have "table_map (fold (\<lambda>u. restoreLocked (u_name u) (u_prev u)) (rev (undos @ [u])) s1) = table_map s0"
      using fold_restore_cong [OF same] 2(4) by simp
    then show ?thesis
      using 2(1) [OF m [symmetric] refl refl refl True] 2(3) m True by (simp add: Let_def)
  next
    case False
    then have "s1 = s" using frame(3) by simp
    then show ?thesis
      using 2(2) [OF m [symmetric] refl refl refl False] 2(3-5) m False by (simp add: Let_def)
  qed
qed

lemma fold_restore_files [simp]:
  "st_files (fold (\<lambda>u. restoreLocked (u_name u) (u_prev u)) us s) = st_files s"
  by (induction us arbitrary: s) auto

lemma merge_table_atomic: "atomic marshal s (succeeded (MergeTable marshal f t s))"
proof (cases "at_V t = AliasTableVersion")
  case False
  then show ?thesis by (simp add: MergeTable_def succeeded_def)
next
  case True
  let ?names = "sort (filter ValidAliasName (map fst (at_Aliases t)))"
  obtain changed conflicts undos s1 where m: "merge_all (at_Aliases t) ?names [] [] [] s = ((changed, conflicts, undos), s1)"
    by (metis prod.collapse)
  obtain ok s2 where p: "persistLocked marshal f s1 = (ok, s2)" by fastforce
  have u: "table_map (fold (\<lambda>u. restoreLocked (u_name u) (u_prev u)) (rev undos) s1) = table_map s"
    "changed = [] \<longrightarrow> s1 = s"
    using merge_all_undo [OF m, of s] by simp_all
  then have "table_map (fold (\<lambda>u. restoreLocked (u_name u) (u_prev u)) (rev undos) s2) = table_map s"
    using fold_restore_cong [OF persist_map [OF p]] by simp
  moreover have "fs_target (st_files s2) = Some (marshal (st_table s2))" if "ok" using persist_written p that by simp
  ultimately show ?thesis
    using m p u(2) True by (cases ok) (auto simp: MergeTable_def succeeded_def atomic_def)
qed

lemma fold_put_map: "table_map (fold (\<lambda>(name, e). put_entry name e) xs s) = table_map s ++ map_of (rev xs)"
  by (induction xs arbitrary: s) (auto simp: map_add_def fun_eq_iff split: option.splits)

lemma map_of_filter_distinct:
  "distinct (map fst al) \<Longrightarrow>
    map_of (filter P al) n = (case map_of al n of None \<Rightarrow> None | Some v \<Rightarrow> if P (n, v) then Some v else None)"
  by (induction al) (auto simp: map_of_eq_None_iff image_iff split: option.splits dest: map_of_SomeD)

lemma purge_atomic:
  assumes d: "distinct (map fst (at_Aliases (st_table s)))"
  shows "atomic marshal s (succeeded (PurgeTombstones marshal f now_ms s))"
proof -
  define old where "old = (\<lambda>(_ :: string, e :: AliasEntry). ae_Deleted e \<and> ae_TS e < now_ms - AliasTombstoneTTL)"
  let ?al = "at_Aliases (st_table s)"
  obtain ok s2 where p: "persistLocked marshal f (s\<lparr>st_table := (st_table s)\<lparr>at_Aliases := filter (\<lambda>x. \<not> old x) ?al\<rparr>\<rparr>) = (ok, s2)"
    by fastforce
  have "table_map s2 = map_of (filter (\<lambda>x. \<not> old x) ?al)" using persist_map [OF p] by (simp add: table_map_def)
  moreover have "map_of (filter (\<lambda>x. \<not> old x) ?al) ++ map_of (rev (filter old ?al)) = map_of ?al"
  proof
    fix n
    have d': "distinct (map fst (filter P ?al))" for P using d by (simp add: distinct_map_filter)
    have "distinct (map fst (rev (filter old ?al)))" using d' by (simp add: rev_map [symmetric])
    then have r: "map_of (rev (filter old ?al)) n = map_of (filter old ?al) n"
      using map_of_inject_set [OF _ d'] by (metis set_rev)
    show "(map_of (filter (\<lambda>x. \<not> old x) ?al) ++ map_of (rev (filter old ?al))) n = map_of ?al n"
      unfolding map_add_def r map_of_filter_distinct [OF d] by (auto split: option.split)
  qed
  ultimately have undone: "table_map (fold (\<lambda>(name, e). put_entry name e) (filter old ?al) s2) = table_map s"
    unfolding fold_put_map by (simp add: table_map_def)
  have w: "fs_target (st_files s2) = Some (marshal (st_table s2))" if "ok" using persist_written p that by simp
  show ?thesis
    using p undone w unfolding PurgeTombstones_def old_def [symmetric] Let_def
    by (cases ok) (auto simp: succeeded_def atomic_def)
qed

section \<open>Well-formed tables\<close>

definition entry_ok :: "string \<Rightarrow> AliasEntry \<Rightarrow> bool" where
  "entry_ok name e \<longleftrightarrow> ValidAliasName name \<and> ae_Ver e \<le> MaxAliasVer \<and> length (ae_History e) \<le> MaxAliasHistory"

definition table_ok :: "store \<Rightarrow> bool" where
  "table_ok s \<longleftrightarrow> at_V (st_table s) = AliasTableVersion \<and> distinct (map fst (at_Aliases (st_table s))) \<and> (\<forall>name e. table_map s name = Some e \<longrightarrow> entry_ok name e)"

lemma put_ok: "table_ok s \<Longrightarrow> entry_ok name e \<Longrightarrow> table_ok (put_entry name e s)"
  by (auto simp: table_ok_def put_entry_def distinct_update table_map_def update_conv')

lemma drop_ok: "table_ok s \<Longrightarrow> table_ok (drop_entry name s)"
  by (auto simp: table_ok_def drop_entry_def distinct_delete table_map_def delete_conv' split: if_splits)

lemma restore_ok: "table_ok s \<Longrightarrow> (\<And>p. prev = Some p \<Longrightarrow> entry_ok name p) \<Longrightarrow> table_ok (restoreLocked name prev s)"
  by (auto simp: restoreLocked_def put_ok drop_ok split: option.split)

lemma persist_ok_table: "persistLocked marshal f s = (ok, s') \<Longrightarrow> table_ok s' = table_ok s"
  using persist_table by (fastforce simp: table_ok_def table_map_def)

lemma cap_length [simp]: "length (capHistory h) \<le> MaxAliasHistory"
  by (simp add: capHistory_def)

lemma history_length [simp]: "length (historyAfter prev rest) \<le> MaxAliasHistory"
  by (simp add: historyAfter_def)

lemma loser_length: "length h \<le> MaxAliasHistory \<Longrightarrow> length (withLoserFirst h loser) \<le> MaxAliasHistory"
  by (simp add: withLoserFirst_def)

lemma union_length [simp]: "length (unionHistory a b) \<le> MaxAliasHistory"
  by (simp add: unionHistory_def)

lemma next_version:
  assumes "nextVersion self now_ms prev = Inr e"
  shows "ae_Ver prev < ae_Ver e" and "uint (ae_Ver e) = uint (ae_Ver prev) + 1" and "ae_Ver e \<le> MaxAliasVer"
    and "ae_By e = self" "ae_TS e = now_ms" "\<not> ae_Deleted e"
proof -
  have less: "ae_Ver prev < MaxAliasVer" and e: "e = zero_AliasEntry\<lparr>ae_Ver := ae_Ver prev + 1, ae_TS := now_ms, ae_By := self\<rparr>"
    using assms by (auto simp: nextVersion_def split: if_splits)
  then have u: "uint (ae_Ver prev) < 2 ^ 53" by (simp add: word_less_def MaxAliasVer_def)
  then have s: "uint (ae_Ver prev + 1) = uint (ae_Ver prev) + 1"
    by (simp add: uint_word_ariths mod_pos_pos_trivial)
  show "ae_Ver prev < ae_Ver e" "uint (ae_Ver e) = uint (ae_Ver prev) + 1" "ae_Ver e \<le> MaxAliasVer"
    using s u by (simp_all add: e word_less_def word_le_def MaxAliasVer_def)
  show "ae_By e = self" "ae_TS e = now_ms" "\<not> ae_Deleted e" by (simp_all add: e zero_AliasEntry_def)
qed

lemma commit_ok:
  assumes "table_ok s" and "entry_ok name e"
  shows "table_ok (snd (commitLocked marshal f name e s))"
proof -
  obtain ok s1 where p: "persistLocked marshal f (put_entry name e s) = (ok, s1)" by fastforce
  have "table_ok s1" using persist_ok_table [OF p] put_ok [OF assms] by simp
  moreover have "entry_ok name q" if "table_map s name = Some q" for q using that assms(1) by (simp add: table_ok_def)
  ultimately show ?thesis
    using p restore_ok [of s1 "table_map s name" name] by (cases ok) (auto simp: commitLocked_def Let_def)
qed

lemma merge_locked_ok:
  assumes "mergeLocked name remote s = ((changed, conflict, u), s')" and "table_ok s" and "ValidAliasName name"
  shows "table_ok s' \<and> (\<forall>p. u_prev u = Some p \<longrightarrow> entry_ok (u_name u) p) \<and> u_name u = name"
proof -
  have old: "entry_ok name p" if "table_map s name = Some p" for p using that assms(2) by (simp add: table_ok_def)
  have "s' = s \<or> (\<exists>e. s' = put_entry name e s \<and> entry_ok name e)"
  proof (cases "acceptRemote remote")
    case True
    then have v: "ae_Ver remote \<le> MaxAliasVer" by (simp add: acceptRemote_def)
    show ?thesis
      using assms(1,3) True v old
      by (auto simp: mergeLocked_def Let_def entry_ok_def loser_length split: if_splits option.splits)
  qed (use merge_frame(4) [OF assms(1)] in simp)
  then show ?thesis
    using assms(2) put_ok merge_frame(1) [OF assms(1)] old by auto
qed

lemma merge_all_ok:
  assumes "merge_all t names changed conflicts undos s = ((changed', conflicts', undos'), s')" and "table_ok s"
    and "\<forall>n\<in>set names. ValidAliasName n"
    and "\<forall>u\<in>set undos. \<forall>p. u_prev u = Some p \<longrightarrow> entry_ok (u_name u) p"
  shows "table_ok s' \<and> (\<forall>u\<in>set undos'. \<forall>p. u_prev u = Some p \<longrightarrow> entry_ok (u_name u) p)"
  using assms
proof (induction t names changed conflicts undos s rule: merge_all.induct)
  case (2 t name names changed conflicts undos s)
  obtain c conflict u s1 where m: "mergeLocked name (entry_or_zero (map_of t name)) s = ((c, conflict, u), s1)"
    by (metis prod.collapse)
  have s1: "table_ok s1" "\<forall>p. u_prev u = Some p \<longrightarrow> entry_ok (u_name u) p"
    using merge_locked_ok [OF m 2(4)] 2(5) by auto
  show ?case
    using 2(1,2) [OF m [symmetric] refl refl refl] 2(3,5,6) m s1 by (cases c) (auto simp: Let_def)
qed simp

lemma fold_restore_ok:
  assumes "table_ok s" and "\<forall>u\<in>set us. \<forall>p. u_prev u = Some p \<longrightarrow> entry_ok (u_name u) p"
  shows "table_ok (fold (\<lambda>u. restoreLocked (u_name u) (u_prev u)) us s)"
  using assms
proof (induction us arbitrary: s)
  case (Cons u us)
  show ?case using Cons.IH [OF restore_ok [OF Cons.prems(1)]] Cons.prems(2) by simp
qed simp

lemma fold_put_ok:
  assumes "table_ok s" and "\<forall>(n, e)\<in>set xs. entry_ok n e"
  shows "table_ok (fold (\<lambda>(name, e). put_entry name e) xs s)"
  using assms
proof (induction xs arbitrary: s)
  case (Cons x xs)
  obtain n e where x: "x = (n, e)" by (cases x)
  then show ?case using Cons.IH [OF put_ok [OF Cons.prems(1)], of n e] Cons.prems(2) x by simp
qed simp

lemma merge_ok:
  assumes "table_ok s"
  shows "table_ok (snd (Merge marshal f name remote s))"
proof (cases "ValidAliasName name")
  case True
  obtain changed conflict u s1 where m: "mergeLocked name remote s = ((changed, conflict, u), s1)" by (metis prod.collapse)
  obtain ok s2 where p: "persistLocked marshal f s1 = (ok, s2)" by fastforce
  note s1 = merge_locked_ok [OF m assms True]
  have s2: "table_ok s2"
    using s1 persist_ok_table [OF p] by simp
  show ?thesis
    using fold_restore_ok [of s2 "[u]"] s1 s2 m p True by (cases ok) (auto simp: Merge_def)
qed (use assms in \<open>simp add: Merge_def\<close>)

lemma merge_table_ok:
  assumes "table_ok s"
  shows "table_ok (snd (MergeTable marshal f t s))"
proof (cases "at_V t = AliasTableVersion")
  case True
  let ?names = "sort (filter ValidAliasName (map fst (at_Aliases t)))"
  obtain changed conflicts undos s1 where m: "merge_all (at_Aliases t) ?names [] [] [] s = ((changed, conflicts, undos), s1)"
    by (metis prod.collapse)
  obtain ok s2 where p: "persistLocked marshal f s1 = (ok, s2)" by fastforce
  have s1: "table_ok s1" "\<forall>u\<in>set undos. \<forall>p. u_prev u = Some p \<longrightarrow> entry_ok (u_name u) p"
    using merge_all_ok [OF m assms] by simp_all
  have s2: "table_ok s2"
    using s1 persist_ok_table [OF p] by simp
  show ?thesis
    using fold_restore_ok [OF s2(1), of "rev undos"] s1 s2 m p True by (cases ok) (auto simp: MergeTable_def)
qed (use assms in \<open>simp add: MergeTable_def\<close>)

lemma purge_ok:
  assumes "table_ok s"
  shows "table_ok (snd (PurgeTombstones marshal f now_ms s))"
proof -
  define old where "old = (\<lambda>(_ :: string, e :: AliasEntry). ae_Deleted e \<and> ae_TS e < now_ms - AliasTombstoneTTL)"
  let ?al = "at_Aliases (st_table s)"
  let ?s = "s\<lparr>st_table := (st_table s)\<lparr>at_Aliases := filter (\<lambda>x. \<not> old x) ?al\<rparr>\<rparr>"
  obtain ok s2 where p: "persistLocked marshal f ?s = (ok, s2)" by fastforce
  have d: "distinct (map fst ?al)" and e: "\<forall>(n, e)\<in>set ?al. entry_ok n e"
    using assms by (auto simp: table_ok_def table_map_def)
  have "table_ok ?s"
    using d e assms by (auto simp: table_ok_def table_map_def distinct_map_filter dest!: map_of_SomeD)
  then have s2: "table_ok s2"
    using persist_ok_table [OF p] by simp
  show ?thesis
    using fold_put_ok [OF s2(1), of "filter old ?al"] e s2 p assms unfolding PurgeTombstones_def old_def [symmetric] Let_def
    by (cases ok) auto
qed

lemma step_ok:
  assumes "table_ok s"
  shows "table_ok (snd (store_step marshal f now_ms op s))"
proof (cases op)
  case (OpSet name target fallbacks)
  show ?thesis
    unfolding OpSet store_step.simps succeeded_def store_Set_def Let_def
    using assms next_version(3) by (auto split: sum.split intro!: commit_ok simp: entry_ok_def)
next
  case (OpDelete name)
  have "ValidAliasName name" if "table_map s name = Some p" for p
    using that assms by (simp add: table_ok_def entry_ok_def)
  then show ?thesis
    unfolding OpDelete store_step.simps succeeded_def store_Delete_def
    using assms next_version(3) by (auto split: sum.split option.split intro!: commit_ok simp: entry_ok_def)
next
  case (OpRevert name)
  have "ValidAliasName name" if "table_map s name = Some p" for p
    using that assms by (simp add: table_ok_def entry_ok_def)
  then show ?thesis
    unfolding OpRevert store_step.simps succeeded_def store_Revert_def
    using assms next_version(3) by (auto split: sum.split option.split list.split intro!: commit_ok simp: entry_ok_def)
qed (use assms merge_ok merge_table_ok purge_ok in \<open>simp_all add: succeeded_def\<close>)

interpretation alias_tables: invariant_machine "\<lambda>s (f, now_ms, op). snd (store_step marshal f now_ms op s)" table_ok "\<lambda>_. ()"
  for marshal
  by unfold_locales (simp_all add: step_ok split: prod.split)

section \<open>Properties of the store\<close>

lemmas store_eval = alias_eval store_Set_def store_Delete_def store_Revert_def succeeded_def table_map_def liveLocked_def MaxAliases_def
  nextVersion_def entry_or_zero_def commitLocked_def persistLocked_def put_entry_def restoreLocked_def drop_entry_def
  WriteFile_def WriteFileMode_def durable_calls_def numeral_3_eq_3 historyAfter_def capHistory_def MaxAliasHistory_def
  versionOf_def Let_def

text \<open>C30. Every operation keeps the alias table well-formed, on any sequence of local writes, merges and purges with any
  faults: one entry for a name, valid names only, versions at most \<open>MaxAliasVer\<close>, and at most
  \<open>MaxAliasHistory\<close> previous versions.\<close>

theorem alias_table_well_formed:
  assumes "table_ok s"
  shows "table_ok (run_events (\<lambda>s (f, now_ms, op). snd (store_step marshal f now_ms op s)) s es)"
  using assms by (rule alias_tables.run_keeps)

theorem alias_table_well_formed_witness:
  "table_ok (run_events (\<lambda>s (f, now_ms, op). snd (store_step (\<lambda>_. '''') f now_ms op s)) (sample_store ''gb1'')
     [(None, 7, OpSet ''coder'' ''m'' []), (Some (5, 0), 8, OpDelete ''coder''), (None, 9, OpRevert ''coder'')])"
  by (rule alias_table_well_formed) (simp add: table_ok_def sample_store_def table_map_def AliasTableVersion_def)

lemma reopen:
  assumes "table_ok s" and "fs_target (st_files s) = Some (marshal (st_table s))"
    and "unmarshal (marshal (st_table s)) = Some (st_table s)"
    and "\<forall>n e. store_Get s n = Some e \<longrightarrow> \<not> (ae_Deleted e \<and> ae_TS e < now_ms - AliasTombstoneTTL)"
  shows "openWith marshal unmarshal False True g now_ms (st_self s) (st_files s) = Inr s"
proof -
  have d: "distinct (map fst (at_Aliases (st_table s)))" using assms(1) by (simp add: table_ok_def)
  have "filter (\<lambda>(_, e). ae_Deleted e \<and> ae_TS e < now_ms - AliasTombstoneTTL) (at_Aliases (st_table s)) = []"
    using assms(4) d by (auto simp: filter_empty_conv store_Get_def)
  then have "PurgeTombstones marshal g now_ms s = (Inr 0, s)"
    by (simp add: PurgeTombstones_def Let_def)
  then have "PurgeTombstones marshal g now_ms \<lparr>st_self = st_self s, st_table = st_table s, st_files = st_files s\<rparr> = (Inr 0, s)"
    by (cases s) simp
  then show ?thesis
    using assms(1-3) by (simp add: openWith_def table_ok_def)
qed




definition commits_version :: "marshal \<Rightarrow> fault \<Rightarrow> int \<Rightarrow> string \<Rightarrow> store \<Rightarrow> AliasEntry \<Rightarrow> store \<Rightarrow> bool" where
  "commits_version marshal f now_ms name s e s' \<longleftrightarrow>
     (\<exists>v x. nextVersion (st_self s) now_ms (entry_or_zero (table_map s name)) = Inr v \<and>
        commitLocked marshal f name x s = (Inr e, s') \<and> ae_Ver x = ae_Ver v \<and>
        (\<exists>rest. ae_History x = historyAfter (table_map s name) rest))"

lemma commits_versionI:
  "nextVersion (st_self s) now_ms (entry_or_zero (table_map s name)) = Inr v \<Longrightarrow>
   commitLocked marshal f name x s = (Inr e, s') \<Longrightarrow> ae_Ver x = ae_Ver v \<Longrightarrow>
   ae_History x = historyAfter (table_map s name) rest \<Longrightarrow> commits_version marshal f now_ms name s e s'"
  unfolding commits_version_def by blast

lemma local_write_commits:
  assumes "store_Set marshal f now_ms name target fallbacks s = (Inr e, s') \<or>
      store_Delete marshal f now_ms name s = (Inr e, s') \<or> store_Revert marshal f now_ms name s = (Inr e, s')"
  shows "commits_version marshal f now_ms name s e s'"
  using assms
proof (elim disjE)
  assume "store_Set marshal f now_ms name target fallbacks s = (Inr e, s')"
  then show ?thesis
    by (auto simp: store_Set_def Let_def split: if_splits sum.splits elim: commits_versionI [rotated])
next
  assume "store_Delete marshal f now_ms name s = (Inr e, s')"
  then obtain p v where c: "table_map s name = Some p" "nextVersion (st_self s) now_ms p = Inr v"
    "commitLocked marshal f name (v\<lparr>ae_Fallbacks := [], ae_Deleted := True, ae_History := historyAfter (Some p) (ae_History p)\<rparr>) s =
      (Inr e, s')"
    by (auto simp: store_Delete_def split: if_splits sum.splits option.splits)
  show ?thesis by (rule commits_versionI [OF _ c(3), of _ v]) (use c in \<open>auto simp: entry_or_zero_def\<close>)
next
  assume "store_Revert marshal f now_ms name s = (Inr e, s')"
  then obtain p v rest and b :: AliasVersion where c: "table_map s name = Some p" "nextVersion (st_self s) now_ms p = Inr v"
    "commitLocked marshal f name (v\<lparr>ae_Target := av_Target b, ae_Fallbacks := av_Fallbacks b, ae_History := historyAfter (Some p) rest\<rparr>) s =
      (Inr e, s')"
    by (auto simp: store_Revert_def split: if_splits sum.splits option.splits list.splits)
  show ?thesis by (rule commits_versionI [OF _ c(3), of _ v]) (use c in \<open>auto simp: entry_or_zero_def\<close>)
qed

text \<open>C31. A local write wins. A successful \<open>Set\<close>, \<open>Delete\<close> or \<open>Revert\<close> is what the store answers from then on; its version is one past the
  version it replaces, without wrap-around and at most \<open>MaxAliasVer\<close>, so by the merge rule it beats the old version on
  every node; the replaced version heads the history if it was live.\<close>

theorem local_write_wins:
  assumes "(store_Set marshal f now_ms name target fallbacks s = (Inr e, s') \<or>
      store_Delete marshal f now_ms name s = (Inr e, s') \<or> store_Revert marshal f now_ms name s = (Inr e, s'))"
  shows "store_Get s' name = Some e \<and> (\<forall>n. n \<noteq> name \<longrightarrow> store_Get s' n = store_Get s n) \<and> ae_Ver e \<le> MaxAliasVer \<and>
    (\<forall>old. store_Get s name = Some old \<longrightarrow>
       uint (ae_Ver e) = uint (ae_Ver old) + 1 \<and> CompareAliasEntries e old = 1 \<and> CompareAliasEntries old e = - 1 \<and>
       (\<not> ae_Deleted old \<longrightarrow> (\<exists>h. ae_History e = versionOf old # h)))"
proof -
  have get: "store_Get s = table_map s" for s by (simp add: store_Get_def table_map_def fun_eq_iff)
  obtain v x where v: "nextVersion (st_self s) now_ms (entry_or_zero (table_map s name)) = Inr v"
    and c: "commitLocked marshal f name x s = (Inr e, s')" and ver: "ae_Ver x = ae_Ver v"
    and h: "\<exists>rest. ae_History x = historyAfter (table_map s name) rest"
    using local_write_commits [OF assms] unfolding commits_version_def by blast
  obtain s1 where p: "persistLocked marshal f (put_entry name x s) = (True, s1)" "e = x" "s' = s1"
    using c by (auto simp: commitLocked_def Let_def split: prod.splits bool.splits)
  have t: "table_map s' = (table_map s)(name \<mapsto> e)" using persist_map [OF p(1)] p(2,3) by simp
  note nv = next_version [OF v]
  have "uint (ae_Ver e) = uint (ae_Ver old) + 1 \<and> CompareAliasEntries e old = 1 \<and> CompareAliasEntries old e = - 1 \<and>
      (\<not> ae_Deleted old \<longrightarrow> (\<exists>h. ae_History e = versionOf old # h))" if "table_map s name = Some old" for old
  proof -
    have "ae_Ver old < ae_Ver e" "uint (ae_Ver e) = uint (ae_Ver old) + 1"
      using nv that ver p(2) by (simp_all add: entry_or_zero_def)
    then show ?thesis
      using h that p(2) by (auto simp: CompareAliasEntries_def winner_def historyAfter_def capHistory_def MaxAliasHistory_def)
  qed
  then show ?thesis using t nv(3) ver p(2) unfolding get by simp
qed

theorem local_write_wins_witness:
  "\<exists>e s1 e2 s2. store_Set (\<lambda>_. '''') None 7 ''coder'' ''m'' [] (sample_store ''gb1'') = (Inr e, s1) \<and>
     store_Delete (\<lambda>_. '''') None 8 ''coder'' s1 = (Inr e2, s2) \<and> CompareAliasEntries e2 e = 1"
proof -
  have "\<exists>e s1. store_Set (\<lambda>_. '''') None 7 ''coder'' ''m'' [] (sample_store ''gb1'') = (Inr e, s1) \<and>
      \<not> ae_Deleted e \<and> ae_Ver e < MaxAliasVer"
    by (simp add: store_eval)
  then obtain e s1 where e: "store_Set (\<lambda>_. '''') None 7 ''coder'' ''m'' [] (sample_store ''gb1'') = (Inr e, s1)"
    "\<not> ae_Deleted e" "ae_Ver e < MaxAliasVer" by blast
  have g: "store_Get s1 ''coder'' = Some e" using local_write_wins e(1) by blast
  then have "\<exists>e2 s2. store_Delete (\<lambda>_. '''') None 8 ''coder'' s1 = (Inr e2, s2)"
    using e(2,3) by (simp add: store_Delete_def store_Get_def table_map_def nextVersion_def commitLocked_def persistLocked_def
        write_file_no_fault Let_def not_le)
  then obtain e2 s2 where d: "store_Delete (\<lambda>_. '''') None 8 ''coder'' s1 = (Inr e2, s2)" by blast
  then have "CompareAliasEntries e2 e = 1" using local_write_wins g by blast
  then show ?thesis using e(1) d by blast
qed

lemma revert_result:
  assumes "store_Revert marshal f now_ms name s = (Inr e, s')" and "store_Get s name = Some p"
  obtains b rest where "ae_History p = b # rest" "store_Get s' name = Some e" "\<not> ae_Deleted e"
    "ae_Target e = av_Target b" "ae_Fallbacks e = av_Fallbacks b" "ae_History e = historyAfter (Some p) rest"
proof -
  have get: "store_Get s = table_map s" for s by (simp add: store_Get_def table_map_def fun_eq_iff)
  obtain v rest and b :: AliasVersion where h: "ae_History p = b # rest"
    and v: "nextVersion (st_self s) now_ms p = Inr v"
    and c: "commitLocked marshal f name (v\<lparr>ae_Target := av_Target b, ae_Fallbacks := av_Fallbacks b,
      ae_History := historyAfter (Some p) rest\<rparr>) s = (Inr e, s')"
    using assms by (auto simp: store_Revert_def get split: sum.splits list.splits)
  then have "e = v\<lparr>ae_Target := av_Target b, ae_Fallbacks := av_Fallbacks b, ae_History := historyAfter (Some p) rest\<rparr>"
    by (auto simp: commitLocked_def Let_def split: prod.splits bool.splits)
  moreover have "store_Get s' name = Some e"
    using c by (auto simp: commitLocked_def Let_def get split: prod.splits bool.splits dest: persist_map)
  ultimately show ?thesis using that [OF h] next_version(6) [OF v] by simp
qed

text \<open>C32. A second revert undoes the first. Reverting a live alias twice gives it back its target and
  fallbacks, and puts what the first revert had made current at the head of the history.\<close>

theorem revert_undoes_revert:
  assumes "store_Get s name = Some old" and "\<not> ae_Deleted old"
    and "store_Revert marshal f1 t1 name s = (Inr e1, s1)" and "store_Revert marshal f2 t2 name s1 = (Inr e2, s2)"
  shows "store_Get s2 name = Some e2 \<and> ae_Target e2 = ae_Target old \<and> ae_Fallbacks e2 = ae_Fallbacks old \<and>
    \<not> ae_Deleted e2 \<and> hd (ae_History e2) = versionOf e1 \<and>
    av_Target (hd (ae_History old)) = ae_Target e1"
proof -
  from revert_result [OF assms(3,1)] obtain b1 r1 where e1: "ae_History old = b1 # r1" "store_Get s1 name = Some e1"
    "\<not> ae_Deleted e1" "ae_Target e1 = av_Target b1" "ae_History e1 = historyAfter (Some old) r1" by metis
  from revert_result [OF assms(4) e1(2)] obtain b2 r2 where e2: "ae_History e1 = b2 # r2" "store_Get s2 name = Some e2"
    "\<not> ae_Deleted e2" "ae_Target e2 = av_Target b2" "ae_Fallbacks e2 = av_Fallbacks b2" "ae_History e2 = historyAfter (Some e1) r2"
    by metis
  have "b2 = versionOf old"
    using e1(5) e2(1) assms(2) by (auto simp: historyAfter_def capHistory_def MaxAliasHistory_def split: if_splits)
  moreover have "hd (ae_History e2) = versionOf e1"
    using e2(6) e1(3) by (simp add: historyAfter_def capHistory_def MaxAliasHistory_def)
  ultimately show ?thesis using e1 e2 by (simp add: versionOf_def)
qed

definition sample_history_store :: store where
  "sample_history_store = put_entry ''coder'' ((sample_alias 2 ''b'' ''gb1'')\<lparr>ae_History :=
     [\<lparr>av_Target = ''a'', av_Fallbacks = [], av_TS = 4, av_By = ''gb1''\<rparr>]\<rparr>) (sample_store ''gb1'')"

theorem revert_undoes_revert_witness:
  "\<exists>e1 s1 e2 s2. store_Revert (\<lambda>_. '''') None 6 ''coder'' sample_history_store = (Inr e1, s1) \<and>
     store_Revert (\<lambda>_. '''') None 7 ''coder'' s1 = (Inr e2, s2) \<and> ae_Target e1 = ''a'' \<and> ae_Target e2 = ''b''"
proof -
  have old: "store_Get sample_history_store ''coder'' = Some ((sample_alias 2 ''b'' ''gb1'')\<lparr>ae_History :=
     [\<lparr>av_Target = ''a'', av_Fallbacks = [], av_TS = 4, av_By = ''gb1''\<rparr>]\<rparr>)"
    by (simp add: sample_history_store_def store_eval)
  obtain e1 s1 e2 s2 where e: "store_Revert (\<lambda>_. '''') None 6 ''coder'' sample_history_store = (Inr e1, s1)"
    "store_Revert (\<lambda>_. '''') None 7 ''coder'' s1 = (Inr e2, s2)"
    by (simp add: sample_history_store_def store_eval)
  from revert_undoes_revert [OF old _ e] e show ?thesis by (auto simp: sample_alias_def zero_AliasEntry_def)
qed

text \<open>A version in the history of an entry from another member is not checked the way the entry itself is: reverting
  to one without a target makes a live entry that every other member refuses.\<close>

lemma revert_can_make_unacceptable:
  "\<exists>remote s1 e s2. acceptRemote remote \<and> snd (Merge (\<lambda>_. []) None ''coder'' remote (sample_store ''gb1'')) = s1 \<and>
     store_Revert (\<lambda>_. []) None 9 ''coder'' s1 = (Inr e, s2) \<and> \<not> acceptRemote e"
  by (rule exI [of _ "(sample_alias 2 ''b'' ''gb2'')\<lparr>ae_History := [\<lparr>av_Target = [], av_Fallbacks = [], av_TS = 4, av_By = ''gb2''\<rparr>]\<rparr>"])
    (simp add: store_eval Merge_def mergeLocked_def)

end
