(* ===== verification/GoText.thy ===== *)
theory GoText
  imports Prelude
begin

text \<open>
  The parts of Go's text packages the program uses: \<open>strconv\<close> for decimal integers, \<open>encoding/hex\<close>,
  \<open>encoding/base64\<close> (the unpadded URL alphabet), and splitting, cutting and joining of strings. Each decoder comes with the
  round trip from its encoder.
\<close>

section \<open>Decimal integers\<close>

definition is_digit :: "char \<Rightarrow> bool" where
  "is_digit c \<longleftrightarrow> 48 \<le> (of_char c :: nat) \<and> (of_char c :: nat) \<le> 57"

definition digit_value :: "char \<Rightarrow> nat" where
  "digit_value c = of_char c - 48"

definition digits_value :: "string \<Rightarrow> nat" where
  "digits_value cs = foldl (\<lambda>n c. 10 * n + digit_value c) 0 cs"

text \<open>\<open>strconv.ParseInt(s, 10, 64)\<close>.\<close>

definition parse_int :: "string \<Rightarrow> int option" where
  "parse_int s =
     (let (neg, ds) = (case s of
            [] \<Rightarrow> (False, [])
          | c # cs \<Rightarrow> if c = CHR ''-'' then (True, cs) else if c = CHR ''+'' then (False, cs) else (False, s))
      in if ds = [] \<or> \<not> list_all is_digit ds then None
         else
           let n = int (digits_value ds) in
           if neg then (if n \<le> 2 ^ 63 then Some (- n) else None)
           else (if n < 2 ^ 63 then Some n else None))"

lemma digits_value_append: "digits_value (xs @ [c]) = 10 * digits_value xs + digit_value c"
  by (simp add: digits_value_def)


lemma digits_spec: "digits n \<noteq> [] \<and> list_all is_digit (digits n) \<and> digits_value (digits n) = n"
proof (induction n rule: digits.induct)
  case (1 n)
  show ?case
  proof (cases "n < 10")
    case True
    then show ?thesis
      by (simp add: digits.simps [of n] digits_value_def digit_value_def is_digit_def)
  next
    case False
    then have "digits_value (digits n) = 10 * (n div 10) + n mod 10"
      using 1 by (simp add: digits.simps [of n] digits_value_append digit_value_def)
    then show ?thesis using 1 False by (simp add: digits.simps [of n] is_digit_def)
  qed
qed

lemma digits_head: "c # cs = digits n \<Longrightarrow> c \<noteq> CHR ''-'' \<and> c \<noteq> CHR ''+''"
  using digits_spec [of n] by (auto simp: is_digit_def dest!: sym [of "_ # _"])

lemma parse_itoa:
  assumes "- (2 ^ 63) \<le> i" and "i < 2 ^ 63"
  shows "parse_int (itoa i) = Some i"
proof (cases "i < 0")
  case True
  then show ?thesis
    using digits_spec [of "nat (- i)"] assms by (simp add: parse_int_def itoa_def)
next
  case False
  obtain c cs where d: "digits (nat i) = c # cs" using digits_spec [of "nat i"] by (cases "digits (nat i)") auto
  have "c \<noteq> CHR ''-''" "c \<noteq> CHR ''+''" using digits_head [of c cs "nat i"] d by simp_all
  then have "parse_int (digits (nat i)) =
      (if int (digits_value (digits (nat i))) < 2 ^ 63 then Some (int (digits_value (digits (nat i)))) else None)"
    using digits_spec [of "nat i"] unfolding d by (simp add: parse_int_def Let_def)
  then show ?thesis using digits_spec [of "nat i"] False assms by (simp add: itoa_def)
qed

section \<open>Hexadecimal and base64\<close>

definition hex_digit :: "nat \<Rightarrow> char" where
  "hex_digit n = char_of (if n < 10 then 48 + n else 87 + n)"

definition hex_encode :: "string \<Rightarrow> string" where
  "hex_encode bs = concat (map (\<lambda>b. [hex_digit (of_char b div 16), hex_digit (of_char b mod 16)]) bs)"

definition b64_char :: "nat \<Rightarrow> char" where
  "b64_char n =
     (if n < 26 then char_of (65 + n) else if n < 52 then char_of (71 + n) else if n < 62 then char_of (n - 4)
      else if n = 62 then CHR ''-'' else CHR ''_'')"

definition b64_value :: "char \<Rightarrow> nat option" where
  "b64_value c =
     (let n = of_char c :: nat in
      if 65 \<le> n \<and> n \<le> 90 then Some (n - 65) else if 97 \<le> n \<and> n \<le> 122 then Some (n - 71)
      else if 48 \<le> n \<and> n \<le> 57 then Some (n + 4) else if c = CHR ''-'' then Some 62 else if c = CHR ''_'' then Some 63
      else None)"

lemma b64_value_char [simp]: "n < 64 \<Longrightarrow> b64_value (b64_char n) = Some n"
  by (auto simp: b64_value_def b64_char_def Let_def)

fun b64_encode :: "string \<Rightarrow> string" where
  "b64_encode [] = []"
| "b64_encode [a] = [b64_char (of_char a div 4), b64_char (of_char a mod 4 * 16)]"
| "b64_encode [a, b] =
     [b64_char (of_char a div 4), b64_char (of_char a mod 4 * 16 + of_char b div 16), b64_char (of_char b mod 16 * 4)]"
| "b64_encode (a # b # c # cs) =
     b64_char (of_char a div 4) # b64_char (of_char a mod 4 * 16 + of_char b div 16) #
     b64_char (of_char b mod 16 * 4 + of_char c div 64) # b64_char (of_char c mod 64) # b64_encode cs"

fun b64_bytes :: "nat list \<Rightarrow> string option" where
  "b64_bytes [] = Some []"
| "b64_bytes [a] = None"
| "b64_bytes [a, b] = Some [char_of (a * 4 + b div 16)]"
| "b64_bytes [a, b, c] = Some [char_of (a * 4 + b div 16), char_of (b mod 16 * 16 + c div 4)]"
| "b64_bytes (a # b # c # d # vs) =
     map_option (\<lambda>bs. char_of (a * 4 + b div 16) # char_of (b mod 16 * 16 + c div 4) # char_of (c mod 4 * 64 + d) # bs)
       (b64_bytes vs)"

fun all_some :: "'a option list \<Rightarrow> 'a list option" where
  "all_some [] = Some []"
| "all_some (x # xs) = (case x of None \<Rightarrow> None | Some y \<Rightarrow> map_option ((#) y) (all_some xs))"

text \<open>The decoder skips line breaks and ignores the unused low bits of the last character.\<close>

definition b64_decode :: "string \<Rightarrow> string option" where
  "b64_decode s =
     (case all_some (map b64_value (filter (\<lambda>c. c \<noteq> CHR 0x0D \<and> c \<noteq> CHR 0x0A) s)) of
        None \<Rightarrow> None
      | Some vs \<Rightarrow> b64_bytes vs)"

lemma char_bound [simp]: "(of_char c :: nat) < 256"
proof -
  have "of_char c = (of_char c :: nat) mod 256" by (metis char_of_char of_char_of)
  then show ?thesis by (metis mod_less_divisor zero_less_numeral)
qed

lemma b64_char_no_break [simp]: "n < 64 \<Longrightarrow> b64_char n \<noteq> CHR 0x0D \<and> b64_char n \<noteq> CHR 0x0A"
  by (auto simp: b64_char_def of_char_eq_iff [symmetric, where ?'a = nat])

definition b64_vals :: "string \<Rightarrow> nat list option" where
  "b64_vals s = all_some (map b64_value (filter (\<lambda>c. c \<noteq> CHR 0x0D \<and> c \<noteq> CHR 0x0A) s))"

lemma b64_vals_Cons [simp]: "n < 64 \<Longrightarrow> b64_vals (b64_char n # s) = map_option ((#) n) (b64_vals s)"
  by (simp add: b64_vals_def)

lemma b64_decode_vals: "b64_decode s = Option.bind (b64_vals s) b64_bytes"
  by (simp add: b64_decode_def b64_vals_def split: option.split)

lemma b64_pieces:
  fixes x y z :: nat
  assumes "x < 256" "y < 256" "z < 256"
  shows "x div 4 < 64" "x mod 4 * 16 < 64" "x mod 4 * 16 + y div 16 < 64" "y mod 16 * 4 < 64"
    "y mod 16 * 4 + z div 64 < 64" "z mod 64 < 64"
    "x div 4 * 4 + x mod 4 * 16 div 16 = x" "x div 4 * 4 + (x mod 4 * 16 + y div 16) div 16 = x"
    "(x mod 4 * 16 + y div 16) mod 16 * 16 + y mod 16 * 4 div 4 = y"
    "(x mod 4 * 16 + y div 16) mod 16 * 16 + (y mod 16 * 4 + z div 64) div 4 = y"
    "(y mod 16 * 4 + z div 64) mod 4 * 64 + z mod 64 = z"
proof -
  have b: "y div 16 < 16" "z div 64 < 4" "x mod 4 < 4" "y mod 16 < 16" using assms by (auto simp: less_mult_imp_div_less)
  show "x div 4 < 64" "x mod 4 * 16 < 64" "x mod 4 * 16 + y div 16 < 64" "y mod 16 * 4 < 64"
    "y mod 16 * 4 + z div 64 < 64" "z mod 64 < 64"
    using assms b by (auto simp: less_mult_imp_div_less)
  have d: "(x mod 4 * 16 + y div 16) div 16 = x mod 4" "(x mod 4 * 16 + y div 16) mod 16 = y div 16"
    "(y mod 16 * 4 + z div 64) div 4 = y mod 16" "(y mod 16 * 4 + z div 64) mod 4 = z div 64"
    using b by simp_all
  show "x div 4 * 4 + x mod 4 * 16 div 16 = x" "x div 4 * 4 + (x mod 4 * 16 + y div 16) div 16 = x"
    "(x mod 4 * 16 + y div 16) mod 16 * 16 + y mod 16 * 4 div 4 = y"
    "(x mod 4 * 16 + y div 16) mod 16 * 16 + (y mod 16 * 4 + z div 64) div 4 = y"
    "(y mod 16 * 4 + z div 64) mod 4 * 64 + z mod 64 = z"
    unfolding d by simp_all
qed

lemma b64_round_trip: "b64_decode (b64_encode bs) = Some bs"
proof (induction bs rule: b64_encode.induct)
  case 1
  then show ?case by (simp add: b64_decode_def)
next
  case (2 a)
  note p = b64_pieces [OF char_bound [of a] char_bound [of a] char_bound [of a]]
  have "b64_vals [] = Some []" by (simp add: b64_vals_def)
  then show ?case
    using p(1,2) by (simp only: b64_encode.simps b64_decode_vals b64_vals_Cons option.map bind.simps b64_bytes.simps p(7)) simp
next
  case (3 a b)
  note p = b64_pieces [OF char_bound [of a] char_bound [of b] char_bound [of b]]
  have "b64_vals [] = Some []" by (simp add: b64_vals_def)
  then show ?case
    using p(1,3,4) by (simp only: b64_encode.simps b64_decode_vals b64_vals_Cons option.map bind.simps b64_bytes.simps p(8,9)) simp
next
  case (4 a b c cs)
  note p = b64_pieces [OF char_bound [of a] char_bound [of b] char_bound [of c]]
  obtain vs where vs: "b64_vals (b64_encode cs) = Some vs" "b64_bytes vs = Some cs"
    using 4 by (auto simp: b64_decode_vals bind_eq_Some_conv)
  show ?case
    using p(1,3,5,6) vs
    by (simp only: b64_encode.simps b64_decode_vals b64_vals_Cons option.map bind.simps b64_bytes.simps p(8,10,11)) simp
qed

lemma b64_encode_nonempty: "bs \<noteq> [] \<Longrightarrow> b64_encode bs \<noteq> []"
  by (cases bs rule: b64_encode.cases) auto

section \<open>Splitting and joining\<close>

text \<open>\<open>strings.Join\<close>, and \<open>strings.Split\<close> and \<open>strings.Cut\<close> at a single byte.\<close>

fun join :: "string \<Rightarrow> string list \<Rightarrow> string" where
  "join sep [] = []"
| "join sep [x] = x"
| "join sep (x # xs) = x @ sep @ join sep xs"

fun split :: "char \<Rightarrow> string \<Rightarrow> string list" where
  "split sep [] = [[]]"
| "split sep (c # cs) =
     (if c = sep then [] # split sep cs
      else case split sep cs of [] \<Rightarrow> [[c]] | x # xs \<Rightarrow> (c # x) # xs)"

definition cut :: "char \<Rightarrow> string \<Rightarrow> string \<times> string \<times> bool" where
  "cut sep s = (takeWhile (\<lambda>c. c \<noteq> sep) s, drop 1 (dropWhile (\<lambda>c. c \<noteq> sep) s), sep \<in> set s)"

definition has_prefix :: "string \<Rightarrow> string \<Rightarrow> bool" where
  "has_prefix p s \<longleftrightarrow> take (length p) s = p"

definition trim_prefix :: "string \<Rightarrow> string \<Rightarrow> string" where
  "trim_prefix p s = (if has_prefix p s then drop (length p) s else s)"

lemma split_nonempty [simp]: "split sep s \<noteq> []"
  by (induction s) (auto split: list.split)

lemma split_single: "sep \<notin> set s \<Longrightarrow> split sep s = [s]"
  by (induction s) auto

lemma split_append: "sep \<notin> set s \<Longrightarrow> split sep (s @ sep # t) = s # split sep t"
  by (induction s) auto

lemma split_join: "xs \<noteq> [] \<Longrightarrow> \<forall>x\<in>set xs. sep \<notin> set x \<Longrightarrow> split sep (join [sep] xs) = xs"
  by (induction "[sep]" xs rule: join.induct) (auto simp: split_single split_append)

section \<open>Host and port\<close>

text \<open>The host of \<open>net.SplitHostPort\<close>; \<open>None\<close> is its error.\<close>

fun last_index :: "char \<Rightarrow> string \<Rightarrow> nat option" where
  "last_index c [] = None"
| "last_index c (x # xs) =
     (case last_index c xs of Some i \<Rightarrow> Some (Suc i) | None \<Rightarrow> if x = c then Some 0 else None)"

definition split_host :: "string \<Rightarrow> string option" where
  "split_host hp =
     (case last_index (CHR '':'') hp of
        None \<Rightarrow> None
      | Some i \<Rightarrow>
          if hd hp = CHR ''['' then
            let n = length (takeWhile (\<lambda>c. c \<noteq> CHR '']'') hp) in
            if n = length hp \<or> Suc n \<noteq> i then None
            else if CHR ''['' \<in> set (drop 1 hp) \<or> CHR '']'' \<in> set (drop (Suc n) hp) then None
            else Some (take (n - 1) (drop 1 hp))
          else
            let host = take i hp in
            if CHR '':'' \<in> set host \<or> CHR ''['' \<in> set hp \<or> CHR '']'' \<in> set hp then None else Some host)"

definition host_part :: "string \<Rightarrow> string" where
  "host_part hp = (case split_host hp of None \<Rightarrow> hp | Some host \<Rightarrow> host)"

section \<open>White space\<close>

definition ascii_space :: "char \<Rightarrow> bool" where
  "ascii_space c \<longleftrightarrow> of_char c \<in> {9, 10, 11, 12, 13, 32 :: nat}"

definition wide_space :: "nat \<Rightarrow> nat \<Rightarrow> nat \<Rightarrow> bool" where
  "wide_space a b c \<longleftrightarrow>
     a = 0xE1 \<and> b = 0x9A \<and> c = 0x80 \<or>
     a = 0xE2 \<and> b = 0x80 \<and> (0x80 \<le> c \<and> c \<le> 0x8A \<or> c \<in> {0xA8, 0xA9, 0xAF}) \<or>
     a = 0xE2 \<and> b = 0x81 \<and> c = 0x9F \<or> a = 0xE3 \<and> b = 0x80 \<and> c = 0x80"

text \<open>\<open>strings.TrimSpace\<close>: the white space at the head, seen from either end of the text.\<close>

fun drop_spaces :: "string \<Rightarrow> string" where
  "drop_spaces [] = []"
| "drop_spaces (a # s) =
     (if ascii_space a then drop_spaces s
      else case s of
             b # t \<Rightarrow>
               if of_char a = (0xC2 :: nat) \<and> of_char b \<in> {0x85, 0xA0 :: nat} then drop_spaces t
               else (case t of
                       c # u \<Rightarrow> if wide_space (of_char a) (of_char b) (of_char c) then drop_spaces u else a # s
                     | [] \<Rightarrow> a # s)
           | [] \<Rightarrow> [a])"

fun drop_spaces_rev :: "string \<Rightarrow> string" where
  "drop_spaces_rev [] = []"
| "drop_spaces_rev (a # s) =
     (if ascii_space a then drop_spaces_rev s
      else case s of
             b # t \<Rightarrow>
               if of_char b = (0xC2 :: nat) \<and> of_char a \<in> {0x85, 0xA0 :: nat} then drop_spaces_rev t
               else (case t of
                       c # u \<Rightarrow> if wide_space (of_char c) (of_char b) (of_char a) then drop_spaces_rev u else a # s
                     | [] \<Rightarrow> a # s)
           | [] \<Rightarrow> [a])"

definition TrimSpace :: "string \<Rightarrow> string" where
  "TrimSpace s = rev (drop_spaces_rev (rev (drop_spaces s)))"

end
