(* ===== verification/MeshAuth.thy ===== *)
theory MeshAuth
  imports GoText Capacity "HOL-Library.AList"
begin

text \<open>
  The proof that a caller belongs to the mesh (\<open>internal/meshauth\<close>) and its use on forwarded requests
  (\<open>internal/proxy/forwardauth.go\<close>): signing and verifying requests and responses, the window for clock skew, the cache of
  nonces, and the rule for accepting a forward. The keyed hash and the body digest of Go's crypto packages are
  the arguments \<open>hmac\<close> and \<open>sha256\<close>. One clock drives the skew check and the cache. The headers the code reads are fields of
  the request; an absent header is empty, as \<open>Header.Get\<close> returns it.
\<close>

section \<open>Signatures\<close>

definition SkewWindow :: duration where "SkewWindow = 120 * second"

definition NonceBytes :: nat where "NonceBytes = 16"

definition MinSecretLen :: nat where "MinSecretLen = 32"

definition scheme :: string where "scheme = ''v1''"

datatype auth_error = ErrNoProof | ErrBadProof

definition newline :: string where "newline = [CHR 0x0A]"

definition canonicalRequest :: "string \<Rightarrow> string \<Rightarrow> string \<Rightarrow> string \<Rightarrow> string \<Rightarrow> string \<Rightarrow> string" where
  "canonicalRequest meth pathQuery ts nonce nodeID bodyHex =
     join newline [scheme, ''req'', meth, pathQuery, ts, nonce, nodeID, bodyHex]"

definition canonicalResponse :: "string \<Rightarrow> string \<Rightarrow> string \<Rightarrow> string \<Rightarrow> string \<Rightarrow> string" where
  "canonicalResponse pathQuery ts nonce nodeID bodyHex =
     join newline [scheme, ''resp'', pathQuery, ts, nonce, nodeID, bodyHex]"

record crypto =
  hmac :: "string \<Rightarrow> string \<Rightarrow> string"
  sha256 :: "string \<Rightarrow> string"

definition bodyDigest :: "crypto \<Rightarrow> string \<Rightarrow> string" where
  "bodyDigest k body = (if body = [] then '''' else hex_encode (sha256 k body))"

record signer =
  sg_secret :: string
  sg_nodeID :: string

datatype signer_error = SecretTooShort nat | EmptyNodeID

definition NewSigner :: "string \<Rightarrow> string \<Rightarrow> signer_error + signer" where
  "NewSigner secret nodeID =
     (if length secret < MinSecretLen then Inl (SecretTooShort (length secret))
      else if nodeID = '''' then Inl EmptyNodeID
      else Inr \<lparr>sg_secret = secret, sg_nodeID = nodeID\<rparr>)"

definition mac :: "crypto \<Rightarrow> signer \<Rightarrow> string \<Rightarrow> string" where
  "mac k s canonical = scheme @ ''='' @ b64_encode (hmac k (sg_secret s) canonical)"

record http_request =
  rq_Method :: string
  rq_URI :: string
  rq_RemoteAddr :: string
  rq_Host :: string
  rq_Origin :: string
  rq_Forwarded :: string
  rq_Client :: string
  rq_Node :: string
  rq_Ts :: string
  rq_Nonce :: string
  rq_Auth :: string

text \<open>\<open>Time.Unix\<close>: whole seconds, rounded down.\<close>

definition unix :: "gotime \<Rightarrow> int" where
  "unix t = t div second"

definition SignRequest :: "crypto \<Rightarrow> signer \<Rightarrow> gotime \<Rightarrow> string \<Rightarrow> http_request \<Rightarrow> string \<Rightarrow> string \<times> http_request" where
  "SignRequest k s now raw req body =
     (let nonce = b64_encode raw;
          ts = itoa (unix now);
          canonical = canonicalRequest (rq_Method req) (rq_URI req) ts nonce (sg_nodeID s) (bodyDigest k body)
      in (nonce, req\<lparr>rq_Node := sg_nodeID s, rq_Ts := ts, rq_Nonce := nonce, rq_Auth := mac k s canonical\<rparr>))"

definition checkSkew :: "gotime \<Rightarrow> string \<Rightarrow> bool" where
  "checkSkew now ts =
     (case parse_int ts of
        None \<Rightarrow> False
      | Some secs \<Rightarrow>
          let n = unix now; window = SkewWindow div second
          in \<not> (secs < n - window \<or> secs > n + window))"

definition checkNonce :: "string \<Rightarrow> bool" where
  "checkNonce nonce = (case b64_decode nonce of None \<Rightarrow> False | Some raw \<Rightarrow> length raw = NonceBytes)"

definition VerifyRequest :: "crypto \<Rightarrow> signer \<Rightarrow> gotime \<Rightarrow> http_request \<Rightarrow> string \<Rightarrow> auth_error + string \<times> string" where
  "VerifyRequest k s now r body =
     (if rq_Auth r = '''' \<and> rq_Nonce r = '''' \<and> rq_Ts r = '''' \<and> rq_Node r = '''' then Inl ErrNoProof
      else if \<not> checkSkew now (rq_Ts r) then Inl ErrBadProof
      else if \<not> checkNonce (rq_Nonce r) then Inl ErrBadProof
      else if rq_Node r = '''' then Inl ErrBadProof
      else
        let want = mac k s (canonicalRequest (rq_Method r) (rq_URI r) (rq_Ts r) (rq_Nonce r) (rq_Node r) (bodyDigest k body))
        in if rq_Auth r \<noteq> want then Inl ErrBadProof else Inr (rq_Nonce r, rq_Node r))"

record response_headers =
  rh_Node :: string
  rh_Ts :: string
  rh_Auth :: string

definition SignResponse :: "crypto \<Rightarrow> signer \<Rightarrow> gotime \<Rightarrow> string \<Rightarrow> string \<Rightarrow> string \<Rightarrow> response_headers" where
  "SignResponse k s now pq nonce body =
     (let ts = itoa (unix now)
      in \<lparr>rh_Node = sg_nodeID s, rh_Ts = ts,
          rh_Auth = mac k s (canonicalResponse pq ts nonce (sg_nodeID s) (bodyDigest k body))\<rparr>)"

definition VerifyResponse :: "crypto \<Rightarrow> signer \<Rightarrow> gotime \<Rightarrow> response_headers \<Rightarrow> string \<Rightarrow> string \<Rightarrow> string \<Rightarrow> auth_error option" where
  "VerifyResponse k s now h pq nonce body =
     (if rh_Auth h = '''' \<and> rh_Ts h = '''' \<and> rh_Node h = '''' then Some ErrNoProof
      else if \<not> checkSkew now (rh_Ts h) then Some ErrBadProof
      else if rh_Node h = '''' then Some ErrBadProof
      else if rh_Auth h \<noteq> mac k s (canonicalResponse pq (rh_Ts h) nonce (rh_Node h) (bodyDigest k body)) then Some ErrBadProof
      else None)"

section \<open>Nonces\<close>

record nonce_cache =
  nc_seen :: "(string \<times> gotime) list"
  nc_ttl :: duration

definition NewNonceCache :: "duration \<Rightarrow> nonce_cache" where
  "NewNonceCache ttl = \<lparr>nc_seen = [], nc_ttl = ttl\<rparr>"

definition nonce_Use :: "gotime \<Rightarrow> string \<Rightarrow> nonce_cache \<Rightarrow> bool \<times> nonce_cache" where
  "nonce_Use now nonce c =
     (let seen = filter (\<lambda>(_, t). \<not> tsub now t > nc_ttl c) (nc_seen c)
      in if map_of seen nonce \<noteq> None then (False, c\<lparr>nc_seen := seen\<rparr>)
         else (True, c\<lparr>nc_seen := (nonce, now) # seen\<rparr>))"

definition nonce_Len :: "nonce_cache \<Rightarrow> nat" where
  "nonce_Len c = length (nc_seen c)"

section \<open>Forwards\<close>

record mesh_member = member +
  m_Addr :: string

definition rejectLogEvery :: duration where "rejectLogEvery = minute"

definition maxRejectLogKeys :: nat where "maxRejectLogKeys = 256"

record forward_auth =
  fa_self :: string
  fa_primary :: "signer option"
  fa_previous :: "signer option"
  fa_nonces :: nonce_cache
  fa_lastLog :: "(string \<times> gotime) list"

definition NewForwardAuth :: "string \<Rightarrow> string option \<Rightarrow> string option \<Rightarrow> signer_error + forward_auth" where
  "NewForwardAuth self primary previous =
     (let a = \<lparr>fa_self = self, fa_primary = None, fa_previous = None, fa_nonces = NewNonceCache (2 * SkewWindow), fa_lastLog = []\<rparr>
      in case primary of
           None \<Rightarrow> Inr a
         | Some p \<Rightarrow>
             (case NewSigner p self of
                Inl e \<Rightarrow> Inl e
              | Inr sp \<Rightarrow>
                  (case previous of
                     None \<Rightarrow> Inr (a\<lparr>fa_primary := Some sp\<rparr>)
                   | Some q \<Rightarrow>
                       (case NewSigner q self of
                          Inl e \<Rightarrow> Inl e
                        | Inr sq \<Rightarrow> Inr (a\<lparr>fa_primary := Some sp, fa_previous := Some sq\<rparr>)))))"

definition forward_Sign :: "crypto \<Rightarrow> forward_auth \<Rightarrow> gotime \<Rightarrow> string \<Rightarrow> http_request \<Rightarrow> string \<Rightarrow> http_request" where
  "forward_Sign k a now raw req body =
     (let req = req\<lparr>rq_Forwarded := fa_self a\<rparr>
      in case fa_primary a of None \<Rightarrow> req | Some s \<Rightarrow> snd (SignRequest k s now raw req body))"

datatype reject_reason = Unproven auth_error | SignedBy string | ReplayedNonce | NamesThisNode | BadSource string | NotTheMember

text \<open>Both secrets of a rotation are tried; a request without any proof is not retried.\<close>

definition verify_either :: "crypto \<Rightarrow> signer \<Rightarrow> signer option \<Rightarrow> gotime \<Rightarrow> http_request \<Rightarrow> string \<Rightarrow> auth_error + string \<times> string" where
  "verify_either k primary previous now r body =
     (case VerifyRequest k primary now r body of
        Inr x \<Rightarrow> Inr x
      | Inl e \<Rightarrow>
          (case previous of
             Some p \<Rightarrow> if e \<noteq> ErrNoProof then VerifyRequest k p now r body else Inl e
           | None \<Rightarrow> Inl e))"

definition verifySigned :: "crypto \<Rightarrow> signer \<Rightarrow> forward_auth \<Rightarrow> gotime \<Rightarrow> http_request \<Rightarrow> string \<Rightarrow> string \<Rightarrow>
    reject_reason option \<times> forward_auth" where
  "verifySigned k primary a now r body origin =
     (case verify_either k primary (fa_previous a) now r body of
        Inl e \<Rightarrow> (Some (Unproven e), a)
      | Inr (nonce, signer) \<Rightarrow>
          if signer \<noteq> origin then (Some (SignedBy signer), a)
          else
            case nonce_Use now nonce (fa_nonces a) of
              (fresh, nc) \<Rightarrow> (if fresh then None else Some ReplayedNonce, a\<lparr>fa_nonces := nc\<rparr>))"

text \<open>\<open>parseAddr\<close> is \<open>netip.ParseAddr\<close> followed by \<open>Unmap\<close>, with the address as text.\<close>

definition verifySource :: "(string \<Rightarrow> string option) \<Rightarrow> mesh_member list \<Rightarrow> forward_auth \<Rightarrow> http_request \<Rightarrow> string \<Rightarrow>
    reject_reason option" where
  "verifySource parseAddr members a r origin =
     (if origin = fa_self a then Some NamesThisNode
      else
        case parseAddr (host_part (rq_RemoteAddr r)) of
          None \<Rightarrow> Some (BadSource (rq_RemoteAddr r))
        | Some src \<Rightarrow>
            if list_ex (\<lambda>m. m_Name m = origin \<and> \<not> m_Local m \<and> m_State m = ''alive'' \<and> m_Addr m = src) members
            then None else Some NotTheMember)"

text \<open>The flag says whether the rejection is logged.\<close>

definition noteRejection :: "gotime \<Rightarrow> string \<Rightarrow> forward_auth \<Rightarrow> bool \<times> forward_auth" where
  "noteRejection now origin a =
     (let last = map_of (fa_lastLog a) origin in
      if (case last of Some t \<Rightarrow> tsub now t < rejectLogEvery | None \<Rightarrow> False) then (False, a)
      else
        let log = (if last = None \<and> length (fa_lastLog a) \<ge> maxRejectLogKeys
                   then let kept = filter (\<lambda>(_, t). \<not> tsub now t \<ge> rejectLogEvery) (fa_lastLog a)
                        in if length kept \<ge> maxRejectLogKeys then [] else kept
                   else fa_lastLog a)
        in (True, a\<lparr>fa_lastLog := AList.update origin now log\<rparr>))"

definition forward_Verify :: "crypto \<Rightarrow> (string \<Rightarrow> string option) \<Rightarrow> mesh_member list \<Rightarrow> gotime \<Rightarrow> http_request \<Rightarrow> string \<Rightarrow>
    forward_auth \<Rightarrow> string option \<times> forward_auth" where
  "forward_Verify k parseAddr members now r body a =
     (let origin = rq_Forwarded r in
      if origin = '''' then (None, a)
      else
        case (case fa_primary a of
                Some s \<Rightarrow> verifySigned k s a now r body origin
              | None \<Rightarrow> (verifySource parseAddr members a r origin, a)) of
          (Some reason, a) \<Rightarrow> (None, snd (noteRejection now origin a))
        | (None, a) \<Rightarrow> (Some origin, a))"

definition stripMeshHeaders :: "http_request \<Rightarrow> http_request" where
  "stripMeshHeaders r =
     r\<lparr>rq_Forwarded := '''', rq_Client := '''', rq_Node := '''', rq_Ts := '''', rq_Nonce := '''', rq_Auth := ''''\<rparr>"

section \<open>Signed requests\<close>

lemma hex_no_newline: "CHR 0x0A \<notin> set (hex_encode bs)"
proof -
  have "hex_digit n \<noteq> CHR 0x0A" if "n < 16" for n
    using that by (auto simp: hex_digit_def of_char_eq_iff [symmetric, where ?'a = nat])
  moreover have "(of_char b :: nat) div 16 < 16" for b :: char using char_bound [of b] by (simp add: less_mult_imp_div_less)
  ultimately show ?thesis by (auto simp: hex_encode_def dest: sym)
qed

text \<open>The signature covers every field: the signed text determines them.\<close>

lemma canonical_request_inj:
  assumes "\<forall>x\<in>{m, u, ts, n, d, b, m', u', ts', n', d', b'}. CHR 0x0A \<notin> set x"
    and "canonicalRequest m u ts n d b = canonicalRequest m' u' ts' n' d' b'"
  shows "m = m' \<and> u = u' \<and> ts = ts' \<and> n = n' \<and> d = d' \<and> b = b'"
proof -
  let ?xs = "[scheme, ''req'', m, u, ts, n, d, b]" and ?ys = "[scheme, ''req'', m', u', ts', n', d', b']"
  have "split (CHR 0x0A) (join [CHR 0x0A] ?xs) = ?xs" "split (CHR 0x0A) (join [CHR 0x0A] ?ys) = ?ys"
    using assms(1) by (intro split_join; auto simp: scheme_def)+
  moreover have "join [CHR 0x0A] ?xs = join [CHR 0x0A] ?ys"
    using assms(2) unfolding canonicalRequest_def newline_def .
  ultimately have "?xs = ?ys" by metis
  then show ?thesis by simp
qed

text \<open>A request's signature can never pass for a response's.\<close>

lemma canonical_kinds_differ: "canonicalRequest m u ts n d b \<noteq> canonicalResponse u' ts' n' d' b'"
proof
  assume "canonicalRequest m u ts n d b = canonicalResponse u' ts' n' d' b'"
  then have "drop 3 (canonicalRequest m u ts n d b) ! 2 = drop 3 (canonicalResponse u' ts' n' d' b') ! 2" by simp
  then show False by (simp add: canonicalRequest_def canonicalResponse_def scheme_def newline_def)
qed

lemma check_skew_itoa:
  assumes "- (2 ^ 63) \<le> unix t" and "unix t < 2 ^ 63"
  shows "checkSkew now (itoa (unix t)) \<longleftrightarrow> \<bar>unix now - unix t\<bar> \<le> 120"
  using parse_itoa [OF assms] by (auto simp: checkSkew_def SkewWindow_def second_def Let_def)

lemma sign_verify:
  assumes "length raw = NonceBytes" and "sg_nodeID s \<noteq> ''''" and "sg_secret s' = sg_secret s"
    and "- (2 ^ 63) \<le> unix t" "unix t < 2 ^ 63" and "\<bar>unix now - unix t\<bar> \<le> 120"
  shows "VerifyRequest k s' now (snd (SignRequest k s t raw req body)) body = Inr (b64_encode raw, sg_nodeID s)"
proof -
  have "checkNonce (b64_encode raw)" using assms(1) by (simp add: checkNonce_def b64_round_trip)
  moreover have "mac k s' = mac k s" using assms(3) by (simp add: mac_def fun_eq_iff)
  ultimately show ?thesis
    using assms check_skew_itoa by (simp add: VerifyRequest_def SignRequest_def Let_def)
qed

lemma sign_verify_response:
  assumes "sg_nodeID s \<noteq> ''''" and "sg_secret s' = sg_secret s"
    and "- (2 ^ 63) \<le> unix t" "unix t < 2 ^ 63" and "\<bar>unix now - unix t\<bar> \<le> 120"
  shows "VerifyResponse k s' now (SignResponse k s t pq nonce body) pq nonce body = None"
proof -
  have "mac k s' = mac k s" using assms(2) by (simp add: mac_def fun_eq_iff)
  then show ?thesis
    using assms check_skew_itoa by (simp add: VerifyResponse_def SignResponse_def Let_def)
qed

section \<open>Replays\<close>

type_synonym forward_event = "gotime \<times> mesh_member list \<times> http_request \<times> string"

definition forward_step :: "crypto \<Rightarrow> (string \<Rightarrow> string option) \<Rightarrow> forward_auth \<Rightarrow> forward_event \<Rightarrow> forward_auth" where
  "forward_step k parseAddr a e = (case e of (now, members, r, body) \<Rightarrow> snd (forward_Verify k parseAddr members now r body a))"

definition forward_frame :: "forward_auth \<Rightarrow> string \<times> signer option \<times> signer option \<times> duration" where
  "forward_frame a = (fa_self a, fa_primary a, fa_previous a, nc_ttl (fa_nonces a))"

definition log_bounded :: "forward_auth \<Rightarrow> bool" where
  "log_bounded a \<longleftrightarrow> length (fa_lastLog a) \<le> maxRejectLogKeys"

lemma use_frame [simp]: "nc_ttl (snd (nonce_Use now nonce c)) = nc_ttl c"
  by (simp add: nonce_Use_def Let_def)

lemma length_update_le: "length (AList.update k v xs) \<le> (if k \<in> fst ` set xs then length xs else Suc (length xs))"
proof (induction xs)
  case (Cons x xs)
  then show ?case by (cases x; cases "k \<in> fst ` set xs") auto
qed simp

lemma note_frame: "forward_frame (snd (noteRejection now origin a)) = forward_frame a"
  and note_nonces: "fa_nonces (snd (noteRejection now origin a)) = fa_nonces a"
  by (simp_all add: noteRejection_def forward_frame_def Let_def)

lemma note_bounded:
  assumes "log_bounded a"
  shows "log_bounded (snd (noteRejection now origin a))"
proof -
  have k: "map_of xs origin = None \<longleftrightarrow> origin \<notin> fst ` set xs" for xs :: "(string \<times> gotime) list"
    by (simp add: map_of_eq_None_iff)
  consider (known) "map_of (fa_lastLog a) origin \<noteq> None"
    | (roomy) "length (fa_lastLog a) < maxRejectLogKeys" | (full) "map_of (fa_lastLog a) origin = None" "length (fa_lastLog a) \<ge> maxRejectLogKeys"
    by linarith
  then show ?thesis
  proof cases
    case known
    then show ?thesis
      using assms length_update_le [of origin now "fa_lastLog a"] k by (auto simp: noteRejection_def log_bounded_def Let_def split: if_splits)
  next
    case roomy
    then show ?thesis
      using assms length_update_le [of origin now "fa_lastLog a"] by (auto simp: noteRejection_def log_bounded_def Let_def split: if_splits)
  next
    case full
    let ?kept = "filter (\<lambda>(_, t). \<not> tsub now t \<ge> rejectLogEvery) (fa_lastLog a)"
    have "length (AList.update origin now (if length ?kept \<ge> maxRejectLogKeys then [] else ?kept)) \<le> maxRejectLogKeys"
      using length_update_le [of origin now ?kept] by (auto simp: maxRejectLogKeys_def split: if_splits)
    then show ?thesis using full assms by (simp add: noteRejection_def log_bounded_def Let_def)
  qed
qed

lemma verify_signed_frame:
  "forward_frame (snd (verifySigned k s a now r body origin)) = forward_frame a"
  "fa_lastLog (snd (verifySigned k s a now r body origin)) = fa_lastLog a"
  by (auto simp: verifySigned_def forward_frame_def split: sum.split prod.split) (metis snd_conv use_frame)+

lemma forward_step_ok:
  "forward_frame (forward_step k parseAddr a e) = forward_frame a"
  "log_bounded a \<Longrightarrow> log_bounded (forward_step k parseAddr a e)"
proof -
  obtain now members r body where e: "e = (now, members, r, body)" by (cases e) auto
  obtain res a1 where v: "(case fa_primary a of
        Some s \<Rightarrow> verifySigned k s a now r body (rq_Forwarded r)
      | None \<Rightarrow> (verifySource parseAddr members a r (rq_Forwarded r), a)) = (res, a1)" by fastforce
  have a1: "forward_frame a1 = forward_frame a" "fa_lastLog a1 = fa_lastLog a"
    using v verify_signed_frame [of k _ a now r body "rq_Forwarded r"] by (metis (mono_tags, lifting) option.case_eq_if snd_conv)+
  have step: "forward_step k parseAddr a e =
      (if rq_Forwarded r = '''' then a else if res = None then a1 else snd (noteRejection now (rq_Forwarded r) a1))"
    using v by (cases res) (auto simp: e forward_step_def forward_Verify_def Let_def)
  show "forward_frame (forward_step k parseAddr a e) = forward_frame a" using a1 note_frame step by simp
  show "log_bounded (forward_step k parseAddr a e)" if "log_bounded a"
    using that a1(2) note_bounded [of a1] step by (simp add: log_bounded_def)
qed

interpretation forward_runs: invariant_machine "forward_step k parseAddr" log_bounded forward_frame for k parseAddr
  by unfold_locales (simp_all add: forward_step_ok)

lemma verify_either_nonce:
  assumes "verify_either k primary previous now r body = Inr (nonce, signer)"
  shows "nonce = rq_Nonce r \<and> signer = rq_Node r \<and> checkSkew now (rq_Ts r)"
  using assms by (auto simp: verify_either_def VerifyRequest_def Let_def split: sum.splits option.splits if_splits)

lemma accept_records:
  assumes "forward_Verify k parseAddr members t r body a = (Some orig, a')" and "fa_primary a \<noteq> None"
  shows "(rq_Nonce r, t) \<in> set (nc_seen (fa_nonces a'))" and "checkSkew t (rq_Ts r)" and "orig = rq_Node r"
    and "(rq_Nonce r, t0) \<in> set (nc_seen (fa_nonces a)) \<Longrightarrow> tsub t t0 > nc_ttl (fa_nonces a)"
proof -
  obtain s where s: "fa_primary a = Some s" using assms(2) by blast
  have v: "verifySigned k s a t r body (rq_Forwarded r) = (None, a')" and orig: "orig = rq_Forwarded r"
    using assms(1) s by (auto simp: forward_Verify_def Let_def split: if_splits prod.splits option.splits)
  obtain nonce signer nc where e: "verify_either k s (fa_previous a) t r body = Inr (nonce, signer)"
    and u: "nonce_Use t nonce (fa_nonces a) = (True, nc)" "a' = a\<lparr>fa_nonces := nc\<rparr>" and "signer = rq_Forwarded r"
    using v by (auto simp: verifySigned_def split: sum.splits prod.splits if_splits)
  note n = verify_either_nonce [OF e]
  show "(rq_Nonce r, t) \<in> set (nc_seen (fa_nonces a'))" "checkSkew t (rq_Ts r)" "orig = rq_Node r"
    using u n orig \<open>signer = rq_Forwarded r\<close> by (auto simp: nonce_Use_def Let_def split: if_splits)
  have "map_of (filter (\<lambda>(_, t0). \<not> tsub t t0 > nc_ttl (fa_nonces a)) (nc_seen (fa_nonces a))) nonce = None"
    using u(1) by (auto simp: nonce_Use_def Let_def split: if_splits)
  then show "(rq_Nonce r, t0) \<in> set (nc_seen (fa_nonces a)) \<Longrightarrow> tsub t t0 > nc_ttl (fa_nonces a)"
    using n by (force simp: map_of_eq_None_iff)
qed

lemma use_keeps:
  "(n, t1) \<in> set (nc_seen c) \<Longrightarrow> tsub now t1 \<le> nc_ttl c \<Longrightarrow> (n, t1) \<in> set (nc_seen (snd (nonce_Use now m c)))"
  by (auto simp: nonce_Use_def Let_def)

lemma step_keeps_nonce:
  assumes "(n, t1) \<in> set (nc_seen (fa_nonces a))" and "tsub (fst e) t1 \<le> nc_ttl (fa_nonces a)"
  shows "(n, t1) \<in> set (nc_seen (fa_nonces (forward_step k parseAddr a e)))"
proof -
  obtain now members r body where e: "e = (now, members, r, body)" by (cases e) auto
  have signed: "(n, t1) \<in> set (nc_seen (fa_nonces (snd (verifySigned k s a now r body orig))))" for s orig
    using use_keeps [OF assms(1), of now] assms e
    by (simp add: verifySigned_def split: sum.split prod.split) (metis snd_conv)
  show ?thesis
    using assms(1) signed unfolding e forward_step_def forward_Verify_def
    by (auto simp: Let_def note_nonces split: prod.split option.split) (metis snd_conv)+
qed

lemma run_keeps_nonce:
  assumes "(n, t1) \<in> set (nc_seen (fa_nonces a))" and "\<forall>e\<in>set es. tsub (fst e) t1 \<le> nc_ttl (fa_nonces a)"
  shows "(n, t1) \<in> set (nc_seen (fa_nonces (run_events (forward_step k parseAddr) a es)))"
  using assms
proof (induction es arbitrary: a)
  case (Cons e es)
  have "nc_ttl (fa_nonces (forward_step k parseAddr a e)) = nc_ttl (fa_nonces a)"
    using forward_step_ok(1) [of k parseAddr a e] by (simp add: forward_frame_def)
  then show ?case using Cons.IH step_keeps_nonce [OF Cons.prems(1)] Cons.prems(2) by simp
qed simp

text \<open>C9. A signed forward is accepted once. In a secured mesh, whatever forwards arrive in between, a receiver accepts the same
  signed request a second time only if more than two skew windows have passed since the first time, and
  then less than one second more: beyond that its time stamp is refused.\<close>

theorem forward_accepted_once:
  assumes "NewForwardAuth self (Some secret) previous = Inr a0"
    and "forward_Verify k parseAddr members1 t1 r body1 (run_events (forward_step k parseAddr) a0 before) = (Some orig1, a)"
    and "\<forall>e\<in>set between. fst e \<le> t2"
    and "forward_Verify k parseAddr members2 t2 r body2 (run_events (forward_step k parseAddr) a between) = (Some orig2, a')"
  shows "2 * SkewWindow < t2 - t1 \<and> t2 - t1 < 2 * SkewWindow + second \<and> orig1 = orig2"
proof -
  let ?b = "run_events (forward_step k parseAddr) a0 before" and ?c = "run_events (forward_step k parseAddr) a between"
  have f0: "fa_primary a0 \<noteq> None" "nc_ttl (fa_nonces a0) = 2 * SkewWindow"
    using assms(1) by (auto simp: NewForwardAuth_def NewNonceCache_def Let_def split: sum.splits option.splits)
  have fb: "forward_frame ?b = forward_frame a0" by (rule forward_runs.run_fixes)
  have "a = forward_step k parseAddr ?b (t1, members1, r, body1)" using assms(2) by (simp add: forward_step_def)
  then have fa: "forward_frame a = forward_frame a0" using forward_step_ok(1) fb by simp
  have fc: "forward_frame ?c = forward_frame a0" using forward_runs.run_fixes fa by metis
  have p: "fa_primary ?b \<noteq> None" "fa_primary ?c \<noteq> None" and ttl: "nc_ttl (fa_nonces a) = 2 * SkewWindow" "nc_ttl (fa_nonces ?c) = 2 * SkewWindow"
    using f0 fa fb fc by (auto simp: forward_frame_def)
  note first = accept_records [OF assms(2) p(1)] and second_time = accept_records [OF assms(4) p(2)]
  have late: "tsub t t1 > 2 * SkewWindow \<longleftrightarrow> t - t1 > 2 * SkewWindow" for t
    by (auto simp: tsub_def SkewWindow_def second_def min_duration_def max_duration_def)
  have "tsub t2 t1 > 2 * SkewWindow"
  proof (cases "\<forall>e\<in>set between. tsub (fst e) t1 \<le> 2 * SkewWindow")
    case True
    then show ?thesis using second_time(4) [OF run_keeps_nonce [OF first(1)]] ttl by auto
  next
    case False
    then obtain e where "e \<in> set between" "fst e - t1 > 2 * SkewWindow" using late by fastforce
    then show ?thesis using late assms(3) by fastforce
  qed
  moreover obtain secs where "parse_int (rq_Ts r) = Some secs" "secs \<le> unix t2 + 120" "unix t2 - 120 \<le> secs"
      "secs \<le> unix t1 + 120" "unix t1 - 120 \<le> secs"
    using first(2) second_time(2) by (auto simp: checkSkew_def SkewWindow_def second_def Let_def split: option.splits)
  then have "unix t2 \<le> unix t1 + 240" by linarith
  then have "t2 - t1 < 2 * SkewWindow + second"
    unfolding unix_def SkewWindow_def second_def by linarith
  ultimately show ?thesis using late first(3) second_time(3) by simp
qed

text \<open>The second is not empty. A request signed by a node whose clock is two minutes ahead of the receiver's arrives at once, and again
  240.5 seconds later: the cache has just dropped its nonce, and its time stamp is still accepted.\<close>

definition sample_crypto :: crypto where
  "sample_crypto = \<lparr>hmac = \<lambda>_ _. '''', sha256 = \<lambda>_. ''''\<rparr>"

definition sample_secret :: string where "sample_secret = replicate 32 (CHR ''s'')"

definition sample_forward :: http_request where
  "sample_forward = snd (SignRequest sample_crypto \<lparr>sg_secret = sample_secret, sg_nodeID = ''gb1''\<rparr> (1000 * second)
     (replicate 16 (CHR ''n''))
     \<lparr>rq_Method = ''POST'', rq_URI = ''/v1/completions'', rq_RemoteAddr = ''10.0.0.1:9'', rq_Host = '''', rq_Origin = '''',
      rq_Forwarded = ''gb1'', rq_Client = '''', rq_Node = '''', rq_Ts = '''', rq_Nonce = '''', rq_Auth = ''''\<rparr> ''x'')"

definition sample_receiver :: "(string \<times> gotime) list \<Rightarrow> forward_auth" where
  "sample_receiver seen = \<lparr>fa_self = ''gb2'', fa_primary = Some \<lparr>sg_secret = sample_secret, sg_nodeID = ''gb2''\<rparr>, fa_previous = None,
     fa_nonces = \<lparr>nc_seen = seen, nc_ttl = 2 * SkewWindow\<rparr>, fa_lastLog = []\<rparr>"

lemma sample_receiver_new: "NewForwardAuth ''gb2'' (Some sample_secret) None = Inr (sample_receiver [])"
  by (simp add: NewForwardAuth_def NewSigner_def NewNonceCache_def sample_receiver_def sample_secret_def MinSecretLen_def Let_def)

lemma sample_forward_verifies:
  assumes "\<bar>unix now - 1000\<bar> \<le> 120" and "\<forall>(n, t)\<in>set seen. tsub now t > 2 * SkewWindow"
  shows "\<exists>nonce. rq_Nonce sample_forward = nonce \<and>
    forward_Verify sample_crypto parseAddr members now sample_forward ''x'' (sample_receiver seen) =
      (Some ''gb1'', sample_receiver [(nonce, now)])"
proof -
  have u: "unix (1000 * second) = 1000" by (simp add: unix_def second_def)
  have "VerifyRequest sample_crypto \<lparr>sg_secret = sample_secret, sg_nodeID = ''gb2''\<rparr> now sample_forward ''x'' =
      Inr (b64_encode (replicate 16 (CHR ''n'')), ''gb1'')"
    unfolding sample_forward_def by (subst sign_verify) (use assms(1) u in \<open>simp_all add: NonceBytes_def\<close>)
  moreover have "rq_Forwarded sample_forward = ''gb1''" "rq_Nonce sample_forward = b64_encode (replicate 16 (CHR ''n''))"
    by (simp_all add: sample_forward_def SignRequest_def Let_def)
  moreover have "filter (\<lambda>(_, t). \<not> tsub now t > 2 * SkewWindow) seen = []"
    using assms(2) by (auto simp: filter_empty_conv)
  ultimately show ?thesis
    by (simp add: forward_Verify_def verifySigned_def verify_either_def nonce_Use_def sample_receiver_def Let_def)
qed

lemma forward_replayed:
  "\<exists>a a'. forward_Verify sample_crypto Some [] (880 * second) sample_forward ''x'' (sample_receiver []) = (Some ''gb1'', a) \<and>
     forward_Verify sample_crypto Some [] (1120 * second + 500 * millisecond) sample_forward ''x'' a = (Some ''gb1'', a')"
proof -
  have "\<bar>unix (880 * second) - 1000\<bar> \<le> 120" "\<bar>unix (1120 * second + 500 * millisecond) - 1000\<bar> \<le> 120"
    "tsub (1120 * second + 500 * millisecond) (880 * second) > 2 * SkewWindow"
    by (simp_all add: unix_def second_def millisecond_def SkewWindow_def tsub_def min_duration_def max_duration_def)
  then show ?thesis
    using sample_forward_verifies [of "880 * second" "[]" Some "[]"]
      sample_forward_verifies [of "1120 * second + 500 * millisecond" "[(rq_Nonce sample_forward, 880 * second)]" Some "[]"]
    by auto
qed

theorem forward_accepted_once_witness:
  "\<exists>t1 t2 a a'. forward_Verify sample_crypto Some [] t1 sample_forward ''x'' (sample_receiver []) = (Some ''gb1'', a) \<and>
     forward_Verify sample_crypto Some [] t2 sample_forward ''x'' a = (Some ''gb1'', a') \<and>
     2 * SkewWindow < t2 - t1 \<and> t2 - t1 < 2 * SkewWindow + second"
proof -
  obtain a a' where f: "forward_Verify sample_crypto Some [] (880 * second) sample_forward ''x'' (sample_receiver []) = (Some ''gb1'', a)"
    and s: "forward_Verify sample_crypto Some [] (1120 * second + 500 * millisecond) sample_forward ''x'' a = (Some ''gb1'', a')"
    using forward_replayed by blast
  have "2 * SkewWindow < (1120 * second + 500 * millisecond) - 880 * second \<and>
      (1120 * second + 500 * millisecond) - 880 * second < 2 * SkewWindow + second \<and> ''gb1'' = ''gb1''"
    by (rule forward_accepted_once [OF sample_receiver_new, of sample_crypto Some "[]" _ sample_forward "''x''" "[]" _ a "[]" _ "[]" "''x''" _ a'])
      (use f s in simp_all)
  then show ?thesis using f s by blast
qed

end
