(* ===== verification/JoinCode.thy ===== *)
theory JoinCode
  imports GoText
begin

text \<open>
  Join codes (\<open>internal/joincode/joincode.go\<close>): the mesh secret and a seed address in one string with a checksum, and reading it
  back from a paste. Bytes are characters; the checksum is the IEEE CRC-32 of Go's \<open>hash/crc32\<close>, computed bit by bit on 32-bit
  words. Whether a seed parses as an address and port (\<open>netip.ParseAddrPort\<close>) is the argument \<open>isAddrPort\<close>.
\<close>

unbundle bit_operations_syntax

section \<open>Checksum\<close>

definition crc_bit :: "32 word \<Rightarrow> 32 word" where
  "crc_bit c = (if c AND 1 = 1 then drop_bit 1 c XOR 0xEDB88320 else drop_bit 1 c)"

definition crc_byte :: "32 word \<Rightarrow> char \<Rightarrow> 32 word" where
  "crc_byte c b = (crc_bit ^^ 8) (c XOR of_nat (of_char b))"

definition crc32 :: "string \<Rightarrow> 32 word" where
  "crc32 bs = NOT (foldl crc_byte (NOT 0) bs)"

definition be_bytes :: "32 word \<Rightarrow> string" where
  "be_bytes w = map (\<lambda>i. char_of (unat (drop_bit (8 * i) w) mod 256)) [3, 2, 1, 0]"

fun be_word :: "string \<Rightarrow> 32 word" where
  "be_word [a, b, c, d] = of_nat (((of_char a * 256 + of_char b) * 256 + of_char c) * 256 + of_char d)"
| "be_word _ = 0"

section \<open>Codes\<close>

definition code_prefix :: string where "code_prefix = ''viiwork1-''"

definition code_version :: nat where "code_version = 1"

definition flagSecure :: nat where "flagSecure = 1"

definition secretLen :: nat where "secretLen = 32"

datatype code_error = ErrVersion | ErrDamaged | ErrSeed | ErrSecretLen nat

record code =
  jc_Secret :: "string option"
  jc_Seed :: string

definition code_body :: "code \<Rightarrow> string" where
  "code_body c =
     char_of code_version # (case jc_Secret c of Some s \<Rightarrow> char_of flagSecure # s | None \<Rightarrow> [char_of (0 :: nat)]) @
     char_of (length (jc_Seed c)) # jc_Seed c"

definition Encode :: "(string \<Rightarrow> bool) \<Rightarrow> code \<Rightarrow> code_error + string" where
  "Encode isAddrPort c =
     (if \<not> isAddrPort (jc_Seed c) then Inl ErrSeed
      else case jc_Secret c of
             Some s \<Rightarrow> if length s \<noteq> secretLen then Inl (ErrSecretLen (length s))
                        else Inr (code_prefix @ b64_encode (code_body c @ be_bytes (crc32 (code_body c))))
           | None \<Rightarrow> Inr (code_prefix @ b64_encode (code_body c @ be_bytes (crc32 (code_body c)))))"

text \<open>\<open>strings.Join(strings.Fields(s), "")\<close>: the text without its white space, Unicode's included.\<close>

fun strip_spaces :: "string \<Rightarrow> string" where
  "strip_spaces [] = []"
| "strip_spaces (a # s) =
     (if ascii_space a then strip_spaces s
      else case s of
             b # t \<Rightarrow>
               if of_char a = (0xC2 :: nat) \<and> of_char b \<in> {0x85, 0xA0 :: nat} then strip_spaces t
               else (case t of
                       c # u \<Rightarrow> if wide_space (of_char a) (of_char b) (of_char c) then strip_spaces u else a # strip_spaces s
                     | [] \<Rightarrow> a # strip_spaces s)
           | [] \<Rightarrow> [a])"

definition read_body :: "(string \<Rightarrow> bool) \<Rightarrow> string \<Rightarrow> code_error + code" where
  "read_body isAddrPort body =
     (if of_char (body ! 0) \<noteq> code_version then Inl ErrVersion
      else
        let p = drop 2 body;
            secure = odd (of_char (body ! 1) :: nat)
        in if secure \<and> length p < secretLen then Inl ErrDamaged
           else
             let secret = (if secure then Some (take secretLen p) else None);
                 p = (if secure then drop secretLen p else p)
             in if length p < 1 \<or> of_char (p ! 0) \<noteq> length p - 1 then Inl ErrDamaged
                else if \<not> isAddrPort (drop 1 p) then Inl ErrDamaged
                else Inr \<lparr>jc_Secret = secret, jc_Seed = drop 1 p\<rparr>)"

definition Decode :: "(string \<Rightarrow> bool) \<Rightarrow> string \<Rightarrow> code_error + code" where
  "Decode isAddrPort s =
     (let s = strip_spaces s in
      if \<not> has_prefix code_prefix s then Inl ErrVersion
      else
        case b64_decode (trim_prefix code_prefix s) of
          None \<Rightarrow> Inl ErrDamaged
        | Some raw \<Rightarrow>
            if length raw < 7 then Inl ErrDamaged
            else
              let body = take (length raw - 4) raw; sum = drop (length raw - 4) raw
              in if crc32 body \<noteq> be_word sum then Inl ErrDamaged else read_body isAddrPort body)"

section \<open>Round trip\<close>

lemma be_length [simp]: "length (be_bytes w) = 4"
  by (simp add: be_bytes_def)

lemma be_round_trip: "be_word (be_bytes w) = w"
proof -
  define n where "n = unat w"
  have "n < 2 ^ 32" using unsigned_less [of w] by (simp add: n_def)
  have d: "unat (drop_bit k w) = n div 2 ^ k" for k
    unfolding n_def unat_drop_bit_eq by (simp add: drop_bit_eq_div)
  have "n div 2 ^ 24 < 256" using \<open>n < 2 ^ 32\<close> by (simp add: less_mult_imp_div_less)
  then have "n div 2 ^ 24 mod 256 = n div 2 ^ 24" by simp
  moreover have "n div 2 ^ 24 = n div 256 div 256 div 256" "n div 2 ^ 16 = n div 256 div 256" "n div 2 ^ 8 = n div 256"
    by (simp_all add: div_mult2_eq [symmetric])
  ultimately have "((n div 2 ^ 24 mod 256 * 256 + n div 2 ^ 16 mod 256) * 256 + n div 2 ^ 8 mod 256) * 256 + n mod 256 = n"
    by (metis div_mult_mod_eq)
  then show ?thesis
    unfolding be_bytes_def using d [of 24] d [of 16] d [of 8] d [of 0]
    by (simp add: n_def flip: of_nat_add of_nat_mult)
qed

lemma strip_plain:
  assumes "\<forall>c\<in>set s. 32 < (of_char c :: nat) \<and> (of_char c :: nat) < 128"
  shows "strip_spaces s = s"
  using assms
proof (induction s rule: strip_spaces.induct)
  case (2 a s)
  then have "\<not> ascii_space a" "\<not> wide_space (of_char a) x y" "of_char a \<noteq> (0xC2 :: nat)" for x y
    by (auto simp: ascii_space_def wide_space_def)
  then show ?case using 2 by (auto split: list.split)
qed simp

lemma b64_char_plain: "n < 64 \<Longrightarrow> 32 < (of_char (b64_char n) :: nat) \<and> (of_char (b64_char n) :: nat) < 128"
  by (auto simp: b64_char_def)

lemma b64_encode_plain: "\<forall>c\<in>set (b64_encode bs). 32 < (of_char c :: nat) \<and> (of_char c :: nat) < 128"
proof (induction bs rule: b64_encode.induct)
  case (2 a)
  then show ?case
    using b64_pieces [OF char_bound [of a] char_bound [of a] char_bound [of a]] b64_char_plain by simp
next
  case (3 a b)
  then show ?case
    using b64_pieces [OF char_bound [of a] char_bound [of b] char_bound [of b]] b64_char_plain by simp
next
  case (4 a b c cs)
  then show ?case
    using b64_pieces [OF char_bound [of a] char_bound [of b] char_bound [of c]] b64_char_plain by simp
qed simp

lemma read_code_body:
  assumes "isAddrPort (jc_Seed c)" and "length (jc_Seed c) < 256"
    and "\<forall>s. jc_Secret c = Some s \<longrightarrow> length s = secretLen"
  shows "read_body isAddrPort (code_body c) = Inr c"
proof (cases "jc_Secret c")
  case None
  then show ?thesis
    using assms by (simp add: read_body_def code_body_def code_version_def Let_def)
next
  case (Some s)
  then show ?thesis
    using assms by (simp add: read_body_def code_body_def code_version_def flagSecure_def Let_def)
qed

text \<open>C34. A join code survives the trip through a terminal. What \<open>Encode\<close> produces for a secret (or none) and a seed of at most 255
  bytes decodes to the same secret and seed, from any paste that differs from it only by white space
  and line breaks around and inside it.\<close>

theorem join_code_round_trip:
  assumes "Encode isAddrPort c = Inr s" and "length (jc_Seed c) \<le> 255" and "strip_spaces s' = s"
  shows "Decode isAddrPort s' = Inr c \<and> Decode isAddrPort s = Inr c"
proof -
  let ?raw = "code_body c @ be_bytes (crc32 (code_body c))"
  have s: "s = code_prefix @ b64_encode ?raw" and "isAddrPort (jc_Seed c)"
    and "\<forall>x. jc_Secret c = Some x \<longrightarrow> length x = secretLen"
    using assms(1) by (auto simp: Encode_def split: if_splits option.splits)
  then have body: "read_body isAddrPort (code_body c) = Inr c" using read_code_body assms(2) by simp
  have "\<forall>x\<in>set s. 32 < (of_char x :: nat) \<and> (of_char x :: nat) < 128"
    using b64_encode_plain [of ?raw] by (auto simp: s code_prefix_def)
  then have "strip_spaces s = s" by (rule strip_plain)
  moreover have "length ?raw \<ge> 7" by (simp add: code_body_def split: option.split)
  then have "Decode isAddrPort x = Inr c" if "strip_spaces x = s" for x
    using body by (simp add: Decode_def that Let_def has_prefix_def trim_prefix_def s b64_round_trip be_round_trip)
  ultimately show ?thesis using assms(3) by simp
qed

theorem join_code_round_trip_witness:
  "\<exists>s. Encode (\<lambda>_. True) \<lparr>jc_Secret = None, jc_Seed = ''10.0.0.1:7946''\<rparr> = Inr s \<and>
     Decode (\<lambda>_. True) s = Inr \<lparr>jc_Secret = None, jc_Seed = ''10.0.0.1:7946''\<rparr>"
proof -
  let ?c = "\<lparr>jc_Secret = None, jc_Seed = ''10.0.0.1:7946''\<rparr>"
  obtain s where s: "Encode (\<lambda>_. True) ?c = Inr s" by (simp add: Encode_def)
  have "strip_spaces s = s"
    using s b64_encode_plain by (auto simp: Encode_def code_prefix_def intro!: strip_plain)
  from join_code_round_trip [OF s _ this] s show ?thesis by simp
qed

end
