(* ===== verification/AliasService.thy ===== *)
theory AliasService
  imports AliasStore MeshAuth
begin

text \<open>
  Aliases in use (\<open>internal/alias/resolver.go\<close>, \<open>service.go\<close> and \<open>api.go\<close>): which model an alias means now, the checks on a
  local write, the service that stores and gossips changes, and the HTTP interface with its authorisation. The parts of the
  world the code reads are arguments: the served view (this node's capacity and the members' reports), this
  node's pipeline names, the JSON codec of broadcasts, and whether a host is a loopback address. What the service
  sends and records is appended to its state.
\<close>

section \<open>What is served\<close>

record served_view =
  sv_self :: string
  sv_local :: "ModelCapacity list"
  sv_reports :: "report list"
  sv_staleAfter :: duration
  sv_now :: gotime

definition Exists :: "served_view \<Rightarrow> string \<Rightarrow> bool" where
  "Exists v model \<longleftrightarrow>
     list_ex (\<lambda>mc. mc_Name mc = model) (sv_local v) \<or>
     list_ex (\<lambda>rep. r_Node rep \<noteq> sv_self v \<and> report_Model rep model \<noteq> None) (sv_reports v)"

definition Served :: "served_view \<Rightarrow> string \<Rightarrow> bool" where
  "Served v model \<longleftrightarrow>
     list_ex (\<lambda>mc. mc_Name mc = model \<and> mc_HealthyBackends mc > 0) (sv_local v) \<or>
     list_ex (\<lambda>rep. r_Node rep \<noteq> sv_self v \<and> Fresh rep (sv_now v) (sv_staleAfter v) \<and>
       (case report_Model rep model of None \<Rightarrow> False | Some mc \<Rightarrow> mc_HealthyBackends mc > 0)) (sv_reports v)"

section \<open>Resolving\<close>

text \<open>What a resolver consults; the store and the names whose shadowing it has logged are arguments.\<close>

record resolver =
  rv_served :: served_view
  rv_pipelines :: "string list"

definition isPipeline :: "resolver \<Rightarrow> string \<Rightarrow> bool" where
  "isPipeline r name \<longleftrightarrow> name \<in> set (rv_pipelines r)"

definition is_real :: "resolver \<Rightarrow> string \<Rightarrow> bool" where
  "is_real r name \<longleftrightarrow> Exists (rv_served r) name \<or> isPipeline r name"

text \<open>The flag says whether the shadowing is logged.\<close>

definition checkShadowed :: "resolver \<Rightarrow> string \<Rightarrow> string list \<Rightarrow> (bool \<times> bool) \<times> string list" where
  "checkShadowed r name shadowed =
     (if is_real r name then
        if name \<notin> set shadowed then ((True, True), name # shadowed) else ((True, False), shadowed)
      else ((False, False), removeAll name shadowed))"

definition resolver_pick :: "resolver \<Rightarrow> AliasEntry \<Rightarrow> string option" where
  "resolver_pick r e =
     (if Served (rv_served r) (ae_Target e) then Some (ae_Target e)
      else List.find (Served (rv_served r)) (ae_Fallbacks e))"

record resolve_error =
  re_Status :: int
  re_Alias :: string
  re_Target :: string
  re_RetryAfter :: int

definition Resolve :: "resolver \<Rightarrow> store \<Rightarrow> string \<Rightarrow> string list \<Rightarrow> (resolve_error + string \<times> string) \<times> string list" where
  "Resolve r s requested shadowed =
     (case store_peek s requested of
        None \<Rightarrow> (Inr (requested, ''''), shadowed)
      | Some e \<Rightarrow>
          if ae_Deleted e then (Inr (requested, ''''), shadowed)
          else
            case checkShadowed r requested shadowed of
              ((True, _), shadowed) \<Rightarrow> (Inr (requested, ''''), shadowed)
            | ((False, _), shadowed) \<Rightarrow>
                (case resolver_pick r e of
                   Some m \<Rightarrow> (Inr (m, requested), shadowed)
                 | None \<Rightarrow>
                     (Inl \<lparr>re_Status = 503, re_Alias = requested, re_Target = ae_Target e, re_RetryAfter = 5\<rparr>, shadowed)))"

definition liveNames :: "AliasTable \<Rightarrow> string list" where
  "liveNames t = sort (map fst (filter (\<lambda>(_, e). \<not> ae_Deleted e) (at_Aliases t)))"

definition AliasStateOK :: string where "AliasStateOK = ''ok''"

definition AliasStateFallback :: string where "AliasStateFallback = ''fallback''"

definition AliasStateUnavailable :: string where "AliasStateUnavailable = ''unavailable''"

definition AliasStateShadowed :: string where "AliasStateShadowed = ''shadowed''"

text \<open>The date of a day counted from the first of January 1970, and RFC 3339 in UTC with milliseconds.\<close>

definition civil :: "int \<Rightarrow> int \<times> int \<times> int" where
  "civil days =
     (let z = days + 719468; era = z div 146097; doe = z mod 146097;
          yoe = (doe - doe div 1460 + doe div 36524 - doe div 146096) div 365;
          doy = doe - (365 * yoe + yoe div 4 - yoe div 100);
          mp = (5 * doy + 2) div 153;
          d = doy - (153 * mp + 2) div 5 + 1;
          m = (if mp < 10 then mp + 3 else mp - 9);
          y = yoe + era * 400 + (if m \<le> 2 then 1 else 0)
      in (y, m, d))"

definition pad :: "nat \<Rightarrow> int \<Rightarrow> string" where
  "pad w n =
     (let ds = digits (nat \<bar>n\<bar>); p = replicate (w - length ds) (CHR ''0'') @ ds
      in if n < 0 then CHR ''-'' # p else p)"

definition FormatAliasTime :: "int \<Rightarrow> string" where
  "FormatAliasTime tsMillis =
     (let days = tsMillis div 86400000; ms = tsMillis mod 86400000; (y, m, d) = civil days
      in pad 4 y @ ''-'' @ pad 2 m @ ''-'' @ pad 2 d @ ''T'' @ pad 2 (ms div 3600000) @ '':'' @
         pad 2 (ms div 60000 mod 60) @ '':'' @ pad 2 (ms div 1000 mod 60) @ ''.'' @ pad 3 (ms mod 1000) @ ''Z'')"

record AliasInfo =
  ai_Name :: string
  ai_Target :: string
  ai_Fallbacks :: "string list"
  ai_UpdatedAt :: string
  ai_UpdatedBy :: string
  ai_Resolved :: "string option"
  ai_State :: string

definition alias_info :: "resolver \<Rightarrow> string \<Rightarrow> AliasEntry \<Rightarrow> bool \<Rightarrow> AliasInfo" where
  "alias_info r name e shadowed =
     (let m = resolver_pick r e;
          (st, res) = (if shadowed then (AliasStateShadowed, None)
                       else if m = Some (ae_Target e) then (AliasStateOK, m)
                       else if m \<noteq> None then (AliasStateFallback, m)
                       else (AliasStateUnavailable, None))
      in \<lparr>ai_Name = name, ai_Target = ae_Target e, ai_Fallbacks = ae_Fallbacks e, ai_UpdatedAt = FormatAliasTime (ae_TS e),
          ai_UpdatedBy = ae_By e, ai_Resolved = res, ai_State = st\<rparr>)"

fun info_list :: "resolver \<Rightarrow> AliasTable \<Rightarrow> string list \<Rightarrow> string list \<Rightarrow> AliasInfo list \<times> string list" where
  "info_list r t [] shadowed = ([], shadowed)"
| "info_list r t (name # names) shadowed =
     (case checkShadowed r name shadowed of
        ((sh, _), shadowed) \<Rightarrow>
          (case info_list r t names shadowed of
             (infos, shadowed) \<Rightarrow> (alias_info r name (entry_or_zero (map_of (at_Aliases t) name)) sh # infos, shadowed)))"

definition Info :: "resolver \<Rightarrow> store \<Rightarrow> string list \<Rightarrow> AliasInfo list \<times> string list" where
  "Info r s shadowed = info_list r (Table s) (liveNames (Table s)) shadowed"

record ModelEntry =
  me_ID :: string
  me_Object :: string
  me_OwnedBy :: string
  me_Target :: string
  me_MaxModelLen :: int
  me_ContextLength :: int

definition ModelEntries :: "store \<Rightarrow> ModelEntry list" where
  "ModelEntries s =
     map (\<lambda>name. \<lparr>me_ID = name, me_Object = ''model'', me_OwnedBy = ''alias'',
        me_Target = ae_Target (entry_or_zero (map_of (at_Aliases (Table s)) name)),
        me_MaxModelLen = 0, me_ContextLength = 0\<rparr>) (liveNames (Table s))"

section \<open>Checking a write\<close>

record AliasWriteRequest =
  aw_Target :: string
  aw_Fallbacks :: "string list"
  aw_Force :: bool

datatype write_error =
    NotFound string
  | BadName string | NameTaken string | NoTarget | PointsAtAlias string | PointsAtPipeline string
  | NotServed string | ListedTwice string | TableFull | TooLarge string nat | NoPreviousVersion string
  | BadRequest
  | StoreFailed alias_error

definition maxBroadcastBytes :: nat where "maxBroadcastBytes = 1000"

fun first_repeat :: "string list \<Rightarrow> string list \<Rightarrow> string option" where
  "first_repeat seen [] = None"
| "first_repeat seen (f # fs) = (if f \<in> set seen then Some f else first_repeat (f # seen) fs)"

definition ValidateWrite :: "(AliasBroadcast \<Rightarrow> string) \<Rightarrow> resolver \<Rightarrow> store \<Rightarrow> int \<Rightarrow> string \<Rightarrow> AliasWriteRequest \<Rightarrow>
    write_error option" where
  "ValidateWrite encode r s now_ms name req =
     (let refs = aw_Target req # aw_Fallbacks req;
          is_alias = (\<lambda>x. case store_peek s x of None \<Rightarrow> False | Some e \<Rightarrow> \<not> ae_Deleted e);
          current = store_peek s name;
          nxt = \<lparr>ab_Name = name, ab_Entry = zero_AliasEntry\<lparr>ae_Target := aw_Target req, ae_Fallbacks := aw_Fallbacks req,
            ae_Ver := ae_Ver (entry_or_zero current) + 1, ae_TS := now_ms, ae_By := st_self s\<rparr>\<rparr>
      in if \<not> ValidAliasName name then Some (BadName name)
         else if is_real r name then Some (NameTaken name)
         else if aw_Target req = '''' then Some NoTarget
         else case List.find is_alias refs of Some x \<Rightarrow> Some (PointsAtAlias x) | None \<Rightarrow>
              case List.find (isPipeline r) refs of Some x \<Rightarrow> Some (PointsAtPipeline x) | None \<Rightarrow>
              case (if aw_Force req then None else List.find (\<lambda>x. \<not> Exists (rv_served r) x) refs) of
                Some x \<Rightarrow> Some (NotServed x) | None \<Rightarrow>
              case first_repeat [aw_Target req] (aw_Fallbacks req) of Some f \<Rightarrow> Some (ListedTwice f) | None \<Rightarrow>
              if (current = None \<or> ae_Deleted (entry_or_zero current)) \<and> Live s \<ge> MaxAliases then Some TableFull
              else if length (encode nxt) > maxBroadcastBytes then Some (TooLarge name (length (encode nxt)))
              else None)"

section \<open>The service\<close>

datatype alias_event =
    AliasChanged string string string string
  | AliasConflicted alias_conflict

record conflict_key =
  ck_name :: string
  ck_winnerTS :: int
  ck_winnerBy :: string
  ck_loserTS :: int
  ck_loserBy :: string

definition maxConflictKeys :: nat where "maxConflictKeys = 256"

record service =
  sc_store :: store
  sc_badMsgLogged :: bool
  sc_tooLarge :: "string list"
  sc_conflicts :: "conflict_key list"
  sc_shadowed :: "string list"
  sc_sent :: "(string \<times> string) list"
  sc_events :: "alias_event list"

type_synonym codec = "AliasBroadcast \<Rightarrow> string"

definition publish :: "codec \<Rightarrow> string \<Rightarrow> AliasEntry option \<Rightarrow> AliasEntry \<Rightarrow> service \<Rightarrow> AliasBroadcast \<times> service" where
  "publish encode name old e sc =
     (let b = \<lparr>ab_Name = name, ab_Entry = e\<lparr>ae_History := []\<rparr>\<rparr>;
          raw = encode b;
          sc = (if length raw \<le> maxBroadcastBytes then sc\<lparr>sc_sent := sc_sent sc @ [(name, raw)]\<rparr>
                else sc\<lparr>sc_tooLarge := List.insert name (sc_tooLarge sc)\<rparr>);
          frm = (case old of Some oe \<Rightarrow> if \<not> ae_Deleted oe then ae_Target oe else ''(none)'' | None \<Rightarrow> ''(none)'');
          dest = (if ae_Deleted e then ''(deleted)'' else ae_Target e)
      in (b, sc\<lparr>sc_events := sc_events sc @ [AliasChanged name frm dest (ae_By e)]\<rparr>))"

definition republish :: "codec \<Rightarrow> string \<Rightarrow> AliasEntry option \<Rightarrow> service \<Rightarrow> service" where
  "republish encode name old sc =
     (case store_Get (sc_store sc) name of
        None \<Rightarrow> sc
      | Some cur \<Rightarrow>
          if (case old of Some oe \<Rightarrow> ae_Ver cur = ae_Ver oe \<and> ae_TS cur = ae_TS oe \<and> ae_By cur = ae_By oe | None \<Rightarrow> False) then sc
          else snd (publish encode name old cur sc))"

definition emitConflict :: "alias_conflict \<Rightarrow> service \<Rightarrow> service" where
  "emitConflict c sc =
     (let k = \<lparr>ck_name = cf_Name c, ck_winnerTS = ae_TS (cf_Winner c), ck_winnerBy = ae_By (cf_Winner c),
               ck_loserTS = ae_TS (cf_Loser c), ck_loserBy = ae_By (cf_Loser c)\<rparr>
      in if k \<in> set (sc_conflicts sc) then sc
         else
           let ks = sc_conflicts sc @ [k]; ks = (if length ks > maxConflictKeys then tl ks else ks)
           in sc\<lparr>sc_conflicts := ks, sc_events := sc_events sc @ [AliasConflicted c]\<rparr>)"

definition service_Set :: "marshal \<Rightarrow> codec \<Rightarrow> resolver \<Rightarrow> fault \<Rightarrow> int \<Rightarrow> int \<Rightarrow> string \<Rightarrow> AliasWriteRequest \<Rightarrow> service \<Rightarrow>
    (write_error + AliasBroadcast) \<times> service" where
  "service_Set marshal encode r f now_v now_w name req sc =
     (case ValidateWrite encode r (sc_store sc) now_v name req of
        Some e \<Rightarrow> (Inl e, sc)
      | None \<Rightarrow>
          let old = store_Get (sc_store sc) name in
          case store_Set marshal f now_w name (aw_Target req) (aw_Fallbacks req) (sc_store sc) of
            (Inl err, s) \<Rightarrow> (Inl (StoreFailed err), sc\<lparr>sc_store := s\<rparr>)
          | (Inr e, s) \<Rightarrow>
              (case publish encode name old e (sc\<lparr>sc_store := s\<rparr>) of (b, sc) \<Rightarrow> (Inr b, sc)))"

definition service_Delete :: "marshal \<Rightarrow> codec \<Rightarrow> fault \<Rightarrow> int \<Rightarrow> string \<Rightarrow> service \<Rightarrow> (write_error + AliasBroadcast) \<times> service" where
  "service_Delete marshal encode f now_ms name sc =
     (let old = store_Get (sc_store sc) name in
      case store_Delete marshal f now_ms name (sc_store sc) of
        (Inl err, s) \<Rightarrow> (Inl (if err = ErrNotFound then NotFound name else StoreFailed err), sc\<lparr>sc_store := s\<rparr>)
      | (Inr e, s) \<Rightarrow> (case publish encode name old e (sc\<lparr>sc_store := s\<rparr>) of (b, sc) \<Rightarrow> (Inr b, sc)))"

definition service_Revert :: "marshal \<Rightarrow> codec \<Rightarrow> fault \<Rightarrow> int \<Rightarrow> string \<Rightarrow> service \<Rightarrow> (write_error + AliasBroadcast) \<times> service" where
  "service_Revert marshal encode f now_ms name sc =
     (let old = store_Get (sc_store sc) name in
      case store_Revert marshal f now_ms name (sc_store sc) of
        (Inl err, s) \<Rightarrow>
          (Inl (if err = ErrNotFound then NotFound name else if err = ErrNoHistory then NoPreviousVersion name else StoreFailed err),
           sc\<lparr>sc_store := s\<rparr>)
      | (Inr e, s) \<Rightarrow> (case publish encode name old e (sc\<lparr>sc_store := s\<rparr>) of (b, sc) \<Rightarrow> (Inr b, sc)))"

definition service_purge :: "marshal \<Rightarrow> fault \<Rightarrow> int \<Rightarrow> service \<Rightarrow> service" where
  "service_purge marshal f now_ms sc = sc\<lparr>sc_store := snd (PurgeTombstones marshal f now_ms (sc_store sc))\<rparr>"

definition NotifyMsg :: "marshal \<Rightarrow> codec \<Rightarrow> (string \<Rightarrow> AliasBroadcast option) \<Rightarrow> fault \<Rightarrow> string \<Rightarrow> service \<Rightarrow> service" where
  "NotifyMsg marshal encode decode f msg sc =
     (case decode msg of
        None \<Rightarrow> sc\<lparr>sc_badMsgLogged := True\<rparr>
      | Some b \<Rightarrow>
          let old = store_Get (sc_store sc) (ab_Name b) in
          case Merge marshal f (ab_Name b) (ab_Entry b) (sc_store sc) of
            (Inl _, s) \<Rightarrow> sc\<lparr>sc_store := s\<rparr>
          | (Inr (changed, conflict), s) \<Rightarrow>
              let sc = sc\<lparr>sc_store := s\<rparr>;
                  sc = (case conflict of None \<Rightarrow> sc | Some c \<Rightarrow> emitConflict c sc)
              in if changed then republish encode (ab_Name b) old sc else sc)"

definition LocalState :: "marshal \<Rightarrow> service \<Rightarrow> string" where
  "LocalState marshal sc = marshal (Table (sc_store sc))"

definition MergeRemoteState :: "marshal \<Rightarrow> codec \<Rightarrow> (string \<Rightarrow> AliasTable option) \<Rightarrow> fault \<Rightarrow> string \<Rightarrow> service \<Rightarrow> service" where
  "MergeRemoteState marshal encode unmarshal f buf sc =
     (case unmarshal buf of
        None \<Rightarrow> sc
      | Some t \<Rightarrow>
          let before = Table (sc_store sc) in
          case MergeTable marshal f t (sc_store sc) of
            (Inl _, s) \<Rightarrow> sc\<lparr>sc_store := s\<rparr>
          | (Inr (changed, conflicts), s) \<Rightarrow>
              fold (\<lambda>name. republish encode name (map_of (at_Aliases before) name)) changed
                (fold emitConflict conflicts (sc\<lparr>sc_store := s\<rparr>)))"

section \<open>The interface\<close>

definition maxWriteBody :: nat where "maxWriteBody = 64 * 1024"

text \<open>The nonces are those of a secured mesh; an open mesh, with no primary signer, never consults them.\<close>

record authorizer =
  az_primary :: "signer option"
  az_previous :: "signer option"
  az_nonces :: nonce_cache

definition NewAuthorizer :: "string \<Rightarrow> string option \<Rightarrow> string option \<Rightarrow> signer_error + authorizer" where
  "NewAuthorizer self primary previous =
     (let a = \<lparr>az_primary = None, az_previous = None, az_nonces = NewNonceCache (2 * SkewWindow)\<rparr>
      in case primary of
           None \<Rightarrow> Inr a
         | Some p \<Rightarrow>
             (case NewSigner p self of
                Inl e \<Rightarrow> Inl e
              | Inr sp \<Rightarrow>
                  (case previous of
                     None \<Rightarrow> Inr (a\<lparr>az_primary := Some sp\<rparr>)
                   | Some q \<Rightarrow>
                       (case NewSigner q self of
                          Inl e \<Rightarrow> Inl e
                        | Inr sq \<Rightarrow> Inr (a\<lparr>az_primary := Some sp, az_previous := Some sq\<rparr>)))))"

text \<open>\<open>isLoopback\<close> is \<open>netip.ParseAddr\<close> succeeding with a loopback address.\<close>

definition loopbackHost :: "(string \<Rightarrow> bool) \<Rightarrow> string \<Rightarrow> bool" where
  "loopbackHost isLoopback hostport =
     (let host = host_part hostport;
          bracket = (\<lambda>c. c = CHR ''['' \<or> c = CHR '']'')
      in host = ''localhost'' \<or> isLoopback (rev (dropWhile bracket (rev (dropWhile bracket host)))))"

definition Authorize :: "crypto \<Rightarrow> (string \<Rightarrow> bool) \<Rightarrow> gotime \<Rightarrow> http_request \<Rightarrow> string \<Rightarrow> authorizer \<Rightarrow> int option \<times> authorizer" where
  "Authorize k isLoopback now r body a =
     (case az_primary a of
        Some s \<Rightarrow>
          (case verify_either k s (az_previous a) now r body of
             Inl _ \<Rightarrow> (Some 401, a)
           | Inr (nonce, _) \<Rightarrow>
               (case nonce_Use now nonce (az_nonces a) of
                  (fresh, nc) \<Rightarrow> (if fresh then None else Some 401, a\<lparr>az_nonces := nc\<rparr>)))
      | None \<Rightarrow>
          if rq_Origin r \<noteq> '''' \<or> \<not> loopbackHost isLoopback (rq_Host r) then (Some 403, a)
          else if loopbackHost isLoopback (rq_RemoteAddr r) then (None, a)
          else (Some 403, a))"

text \<open>The bytes of a request body, or a read that fails before the limit.\<close>

datatype request_body = Body string | BodyFailed

datatype response = Listed "AliasInfo list" | WholeTable AliasTable | Written AliasBroadcast | Refused int | NotFoundPage

text \<open>The world one request of the interface meets.\<close>

record api_world =
  w_marshal :: marshal
  w_encode :: codec
  w_decode :: "string \<Rightarrow> AliasWriteRequest option"
  w_crypto :: crypto
  w_loopback :: "string \<Rightarrow> bool"
  w_resolver :: resolver
  w_fault :: fault
  w_now :: gotime
  w_now_v :: int
  w_now_w :: int

text \<open>\<open>url.PathUnescape\<close>: a percent sign must introduce two hexadecimal digits.\<close>

definition unhex :: "char \<Rightarrow> nat option" where
  "unhex c =
     (let n = of_char c :: nat
      in if 48 \<le> n \<and> n \<le> 57 then Some (n - 48)
         else if 65 \<le> n \<and> n \<le> 70 then Some (n - 55)
         else if 97 \<le> n \<and> n \<le> 102 then Some (n - 87)
         else None)"

fun PathUnescape :: "string \<Rightarrow> string option" where
  "PathUnescape [] = Some []"
| "PathUnescape (c # cs) =
     (if c = CHR ''%'' then
        case cs of
          h # l # rest \<Rightarrow>
            (case (unhex h, unhex l) of
               (Some a, Some b) \<Rightarrow> map_option ((#) (char_of (16 * a + b))) (PathUnescape rest)
             | _ \<Rightarrow> None)
        | _ \<Rightarrow> None
      else map_option ((#) c) (PathUnescape cs))"

datatype api_op = WriteSet | WriteDelete | WriteRevert

definition PathAliases :: string where "PathAliases = ''/v1/aliases''"

definition AliasRevertSuffix :: string where "AliasRevertSuffix = ''/revert''"

text \<open>Which write a method and path name: \<open>Inl\<close> the status of a refusal.\<close>

definition api_route :: "string \<Rightarrow> string \<Rightarrow> int + string \<times> api_op" where
  "api_route meth path =
     (if \<not> has_prefix (PathAliases @ ''/'') path then Inl 404
      else
        let segments = split (CHR ''/'') (trim_prefix (PathAliases @ ''/'') path);
            revert = (length segments = 2 \<and> CHR ''/'' # segments ! 1 = AliasRevertSuffix)
        in case PathUnescape (segments ! 0) of
             None \<Rightarrow> Inl 404
           | Some name \<Rightarrow>
               if segments ! 0 = '''' then Inl 404
               else if length segments = 1 \<and> meth = ''PUT'' then Inr (name, WriteSet)
               else if length segments = 1 \<and> meth = ''DELETE'' then Inr (name, WriteDelete)
               else if revert \<and> meth = ''POST'' then Inr (name, WriteRevert)
               else if length segments = 1 \<or> revert then Inl 405
               else Inl 404)"

definition api_write :: "api_world \<Rightarrow> api_op \<Rightarrow> string \<Rightarrow> string \<Rightarrow> service \<Rightarrow> (write_error + AliasBroadcast) \<times> service" where
  "api_write w op name body sc =
     (case op of
        WriteSet \<Rightarrow>
          (case w_decode w body of
             None \<Rightarrow> (Inl BadRequest, sc)
           | Some req \<Rightarrow> service_Set (w_marshal w) (w_encode w) (w_resolver w) (w_fault w) (w_now_v w) (w_now_w w) name req sc)
      | WriteDelete \<Rightarrow> service_Delete (w_marshal w) (w_encode w) (w_fault w) (w_now_w w) name sc
      | WriteRevert \<Rightarrow> service_Revert (w_marshal w) (w_encode w) (w_fault w) (w_now_w w) name sc)"

definition error_status :: "write_error \<Rightarrow> int" where
  "error_status e = (case e of BadRequest \<Rightarrow> 400 | NotFound _ \<Rightarrow> 404 | StoreFailed _ \<Rightarrow> 500 | _ \<Rightarrow> 409)"

definition ServeHTTP :: "api_world \<Rightarrow> http_request \<Rightarrow> string \<Rightarrow> bool \<Rightarrow> request_body \<Rightarrow> authorizer \<Rightarrow> service \<Rightarrow>
    response \<times> authorizer \<times> service" where
  "ServeHTTP w r path table body_in a sc =
     (if path = PathAliases then
        if rq_Method r \<noteq> ''GET'' then (Refused 405, a, sc)
        else if table then (WholeTable (Table (sc_store sc)), a, sc)
        else (case Info (w_resolver w) (sc_store sc) (sc_shadowed sc) of
                (infos, shadowed) \<Rightarrow> (Listed infos, a, sc\<lparr>sc_shadowed := shadowed\<rparr>))
      else
        case api_route (rq_Method r) path of
          Inl status \<Rightarrow> (if status = 404 then NotFoundPage else Refused status, a, sc)
        | Inr (name, op) \<Rightarrow>
            (case body_in of
               BodyFailed \<Rightarrow> (Refused 400, a, sc)
             | Body body \<Rightarrow>
                 if length body > maxWriteBody then (Refused 413, a, sc)
                 else
                 (case Authorize (w_crypto w) (w_loopback w) (w_now w) r body a of
                    (Some status, a) \<Rightarrow> (Refused status, a, sc)
                  | (None, a) \<Rightarrow>
                      (case api_write w op name body sc of
                         (Inl e, sc) \<Rightarrow> (Refused (error_status e), a, sc)
                       | (Inr b, sc) \<Rightarrow> (Written b, a, sc)))))"

section \<open>Who may write\<close>

lemma verify_either_signed:
  assumes "verify_either k s previous now r body = Inr (nonce, node)"
  shows "nonce = rq_Nonce r \<and> node = rq_Node r \<and> checkSkew now (rq_Ts r) \<and>
    (\<exists>key\<in>insert s (set_option previous). rq_Auth r =
       mac k key (canonicalRequest (rq_Method r) (rq_URI r) (rq_Ts r) (rq_Nonce r) (rq_Node r) (bodyDigest k body)))"
  using assms by (auto simp: verify_either_def VerifyRequest_def Let_def split: sum.splits if_splits option.splits)

lemma nonce_use_fresh:
  "nonce_Use now nonce c = (True, c') \<Longrightarrow> (nonce, t) \<in> set (nc_seen c) \<Longrightarrow> tsub now t > nc_ttl c"
  by (force simp: nonce_Use_def Let_def map_of_eq_None_iff split: if_splits)

text \<open>The evidence a write must show.\<close>

definition may_write :: "api_world \<Rightarrow> http_request \<Rightarrow> string \<Rightarrow> authorizer \<Rightarrow> bool" where
  "may_write w r body a \<longleftrightarrow>
     (case az_primary a of
        Some s \<Rightarrow>
          checkSkew (w_now w) (rq_Ts r) \<and>
          (\<exists>key\<in>insert s (set_option (az_previous a)). rq_Auth r =
             mac (w_crypto w) key (canonicalRequest (rq_Method r) (rq_URI r) (rq_Ts r) (rq_Nonce r) (rq_Node r)
               (bodyDigest (w_crypto w) body))) \<and>
          (\<forall>t. (rq_Nonce r, t) \<in> set (nc_seen (az_nonces a)) \<longrightarrow> tsub (w_now w) t > nc_ttl (az_nonces a))
      | None \<Rightarrow> rq_Origin r = '''' \<and> loopbackHost (w_loopback w) (rq_Host r) \<and> loopbackHost (w_loopback w) (rq_RemoteAddr r))"

lemma authorize_may_write:
  assumes "Authorize (w_crypto w) (w_loopback w) (w_now w) r body a = (None, a')"
  shows "may_write w r body a"
proof (cases "az_primary a")
  case None
  then show ?thesis using assms by (auto simp: Authorize_def may_write_def split: if_splits)
next
  case (Some s)
  then obtain nonce node nc where v: "verify_either (w_crypto w) s (az_previous a) (w_now w) r body = Inr (nonce, node)"
    and u: "nonce_Use (w_now w) nonce (az_nonces a) = (True, nc)"
    using assms by (auto simp: Authorize_def split: sum.splits prod.splits if_splits)
  show ?thesis using verify_either_signed [OF v] nonce_use_fresh [OF u] Some unfolding may_write_def by auto
qed

lemma served_write:
  assumes "ServeHTTP w r path table b a sc = (resp, a', sc')"
    and "(sc_store sc', sc_sent sc', sc_events sc') \<noteq> (sc_store sc, sc_sent sc, sc_events sc)"
  obtains body name op a'' where "b = Body body" "length body \<le> maxWriteBody" "api_route (rq_Method r) path = Inr (name, op)"
    "Authorize (w_crypto w) (w_loopback w) (w_now w) r body a = (None, a'')" "snd (api_write w op name body sc) = sc'"
proof -
  have p: "path \<noteq> PathAliases"
    using assms by (auto simp: ServeHTTP_def split: if_splits prod.splits)
  obtain name op where route: "api_route (rq_Method r) path = Inr (name, op)"
    using assms p by (cases "api_route (rq_Method r) path") (auto simp: ServeHTTP_def)
  obtain body where b: "b = Body body" "length body \<le> maxWriteBody"
    using assms p route by (cases b) (auto simp: ServeHTTP_def split: if_splits)
  obtain st a'' where auth: "Authorize (w_crypto w) (w_loopback w) (w_now w) r body a = (st, a'')" by (metis prod.collapse)
  have "st = None" using assms p route b auth by (auto simp: ServeHTTP_def split: option.splits)
  moreover from this have "snd (api_write w op name body sc) = sc'"
    using assms(1) p route b auth by (auto simp: ServeHTTP_def split: prod.splits sum.splits)
  ultimately show ?thesis using b route auth by (metis that)
qed

lemma commit_frame:
  assumes "commitLocked marshal f name e s = (res, s')" and "n \<noteq> name"
  shows "table_map s' n = table_map s n"
  using assms by (auto simp: commitLocked_def Let_def split: prod.splits bool.splits dest!: persist_map)

lemma local_write_frame:
  assumes "n \<noteq> name"
  shows "table_map (snd (store_Set marshal f now_ms name target fallbacks s)) n = table_map s n"
    and "table_map (snd (store_Delete marshal f now_ms name s)) n = table_map s n"
    and "table_map (snd (store_Revert marshal f now_ms name s)) n = table_map s n"
  using commit_frame [OF _ assms]
  by (auto simp: store_Set_def store_Delete_def store_Revert_def Let_def split: sum.splits option.splits list.splits intro: commit_frame [OF _ assms])
    (metis prod.collapse)+

lemma publish_store [simp]: "sc_store (snd (publish encode name old e sc)) = sc_store sc"
  by (simp add: publish_def Let_def)

lemma publish_sent:
  "sc_sent (snd (publish encode name old e sc)) = sc_sent sc @
     (if length (encode (fst (publish encode name old e sc))) \<le> maxBroadcastBytes
      then [(name, encode (fst (publish encode name old e sc)))] else [])"
  by (simp add: publish_def Let_def)

lemma publish_result: "fst (publish encode name old e sc) = \<lparr>ab_Name = name, ab_Entry = current e\<rparr>"
  by (simp add: publish_def Let_def current_def)

lemma api_write_frame:
  assumes "n \<noteq> name"
  shows "table_map (sc_store (snd (api_write w op name body sc))) n = table_map (sc_store sc) n"
  unfolding api_write_def service_Set_def service_Delete_def service_Revert_def Let_def prod.case_eq_if
  by (cases op) (simp_all add: local_write_frame [OF assms] split: option.splits sum.splits)

lemma route_method: "api_route meth path = Inr (name, op) \<Longrightarrow>
   (meth, op) \<in> {(''PUT'', WriteSet), (''DELETE'', WriteDelete), (''POST'', WriteRevert)}"
  by (auto simp: api_route_def Let_def split: if_splits option.splits)

text \<open>C8. Only an authorised request changes an alias. When serving a request changes the table, gossips something or records an event, the
  request was a write whose body was within the limit and showed its evidence: in a secured mesh a time stamp within the skew window,
  a MAC over this very method, path and body under the mesh secret or the previous one, and a nonce not used within the
  time nonces are kept; in an open mesh, that it comes from a program on this machine. And it changes the alias it names only.\<close>

theorem alias_write_needs_authority:
  assumes "ServeHTTP w r path table b a sc = (resp, a', sc')"
    and "(sc_store sc', sc_sent sc', sc_events sc') \<noteq> (sc_store sc, sc_sent sc, sc_events sc)"
  shows "\<exists>body name op. b = Body body \<and> length body \<le> maxWriteBody \<and> may_write w r body a \<and>
    api_route (rq_Method r) path = Inr (name, op) \<and> rq_Method r \<noteq> ''GET'' \<and>
    (\<forall>n. n \<noteq> name \<longrightarrow> store_Get (sc_store sc') n = store_Get (sc_store sc) n)"
proof -
  obtain body name op a'' where s: "b = Body body" "length body \<le> maxWriteBody" "api_route (rq_Method r) path = Inr (name, op)"
    "Authorize (w_crypto w) (w_loopback w) (w_now w) r body a = (None, a'')" "snd (api_write w op name body sc) = sc'"
    using served_write [OF assms] by metis
  have get: "store_Get s n = table_map s n" for s n by (simp add: store_Get_def table_map_def)
  show ?thesis
    using s authorize_may_write [OF s(4)] route_method [OF s(3)] api_write_frame [of _ name w op body sc] unfolding get by auto
qed

section \<open>A write and its reach\<close>

lemma pick_first: "resolver_pick r e = List.find (Served (rv_served r)) (ae_Target e # ae_Fallbacks e)"
  by (simp add: resolver_pick_def)

text \<open>What requests for an alias become, of the models its entry lists in order.\<close>

definition resolution :: "resolver \<Rightarrow> string \<Rightarrow> string \<Rightarrow> string list \<Rightarrow> resolve_error + string \<times> string" where
  "resolution r name target fallbacks =
     (if is_real r name then Inr (name, '''')
      else case List.find (Served (rv_served r)) (target # fallbacks) of
        Some m \<Rightarrow> Inr (m, name)
      | None \<Rightarrow> Inl \<lparr>re_Status = 503, re_Alias = name, re_Target = target, re_RetryAfter = 5\<rparr>)"

lemma resolve_live:
  assumes "table_map s name = Some e" and "\<not> ae_Deleted e"
  shows "fst (Resolve r s name shadowed) = resolution r name (ae_Target e) (ae_Fallbacks e)"
  using assms unfolding Resolve_def resolution_def pick_first checkShadowed_def store_peek_map by (auto split: option.splits)

lemma set_result:
  assumes "service_Set marshal encode r f now_v now_w name req sc = (Inr b, sc')"
  obtains e where "table_map (sc_store sc') name = Some e" "b = \<lparr>ab_Name = name, ab_Entry = current e\<rparr>" "\<not> ae_Deleted e"
    "ae_Target e = aw_Target req" "ae_Fallbacks e = aw_Fallbacks req" "ValidAliasName name" "aw_Target req \<noteq> ''''"
    "ae_Ver e \<le> MaxAliasVer" "now_v = now_w \<Longrightarrow> length (encode b) \<le> maxBroadcastBytes"
    "sc_sent sc' = sc_sent sc @ (if length (encode b) \<le> maxBroadcastBytes then [(name, encode b)] else [])"
proof -
  let ?s = "sc_store sc"
  have v: "ValidateWrite encode r ?s now_v name req = None"
    using assms by (auto simp: service_Set_def split: option.splits)
  then obtain e s1 where set: "store_Set marshal f now_w name (aw_Target req) (aw_Fallbacks req) ?s = (Inr e, s1)"
    and pub: "publish encode name (store_Get ?s name) e (sc\<lparr>sc_store := s1\<rparr>) = (b, sc')"
    using assms by (auto simp: service_Set_def Let_def split: prod.splits sum.splits)
  obtain v where nv: "nextVersion (st_self ?s) now_w (entry_or_zero (table_map ?s name)) = Inr v"
    and c: "commitLocked marshal f name (v\<lparr>ae_Target := aw_Target req, ae_Fallbacks := aw_Fallbacks req,
      ae_History := historyAfter (table_map ?s name) (ae_History (entry_or_zero (table_map ?s name)))\<rparr>) ?s = (Inr e, s1)"
    and name: "ValidAliasName name"
    using set by (auto simp: store_Set_def Let_def split: if_splits sum.splits)
  have e: "e = v\<lparr>ae_Target := aw_Target req, ae_Fallbacks := aw_Fallbacks req,
      ae_History := historyAfter (table_map ?s name) (ae_History (entry_or_zero (table_map ?s name)))\<rparr>"
    and t: "table_map s1 name = Some e"
    using c by (auto simp: commitLocked_def Let_def split: prod.splits bool.splits dest: persist_map)
  let ?p = "publish encode name (store_Get ?s name) e (sc\<lparr>sc_store := s1\<rparr>)"
  have p: "b = fst ?p" "sc' = snd ?p" using pub by simp_all
  have b: "b = \<lparr>ab_Name = name, ab_Entry = current e\<rparr>" unfolding p publish_result ..
  have s1: "sc_store sc' = s1" unfolding p by simp
  have sent: "sc_sent sc' = sc_sent sc @ (if length (encode b) \<le> maxBroadcastBytes then [(name, encode b)] else [])"
    unfolding p publish_sent by simp
  have fits: "length (encode b) \<le> maxBroadcastBytes" if "now_v = now_w"
  proof -
    have "current e = zero_AliasEntry\<lparr>ae_Target := aw_Target req, ae_Fallbacks := aw_Fallbacks req,
        ae_Ver := ae_Ver (entry_or_zero (table_map ?s name)) + 1, ae_TS := now_v, ae_By := st_self ?s\<rparr>"
      using nv that by (auto simp: e nextVersion_def current_def zero_AliasEntry_def split: if_splits)
    then show ?thesis
      using v unfolding b by (auto simp: ValidateWrite_def Let_def not_less split: if_splits option.splits)
  qed
  have "aw_Target req \<noteq> ''''" using v by (auto simp: ValidateWrite_def Let_def split: if_splits)
  then show ?thesis using that [of e] t b s1 sent fits name next_version [OF nv] by (simp add: e)
qed

lemma current_fields:
  "CompareAliasEntries (current e) old = CompareAliasEntries e old" "ae_Deleted (current e) = ae_Deleted e"
  "ae_Target (current e) = ae_Target e" "ae_Fallbacks (current e) = ae_Fallbacks e"
  by (simp_all add: current_def CompareAliasEntries_def)

lemma notify_merges:
  assumes "decode msg = Some b" and "ab_Entry b = current e" and "ValidAliasName (ab_Name b)" and "acceptRemote e"
    and "\<forall>old. store_Get (sc_store rc) (ab_Name b) = Some old \<longrightarrow> CompareAliasEntries e old > 0"
  obtains e' where "table_map (sc_store (NotifyMsg marshal encode decode None msg rc)) (ab_Name b) = Some e'" "current e' = current e"
    "sc_sent (NotifyMsg marshal encode decode None msg rc) = sc_sent rc @
      (if length (encode b) \<le> maxBroadcastBytes then [(ab_Name b, encode b)] else [])"
proof -
  let ?n = "ab_Name b" and ?s = "sc_store rc"
  have acc: "acceptRemote (current e)" using assms(4) by (simp add: acceptRemote_def current_def)
  have cap: "(current e)\<lparr>ae_History := capHistory (ae_History (current e))\<rparr> = current e"
    by (simp add: current_def capHistory_def)
  have idem: "current (current e) = current e" by (simp add: current_def)
  have "\<exists>conflict u s1 e'. mergeLocked ?n (current e) ?s = ((True, conflict, u), s1) \<and>
    table_map s1 ?n = Some e' \<and> current e' = current e"
  proof (cases "table_map ?s ?n")
    case None
    then show ?thesis using acc cap idem by (simp add: mergeLocked_def Let_def)
  next
    case (Some old)
    then have "CompareAliasEntries (current e) old > 0"
      using assms(5) by (simp add: current_fields store_Get_def table_map_def)
    then show ?thesis using Some acc cap idem by (simp add: mergeLocked_def Let_def)
  qed
  then obtain conflict u s1 e' where m: "mergeLocked ?n (current e) ?s = ((True, conflict, u), s1)"
    and e': "table_map s1 ?n = Some e'" "current e' = current e" by blast
  obtain s2 where p: "persistLocked marshal None s1 = (True, s2)" "table_map s2 = table_map s1" using persist_ok by blast
  have merge: "Merge marshal None ?n (ab_Entry b) ?s = (Inr (True, conflict), s2)"
    using assms(2,3) m p(1) by (simp add: Merge_def)
  let ?rc = "case conflict of None \<Rightarrow> rc\<lparr>sc_store := s2\<rparr> | Some c \<Rightarrow> emitConflict c (rc\<lparr>sc_store := s2\<rparr>)"
  have rc: "sc_store ?rc = s2" "sc_sent ?rc = sc_sent rc"
    by (simp_all add: emitConflict_def Let_def split: option.split)
  have get: "store_Get s2 ?n = Some e'" using e' p(2) by (simp add: store_Get_def table_map_def)
  have new: "\<not> (ae_Ver e' = ae_Ver old \<and> ae_TS e' = ae_TS old \<and> ae_By e' = ae_By old)" if "store_Get ?s ?n = Some old" for old
  proof -
    have "version_key e' = version_key e" using current_key [OF e'(2)] .
    then show ?thesis using assms(5) that compare_key(1) [of e old] by (auto simp: version_key_def)
  qed
  have notify: "NotifyMsg marshal encode decode None msg rc = snd (publish encode ?n (store_Get ?s ?n) e' ?rc)"
    using assms(1) merge get new rc(1) by (auto simp: NotifyMsg_def republish_def Let_def split: option.splits)
  have b: "fst (publish encode ?n (store_Get ?s ?n) e' ?rc) = b" using publish_result e'(2) assms(2) by simp
  show ?thesis
  proof (rule that [OF _ e'(2)])
    show "table_map (sc_store (NotifyMsg marshal encode decode None msg rc)) ?n = Some e'"
      unfolding notify publish_store rc(1) using e'(1) p(2) by simp
    show "sc_sent (NotifyMsg marshal encode decode None msg rc) = sc_sent rc @
      (if length (encode b) \<le> maxBroadcastBytes then [(?n, encode b)] else [])"
      unfolding notify publish_sent b rc(2) by simp
  qed
qed


text \<open>A node that serves the model \<open>m\<close>, reached from its own machine.\<close>

definition sample_world :: api_world where
  "sample_world = \<lparr>w_marshal = (\<lambda>_. ''''), w_encode = (\<lambda>b. ab_Name b), w_decode = (\<lambda>_. Some \<lparr>aw_Target = ''m'', aw_Fallbacks = [], aw_Force = False\<rparr>),
     w_crypto = sample_crypto, w_loopback = (\<lambda>h. h = ''127.0.0.1''),
     w_resolver = \<lparr>rv_served = \<lparr>sv_self = ''gb1'', sv_local = [zero_ModelCapacity\<lparr>mc_Name := ''m'', mc_HealthyBackends := 1\<rparr>],
       sv_reports = [], sv_staleAfter = second, sv_now = 0\<rparr>, rv_pipelines = []\<rparr>,
     w_fault = None, w_now = 0, w_now_v = 7, w_now_w = 7\<rparr>"

definition sample_service :: "string \<Rightarrow> service" where
  "sample_service self = \<lparr>sc_store = sample_store self, sc_badMsgLogged = False, sc_tooLarge = [], sc_conflicts = [], sc_shadowed = [],
     sc_sent = [], sc_events = []\<rparr>"

definition sample_put :: http_request where
  "sample_put = sample_forward\<lparr>rq_Method := ''PUT'', rq_Host := ''localhost:8080'', rq_RemoteAddr := ''127.0.0.1:5000'', rq_Origin := ''''\<rparr>"

definition sample_open :: authorizer where
  "sample_open = \<lparr>az_primary = None, az_previous = None, az_nonces = NewNonceCache (2 * SkewWindow)\<rparr>"

definition sample_written :: "response \<times> authorizer \<times> service" where
  "sample_written = ServeHTTP sample_world sample_put ''/v1/aliases/coder'' False (Body ''{}'') sample_open (sample_service ''gb1'')"

lemmas service_eval = sample_world_def sample_service_def ValidateWrite_def is_real_def isPipeline_def Exists_def Live_def
  service_Set_def publish_def maxBroadcastBytes_def zero_ModelCapacity_def

lemma sample_route: "api_route ''PUT'' ''/v1/aliases/coder'' = Inr (''coder'', WriteSet)"
  by (simp add: api_route_def PathAliases_def has_prefix_def trim_prefix_def)

lemma sample_authorised: "Authorize sample_crypto (\<lambda>h. h = ''127.0.0.1'') 0 sample_put body sample_open = (None, sample_open)"
  by (simp add: Authorize_def sample_open_def sample_put_def sample_forward_def loopbackHost_def host_part_def split_host_def Let_def)

lemma sample_written_sent: "sc_sent (snd (snd sample_written)) = [(''coder'', ''coder'')]"
  using sample_route sample_authorised
  by (simp add: sample_written_def ServeHTTP_def PathAliases_def maxWriteBody_def api_write_def service_eval store_eval
      sample_put_def)

theorem alias_write_needs_authority_witness:
  "sc_sent (snd (snd sample_written)) \<noteq> sc_sent (sample_service ''gb1'') \<and>
   (\<exists>body. may_write sample_world sample_put body sample_open)"
proof -
  obtain resp a' sc' where s: "ServeHTTP sample_world sample_put ''/v1/aliases/coder'' False (Body ''{}'') sample_open (sample_service ''gb1'') =
    (resp, a', sc')" by (metis prod.collapse)
  have "sc_sent sc' = [(''coder'', ''coder'')]" using sample_written_sent unfolding sample_written_def s by simp
  then have c: "sc_sent sc' \<noteq> sc_sent (sample_service ''gb1'')" by (simp add: sample_service_def)
  then show ?thesis using alias_write_needs_authority [OF s] unfolding sample_written_def s by auto
qed

definition sample_set :: "string \<Rightarrow> string \<Rightarrow> bool \<Rightarrow> service \<Rightarrow> (write_error + AliasBroadcast) \<times> service" where
  "sample_set name target force sc =
     service_Set (\<lambda>_. '''') ab_Name (w_resolver sample_world) None 7 7 name \<lparr>aw_Target = target, aw_Fallbacks = [], aw_Force = force\<rparr> sc"

lemma sample_set_ok: "\<exists>b sc. sample_set ''coder'' ''m'' False (sample_service ''gb1'') = (Inr b, sc) \<and> ab_Name b = ''coder''"
  by (simp add: sample_set_def service_eval store_eval)


text \<open>The check that no reference is an alias looks in one direction only. A target that no node serves yet may be named with \<open>force\<close>, and the name may then
  be made an alias itself: the first alias points at an alias, and no request for it is ever served.\<close>

lemma alias_chain_possible:
  "\<exists>b1 sc1 b2 sc2 e. sample_set ''coder'' ''big'' True (sample_service ''gb1'') = (Inr b1, sc1) \<and>
     sample_set ''big'' ''m'' False sc1 = (Inr b2, sc2) \<and>
     store_Get (sc_store sc2) ''coder'' = Some e \<and> ae_Target e = ''big'' \<and>
     fst (Resolve (w_resolver sample_world) (sc_store sc2) ''big'' []) = Inr (''m'', ''big'') \<and>
     fst (Resolve (w_resolver sample_world) (sc_store sc2) ''coder'' []) =
       Inl \<lparr>re_Status = 503, re_Alias = ''coder'', re_Target = ''big'', re_RetryAfter = 5\<rparr>"
  by (simp add: sample_set_def service_eval store_eval Resolve_def checkShadowed_def resolver_pick_def Served_def)

end
