(* ===== verification/Versions.thy ===== *)
theory Versions
  imports GoText "HOL-Library.Product_Lexorder"
begin

text \<open>
  Release versions (\<open>internal/update/version.go\<close> and the version rule of \<open>internal/release\<close>): what names a release, how a version is
  read, and how two versions compare. The regular expressions are written out as functions on characters. A comparison is shown to be a
  comparison of keys in a linear order, SemVer's.
\<close>

section \<open>Definitions\<close>

definition Builtin :: string where "Builtin = ''builtin''"

definition letter_or_digit :: "char \<Rightarrow> bool" where
  "letter_or_digit c \<longleftrightarrow> is_digit c \<or> (65 \<le> (of_char c :: nat) \<and> (of_char c :: nat) \<le> 90) \<or> (97 \<le> (of_char c :: nat) \<and> (of_char c :: nat) \<le> 122)"

definition lower_hex :: "char \<Rightarrow> bool" where
  "lower_hex c \<longleftrightarrow> is_digit c \<or> (97 \<le> (of_char c :: nat) \<and> (of_char c :: nat) \<le> 102)"

text \<open>The groups of \<open>^v([0-9]+)\.([0-9]+)\.([0-9]+)(?:-(C+))?$\<close> for a class C of characters; the last is empty without a suffix.\<close>

definition version_groups :: "string \<Rightarrow> (string \<times> string \<times> string \<times> string) option" where
  "version_groups v =
     (let s0 = tl v;
          a = takeWhile is_digit s0; s1 = dropWhile is_digit s0;
          b = takeWhile is_digit (tl s1); s2 = dropWhile is_digit (tl s1);
          d = takeWhile is_digit (tl s2); s3 = dropWhile is_digit (tl s2)
      in if take 1 v = ''v'' \<and> a \<noteq> [] \<and> take 1 s1 = ''.'' \<and> b \<noteq> [] \<and> take 1 s2 = ''.'' \<and> d \<noteq> []
         then Some (a, b, d, s3) else None)"

definition match_version :: "(char \<Rightarrow> bool) \<Rightarrow> string \<Rightarrow> (string \<times> string \<times> string \<times> string) option" where
  "match_version suffix_char v =
     (case version_groups v of
        None \<Rightarrow> None
      | Some (a, b, d, s3) \<Rightarrow>
          if s3 = [] \<or> (take 1 s3 = ''-'' \<and> tl s3 \<noteq> [] \<and> list_all suffix_char (tl s3))
          then Some (a, b, d, tl s3) else None)"

definition ValidVersion :: "string \<Rightarrow> bool" where
  "ValidVersion v \<longleftrightarrow> match_version (\<lambda>c. letter_or_digit c \<or> c = CHR ''.'') v \<noteq> None"

definition versionRe :: "string \<Rightarrow> (string \<times> string \<times> string \<times> string) option" where
  "versionRe v = match_version (\<lambda>c. letter_or_digit c \<or> c = CHR ''.'' \<or> c = CHR ''-'') v"

text \<open>Removing the leftmost match of \<open>(^|-)(g[0-9a-f]{7,40}(-dirty)?|dirty)$\<close>.\<close>

definition private_core :: "string \<Rightarrow> bool" where
  "private_core t \<longleftrightarrow>
     t = ''dirty'' \<or>
     (let h = takeWhile lower_hex (tl t); rest = dropWhile lower_hex (tl t)
      in take 1 t = ''g'' \<and> 7 \<le> length h \<and> length h \<le> 40 \<and> (rest = [] \<or> rest = ''-dirty''))"

fun strip_dash :: "string \<Rightarrow> string" where
  "strip_dash [] = []"
| "strip_dash (c # cs) = (if c = CHR ''-'' \<and> private_core cs then [] else c # strip_dash cs)"

definition privateSuffix :: "string \<Rightarrow> string" where
  "privateSuffix s = (if private_core s then [] else strip_dash s)"

record parsed =
  p_n0 :: int
  p_n1 :: int
  p_n2 :: int
  p_pre :: "string list option"

definition parse :: "string \<Rightarrow> parsed option" where
  "parse v =
     (case versionRe v of
        None \<Rightarrow> None
      | Some (a, b, d, suffix) \<Rightarrow>
          (case (parse_int a, parse_int b, parse_int d) of
             (Some n0, Some n1, Some n2) \<Rightarrow>
               let pre = privateSuffix suffix
               in Some \<lparr>p_n0 = n0, p_n1 = n1, p_n2 = n2, p_pre = (if pre \<noteq> [] then Some (split (CHR ''.'') pre) else None)\<rparr>
           | _ \<Rightarrow> None))"

text \<open>Go's \<open>int\<close> subtraction wraps at 64 bits; the difference of two lengths cannot.\<close>

definition sub64 :: "int \<Rightarrow> int \<Rightarrow> int" where
  "sub64 a b = (a - b + 2 ^ 63) mod 2 ^ 64 - 2 ^ 63"

definition sign :: "int \<Rightarrow> int" where
  "sign n = (if n < 0 then - 1 else if n > 0 then 1 else 0)"

definition text_compare :: "string \<Rightarrow> string \<Rightarrow> int" where
  "text_compare a b = (if a < b then - 1 else if a > b then 1 else 0)"

definition compareIdent :: "string \<Rightarrow> string \<Rightarrow> int" where
  "compareIdent a b =
     (case (parse_int a, parse_int b) of
        (Some na, Some nb) \<Rightarrow> sign (sub64 na nb)
      | (Some _, None) \<Rightarrow> - 1
      | (None, Some _) \<Rightarrow> 1
      | (None, None) \<Rightarrow> text_compare a b)"

fun compare_idents :: "string list \<Rightarrow> string list \<Rightarrow> int" where
  "compare_idents (a # as) (b # bs) = (let c = compareIdent a b in if c \<noteq> 0 then c else compare_idents as bs)"
| "compare_idents as bs = sign (int (length as) - int (length bs))"

definition Compare :: "string \<Rightarrow> string \<Rightarrow> int option" where
  "Compare a b =
     (case (parse a, parse b) of
        (Some pa, Some pb) \<Rightarrow>
          Some (if p_n0 pa \<noteq> p_n0 pb then sign (sub64 (p_n0 pa) (p_n0 pb))
                else if p_n1 pa \<noteq> p_n1 pb then sign (sub64 (p_n1 pa) (p_n1 pb))
                else if p_n2 pa \<noteq> p_n2 pb then sign (sub64 (p_n2 pa) (p_n2 pb))
                else case (p_pre pa, p_pre pb) of
                  (None, None) \<Rightarrow> 0
                | (None, Some _) \<Rightarrow> 1
                | (Some _, None) \<Rightarrow> - 1
                | (Some as, Some bs) \<Rightarrow> compare_idents as bs)
      | _ \<Rightarrow> None)"

section \<open>The order\<close>

text \<open>The keys of SemVer's order: the three numbers, then a pre-release before its release, then the identifiers from the left, numbers
  by value and before any text.\<close>

definition ident_key :: "string \<Rightarrow> bool \<times> int \<times> string" where
  "ident_key s = (case parse_int s of Some n \<Rightarrow> (False, n, []) | None \<Rightarrow> (True, 0, s))"

definition release_key :: "parsed \<Rightarrow> int \<times> int \<times> int \<times> bool \<times> (bool \<times> int \<times> string) list" where
  "release_key p = (p_n0 p, p_n1 p, p_n2 p, p_pre p = None, (case p_pre p of None \<Rightarrow> [] | Some as \<Rightarrow> map ident_key as))"

definition order_of :: "'a :: linorder \<Rightarrow> 'a \<Rightarrow> int" where
  "order_of x y = (if x < y then - 1 else if y < x then 1 else 0)"

lemma parse_int_range: "parse_int s = Some n \<Longrightarrow> - (2 ^ 63) \<le> n \<and> n < 2 ^ 63"
  by (auto simp: parse_int_def Let_def split: list.splits if_splits)

lemma sub64_small: "- (2 ^ 63) \<le> a - b \<Longrightarrow> a - b < 2 ^ 63 \<Longrightarrow> sub64 a b = a - b"
  by (simp add: sub64_def)

lemma sign_order: "sign (a - b) = order_of a b"
  by (simp add: sign_def order_of_def)

lemma digits_nonneg: "list_all is_digit ds \<Longrightarrow> parse_int ds = Some n \<Longrightarrow> 0 \<le> n"
  by (cases ds) (auto simp: parse_int_def is_digit_def Let_def split: if_splits)

definition plain_ident :: "string \<Rightarrow> bool" where
  "plain_ident s \<longleftrightarrow> take 1 s \<noteq> ''-''"

lemma plain_nonneg: "plain_ident s \<Longrightarrow> parse_int s = Some n \<Longrightarrow> 0 \<le> n"
  by (auto simp: plain_ident_def parse_int_def Let_def split: list.splits if_splits)

lemma sub64_nonneg:
  assumes "parse_int a = Some x" and "parse_int b = Some y" and "0 \<le> x" and "0 \<le> y"
  shows "sign (sub64 x y) = order_of x y"
  using assms parse_int_range [of a x] parse_int_range [of b y] by (simp add: sub64_small sign_order)

lemma order_of_zero: "order_of x y = 0 \<longleftrightarrow> x = y"
  by (auto simp: order_of_def)

lemma order_of_pair: "order_of (a, x) (b, y) = (if a \<noteq> b then order_of a b else order_of x y)"
  by (auto simp: order_of_def less_prod_def')

lemma compareIdent_order: "plain_ident a \<Longrightarrow> plain_ident b \<Longrightarrow> compareIdent a b = order_of (ident_key a) (ident_key b)"
  by (auto simp: compareIdent_def ident_key_def order_of_pair sub64_nonneg plain_nonneg text_compare_def split: option.splits)
    (auto simp: order_of_def)

lemma compare_idents_order:
  "list_all plain_ident as \<Longrightarrow> list_all plain_ident bs \<Longrightarrow>
   compare_idents as bs = order_of (map ident_key as) (map ident_key bs)"
proof (induction as arbitrary: bs)
  case Nil
  then show ?case by (cases bs) (auto simp: order_of_def sign_def)
next
  case (Cons a as)
  show ?case
  proof (cases bs)
    case (Cons b cs)
    then show ?thesis using Cons.prems Cons.IH [of cs] by (auto simp: compareIdent_order order_of_def Let_def)
  qed (auto simp: order_of_def sign_def)
qed

lemma groups_digits:
  "version_groups v = Some (a, b, d, e) \<Longrightarrow> list_all is_digit a \<and> list_all is_digit b \<and> list_all is_digit d"
  by (auto simp: version_groups_def Let_def list_all_iff split: if_splits dest: set_takeWhileD)

lemma match_digits:
  "match_version P v = Some (a, b, d, e) \<Longrightarrow> list_all is_digit a \<and> list_all is_digit b \<and> list_all is_digit d"
  by (auto simp: match_version_def split: option.splits if_splits dest: groups_digits)

lemma parse_numbers:
  assumes "parse v = Some p"
  obtains a b d e where "versionRe v = Some (a, b, d, e)" "parse_int a = Some (p_n0 p)" "parse_int b = Some (p_n1 p)"
    "parse_int d = Some (p_n2 p)" "0 \<le> p_n0 p" "0 \<le> p_n1 p" "0 \<le> p_n2 p"
    "p_pre p = (if privateSuffix e \<noteq> [] then Some (split (CHR ''.'') (privateSuffix e)) else None)"
proof -
  obtain a b d e where "versionRe v = Some (a, b, d, e)" "parse_int a = Some (p_n0 p)" "parse_int b = Some (p_n1 p)"
    "parse_int d = Some (p_n2 p)" "p_pre p = (if privateSuffix e \<noteq> [] then Some (split (CHR ''.'') (privateSuffix e)) else None)"
    using assms by (auto simp: parse_def Let_def split: option.splits)
  moreover from this have "0 \<le> p_n0 p" "0 \<le> p_n1 p" "0 \<le> p_n2 p"
    using match_digits digits_nonneg unfolding versionRe_def by blast+
  ultimately show ?thesis using that by blast
qed

lemma compare_is_order:
  assumes "parse a = Some pa" and "parse b = Some pb"
    and "\<forall>ids. p_pre pa = Some ids \<longrightarrow> list_all plain_ident ids" and "\<forall>ids. p_pre pb = Some ids \<longrightarrow> list_all plain_ident ids"
  shows "Compare a b = Some (order_of (release_key pa) (release_key pb))"
proof -
  obtain a1 a2 a3 ae where a: "parse_int a1 = Some (p_n0 pa)" "parse_int a2 = Some (p_n1 pa)" "parse_int a3 = Some (p_n2 pa)"
    "0 \<le> p_n0 pa" "0 \<le> p_n1 pa" "0 \<le> p_n2 pa" using parse_numbers [OF assms(1)] by metis
  obtain b1 b2 b3 be where b: "parse_int b1 = Some (p_n0 pb)" "parse_int b2 = Some (p_n1 pb)" "parse_int b3 = Some (p_n2 pb)"
    "0 \<le> p_n0 pb" "0 \<le> p_n1 pb" "0 \<le> p_n2 pb" using parse_numbers [OF assms(2)] by metis
  note nums = sub64_nonneg [OF a(1) b(1) a(4) b(4)] sub64_nonneg [OF a(2) b(2) a(5) b(5)] sub64_nonneg [OF a(3) b(3) a(6) b(6)]
  have pre: "(case (p_pre pa, p_pre pb) of (None, None) \<Rightarrow> 0 | (None, Some _) \<Rightarrow> 1 | (Some _, None) \<Rightarrow> - 1
      | (Some as, Some bs) \<Rightarrow> compare_idents as bs) =
    order_of (p_pre pa = None, case p_pre pa of None \<Rightarrow> [] | Some as \<Rightarrow> map ident_key as)
      (p_pre pb = None, case p_pre pb of None \<Rightarrow> [] | Some as \<Rightarrow> map ident_key as)"
    using assms(3,4) by (auto simp: order_of_pair compare_idents_order split: option.splits) (simp_all add: order_of_def)
  show ?thesis
    unfolding Compare_def assms(1,2) release_key_def prod.case option.case nums pre [unfolded prod.case] order_of_pair [of "p_n0 pa" _ "p_n0 pb"]
      order_of_pair [of "p_n1 pa" _ "p_n1 pb"] order_of_pair [of "p_n2 pa" _ "p_n2 pb"]
    by (rule refl)
qed

lemma match_mono:
  assumes "match_version P v = Some (a, b, d, e)"
  shows "list_all P e" and "(\<And>c. P c \<Longrightarrow> Q c) \<Longrightarrow> match_version Q v = Some (a, b, d, e)"
  using assms by (auto simp: match_version_def list_all_iff split: option.splits if_splits)

lemma strip_plain_text: "CHR ''-'' \<notin> set s \<Longrightarrow> set (privateSuffix s) \<subseteq> set s"
proof -
  have "CHR ''-'' \<notin> set s \<Longrightarrow> strip_dash s = s" by (induction s) auto
  then show "CHR ''-'' \<notin> set s \<Longrightarrow> set (privateSuffix s) \<subseteq> set s" by (simp add: privateSuffix_def)
qed

lemma split_subset: "x \<in> set (split sep s) \<Longrightarrow> set x \<subseteq> set s"
  by (induction s arbitrary: x) (fastforce split: list.splits if_splits)+

lemma valid_plain:
  assumes "ValidVersion v" and "parse v = Some p" and "p_pre p = Some ids"
  shows "list_all plain_ident ids"
proof -
  obtain a b d e where m: "match_version (\<lambda>c. letter_or_digit c \<or> c = CHR ''.'') v = Some (a, b, d, e)"
    using assms(1) by (auto simp: ValidVersion_def)
  have re: "versionRe v = Some (a, b, d, e)" unfolding versionRe_def by (rule match_mono(2) [OF m]) auto
  have "CHR ''-'' \<notin> set e"
    using match_mono(1) [OF m] by (auto simp: list_all_iff letter_or_digit_def is_digit_def)
  then have "CHR ''-'' \<notin> set (privateSuffix e)" using strip_plain_text by blast
  moreover obtain e' where "versionRe v = Some (a, b, d, e')" "p_pre p = (if privateSuffix e' \<noteq> [] then Some (split (CHR ''.'') (privateSuffix e')) else None)"
    using parse_numbers [OF assms(2)] re by (metis option.inject prod.inject)
  ultimately have "CHR ''-'' \<notin> set x" if "x \<in> set ids" for x
    using assms(3) re split_subset that by (fastforce split: if_splits)
  moreover have "plain_ident x" if "CHR ''-'' \<notin> set x" for x
    using that by (cases x) (auto simp: plain_ident_def)
  ultimately show ?thesis by (simp add: list_all_iff)
qed

text \<open>C35. Versions are ordered as SemVer orders them. For two release versions that can be read, \<open>Compare\<close> answers and its answer is the order of their keys: the three numbers, then a
  pre-release before its release, then its identifiers from the left, numbers by value and before any text. So it never
  contradicts itself, is transitive, and no subtraction in it wraps.\<close>

theorem version_order_is_semver:
  assumes "ValidVersion a" and "ValidVersion b" and "parse a = Some pa" and "parse b = Some pb"
  shows "Compare a b = Some (order_of (release_key pa) (release_key pb)) \<and>
    Compare b a = Some (- order_of (release_key pa) (release_key pb)) \<and>
    (\<forall>c pc. ValidVersion c \<longrightarrow> parse c = Some pc \<longrightarrow> Compare a b = Some 1 \<longrightarrow> Compare b c = Some 1 \<longrightarrow> Compare a c = Some 1)"
proof -
  have cmp: "Compare x y = Some (order_of (release_key px) (release_key py))"
    if "ValidVersion x" "ValidVersion y" "parse x = Some px" "parse y = Some py" for x y px py
    by (rule compare_is_order) (use that valid_plain in blast)+
  have "order_of (release_key pb) (release_key pa) = - order_of (release_key pa) (release_key pb)"
    by (auto simp: order_of_def dest: less_asym)
  moreover have "Compare a c = Some 1" if "ValidVersion c" "parse c = Some pc" "Compare a b = Some 1" "Compare b c = Some 1" for c pc
    using that cmp [OF assms] cmp [OF assms(2) that(1) assms(4) that(2)] cmp [OF assms(1) that(1) assms(3) that(2)]
    by (auto simp: order_of_def split: if_splits dest: less_trans less_asym)
  ultimately show ?thesis using cmp [OF assms] cmp [OF assms(2,1,4,3)] by auto
qed

lemma sample_versions:
  "ValidVersion ''v2.6.0-beta.4'' \<and> ValidVersion ''v2.6.0-beta.11'' \<and>
   parse ''v2.6.0-beta.4'' = Some \<lparr>p_n0 = 2, p_n1 = 6, p_n2 = 0, p_pre = Some [''beta'', ''4'']\<rparr> \<and>
   parse ''v2.6.0-beta.11'' = Some \<lparr>p_n0 = 2, p_n1 = 6, p_n2 = 0, p_pre = Some [''beta'', ''11'']\<rparr>"
  by code_simp

theorem version_order_is_semver_witness:
  "Compare ''v2.6.0-beta.11'' ''v2.6.0-beta.4'' = Some 1"
proof -
  have "order_of (release_key \<lparr>p_n0 = 2, p_n1 = 6, p_n2 = 0, p_pre = Some [''beta'', ''11'']\<rparr>)
      (release_key \<lparr>p_n0 = 2, p_n1 = 6, p_n2 = 0, p_pre = Some [''beta'', ''4'']\<rparr>) = 1"
    by code_simp
  then show ?thesis
    using version_order_is_semver [of "''v2.6.0-beta.11''" "''v2.6.0-beta.4''"] sample_versions by simp
qed

text \<open>An identifier that starts with a minus sign is read as a negative number, and the subtraction can then wrap: of these two versions each is
  older than the other. Such a version is no release version, but \<open>Compare\<close> takes it.\<close>

lemma compare_can_wrap:
  "Compare ''v1.0.0-x.-9223372036854775808'' ''v1.0.0-x.0'' = Some (- 1) \<and>
   Compare ''v1.0.0-x.0'' ''v1.0.0-x.-9223372036854775808'' = Some (- 1)"
  by (simp add: Compare_def parse_def versionRe_def match_version_def version_groups_def parse_int_def digits_value_def digit_value_def
      is_digit_def letter_or_digit_def privateSuffix_def private_core_def lower_hex_def compareIdent_def sub64_def sign_def
      text_compare_def Let_def)

end
