(* ===== verification/SelfUpdate.thy ===== *)
theory SelfUpdate
  imports Versions Durable AliasService
begin

text \<open>
  Rolling updates on a node (\<open>internal/update\<close>): the release state it keeps on disk, the launcher's decision at every start, the confirmation of a
  pending release, and the transitions an operator asks for. The disk is a value: the two files of the state with everything
  that can go wrong in replacing them, the staged releases with their recorded checksums, and the records the host's helper
  and the command line leave. The JSON codecs and SHA-256 are parameters.
\<close>

section \<open>The state and its files\<close>

record Launcher =
  la_Path :: string
  la_SHA256 :: string

record Pending =
  pd_Version :: string
  pd_Attempts :: int
  pd_Baseline :: "string list"

record State =
  us_Current :: string
  us_LastGood :: string
  us_Pending :: "Pending option"
  us_Launcher :: "Launcher option"
  us_Previous :: string

record previousRecord =
  pr_Version :: string
  pr_Before :: string

record cliRecord =
  cl_Version :: string
  cl_SHA256 :: string

record ImageResult =
  ir_Version :: string
  ir_ID :: string
  ir_OK :: bool

text \<open>The codecs of the files and the checksum. \<open>Previous\<close> is not part of the encoded state.\<close>

record file_codec =
  enc_state :: "State \<Rightarrow> string"
  dec_state :: "string \<Rightarrow> State option"
  enc_previous :: "previousRecord \<Rightarrow> string"
  dec_previous :: "string \<Rightarrow> previousRecord option"
  enc_cli :: "cliRecord \<Rightarrow> string"
  dec_cli :: "string \<Rightarrow> cliRecord option"
  dec_image :: "string \<Rightarrow> ImageResult option"
  sha256 :: "string \<Rightarrow> string"

record staged_dir =
  sd_isDir :: bool
  sd_sum :: "string option"
  sd_bin :: "string option"

text \<open>The directory of the releases, in the order of its names, and the files outside it that launchers are.\<close>

record disk =
  dk_state :: file_state
  dk_previous :: file_state
  dk_cli :: file_state
  dk_image :: "string option"
  dk_readable :: bool
  dk_dirs :: "(string \<times> staged_dir) list"
  dk_files :: "(string \<times> string) list"

datatype update_error =
    ErrRead | ErrDecode | ErrBadName | ErrSave | NotAVersion | NotStaged | SumMismatch | NoLauncher | LauncherChanged
  | ErrRestarting | errNotOwned | errNothingToRollBack | errUnchanged | NoSelf | InstallFailed | NotPrepared

definition NewState :: State where
  "NewState = \<lparr>us_Current = Builtin, us_LastGood = Builtin, us_Pending = None, us_Launcher = None, us_Previous = ''''\<rparr>"

definition validName :: "string \<Rightarrow> bool" where
  "validName v \<longleftrightarrow> v = Builtin \<or> ValidVersion v"

definition loadPrevious :: "file_codec \<Rightarrow> disk \<Rightarrow> string \<Rightarrow> string" where
  "loadPrevious k dk lastGood =
     (case fs_target (dk_previous dk) of
        None \<Rightarrow> ''''
      | Some b \<Rightarrow>
          if b = [] then ''''
          else
            (case dec_previous k b of
               None \<Rightarrow> ''''
             | Some p \<Rightarrow>
                 if \<not> validName (pr_Version p) \<or> pr_Before p \<noteq> lastGood \<or> pr_Version p = lastGood then '''' else pr_Version p))"

definition LoadState :: "file_codec \<Rightarrow> disk \<Rightarrow> update_error + State" where
  "LoadState k dk =
     (case fs_target (dk_state dk) of
        None \<Rightarrow> Inr NewState
      | Some b \<Rightarrow>
          if \<not> dk_readable dk then Inl ErrRead
          else
            (case dec_state k b of
               None \<Rightarrow> Inl ErrDecode
             | Some s \<Rightarrow>
                 if \<not> validName (us_Current s) \<or> \<not> validName (us_LastGood s) \<or>
                    (case us_Pending s of None \<Rightarrow> False | Some p \<Rightarrow> \<not> ValidVersion (pd_Version p))
                 then Inl ErrBadName
                 else Inr (s\<lparr>us_Previous := loadPrevious k dk (us_LastGood s)\<rparr>)))"

text \<open>What may go wrong in saving: making the directory, and each of the two replacements.\<close>

type_synonym save_fault = "bool \<times> fault \<times> fault"

definition SaveState :: "file_codec \<Rightarrow> save_fault \<Rightarrow> State \<Rightarrow> disk \<Rightarrow> bool \<times> disk" where
  "SaveState k f s dk =
     (case f of
        (mkdir, f1, f2) \<Rightarrow>
          if \<not> mkdir then (False, dk)
          else
            let prev = (if us_Previous s \<noteq> '''' then enc_previous k \<lparr>pr_Version = us_Previous s, pr_Before = us_LastGood s\<rparr> @ newline else [])
            in case WriteFile f1 prev (dk_previous dk) of
                 (False, fp) \<Rightarrow> (False, dk\<lparr>dk_previous := fp\<rparr>)
               | (True, fp) \<Rightarrow>
                   (case WriteFile f2 (enc_state k s @ newline) (dk_state dk) of
                      (ok, fs) \<Rightarrow> (ok, dk\<lparr>dk_previous := fp, dk_state := fs\<rparr>)))"

text \<open>The path of a staged binary is relative to the directory of the releases.\<close>

definition Binary :: "file_codec \<Rightarrow> disk \<Rightarrow> string \<Rightarrow> update_error + string" where
  "Binary k dk version =
     (if \<not> ValidVersion version then Inl NotAVersion
      else case map_of (dk_dirs dk) version of
             None \<Rightarrow> Inl NotStaged
           | Some d \<Rightarrow>
               (case (sd_sum d, sd_bin d) of
                  (Some want, Some bin) \<Rightarrow>
                    if TrimSpace want \<noteq> sha256 k bin then Inl SumMismatch else Inr (version @ ''/viiwork'')
                | _ \<Rightarrow> Inl NotStaged))"

text \<open>Newest first. The sort is Go's insertion sort, as \<open>sort.Slice\<close> runs it on up to twelve elements.\<close>

fun insert_newer :: "string \<Rightarrow> string list \<Rightarrow> string list" where
  "insert_newer x [] = [x]"
| "insert_newer x (y # ys) =
     (if (case Compare x y of Some c \<Rightarrow> c > 0 | None \<Rightarrow> False) then y # insert_newer x ys else x # y # ys)"

definition Staged :: "disk \<Rightarrow> string list" where
  "Staged dk =
     rev (fold insert_newer (map fst (filter (\<lambda>(v, d). sd_isDir d \<and> ValidVersion v \<and> sd_sum d \<noteq> None) (dk_dirs dk))) [])"

fun prune_list :: "string list \<Rightarrow> bool \<Rightarrow> string list \<Rightarrow> string list" where
  "prune_list keep extra [] = []"
| "prune_list keep extra (v # vs) =
     (if v \<in> set keep then prune_list keep extra vs
      else if \<not> extra then prune_list keep True vs
      else v # prune_list keep extra vs)"

text \<open>The number of removals that succeed before one fails is an argument.\<close>

definition Prune :: "nat \<Rightarrow> State \<Rightarrow> disk \<Rightarrow> disk" where
  "Prune removed s dk =
     (let gone = take removed (prune_list [us_Current s, us_LastGood s, us_Previous s] False (Staged dk))
      in dk\<lparr>dk_dirs := filter (\<lambda>(v, _). v \<notin> set gone) (dk_dirs dk)\<rparr>)"

definition RestartTarget :: "file_codec \<Rightarrow> disk \<Rightarrow> update_error + string" where
  "RestartTarget k dk =
     (case LoadState k dk of
        Inl e \<Rightarrow> Inl e
      | Inr s \<Rightarrow>
          (case us_Launcher s of
             None \<Rightarrow> Inl NoLauncher
           | Some l \<Rightarrow>
               (case map_of (dk_files dk) (la_Path l) of
                  None \<Rightarrow> Inl LauncherChanged
                | Some data \<Rightarrow> if sha256 k data \<noteq> la_SHA256 l then Inl LauncherChanged else Inr (la_Path l))))"

section \<open>The store\<close>

record update_store =
  so_disk :: disk
  so_restarting :: bool

definition NewStore :: "disk \<Rightarrow> update_store" where
  "NewStore dk = \<lparr>so_disk = dk, so_restarting = False\<rparr>"

definition Load :: "file_codec \<Rightarrow> update_store \<Rightarrow> update_error + State" where
  "Load k so = LoadState k (so_disk so)"

definition Update :: "file_codec \<Rightarrow> save_fault \<Rightarrow> (State \<Rightarrow> update_error + bool \<times> State) \<Rightarrow> update_store \<Rightarrow>
    update_error option \<times> update_store" where
  "Update k f fn so =
     (if so_restarting so then (Some ErrRestarting, so)
      else case LoadState k (so_disk so) of
             Inl e \<Rightarrow> (Some e, so)
           | Inr st \<Rightarrow>
               (case fn st of
                  Inl e \<Rightarrow> (Some e, so)
                | Inr (restart, st') \<Rightarrow>
                    (case SaveState k f st' (so_disk so) of
                       (False, dk) \<Rightarrow> (Some ErrSave, so\<lparr>so_disk := dk\<rparr>)
                     | (True, dk) \<Rightarrow> (None, so\<lparr>so_disk := dk, so_restarting := restart\<rparr>))))"

text \<open>The states an update's function saw and left, which its caller keeps.\<close>

definition captured :: "file_codec \<Rightarrow> (State \<Rightarrow> update_error + bool \<times> State) \<Rightarrow> update_store \<Rightarrow> State \<times> State" where
  "captured k fn so =
     (case LoadState k (so_disk so) of
        Inl _ \<Rightarrow> (NewState, NewState)
      | Inr st \<Rightarrow> (case fn st of Inl _ \<Rightarrow> (st, st) | Inr (_, st') \<Rightarrow> (st, st')))"

section \<open>The launcher\<close>

definition maxAttempts :: int where "maxAttempts = 3"

record Decision =
  de_Exec :: string
  de_State :: State
  de_Changed :: bool

definition stay :: "State \<Rightarrow> bool \<Rightarrow> Decision" where
  "stay s changed = \<lparr>de_Exec = '''', de_State = s, de_Changed = changed\<rparr>"

text \<open>The last part of \<open>decide\<close>: run the staged binary, or this one when it does not verify.\<close>

definition run_staged :: "(string \<Rightarrow> update_error + string) \<Rightarrow> State \<Rightarrow> bool \<Rightarrow> Decision" where
  "run_staged staged s changed =
     (case staged (us_Current s) of
        Inr path \<Rightarrow> \<lparr>de_Exec = path, de_State = s, de_Changed = changed\<rparr>
      | Inl _ \<Rightarrow>
          let bad = us_Current s;
              s = s\<lparr>us_Current := Builtin, us_Pending := None\<rparr>;
              s = (if us_LastGood s = bad then s\<lparr>us_LastGood := Builtin\<rparr> else s)
          in stay s True)"

text \<open>From the newer-floor rule on.\<close>

definition decide_floor :: "State \<Rightarrow> bool \<Rightarrow> string \<Rightarrow> bool \<Rightarrow> (string \<Rightarrow> update_error + string) \<Rightarrow> Decision" where
  "decide_floor s changed running followed staged =
     (if (case Compare running (us_Current s) of Some c \<Rightarrow> c \<ge> 0 | None \<Rightarrow> False) \<and> \<not> followed then
        stay (NewState\<lparr>us_Launcher := us_Launcher s\<rparr>) True
      else
        case us_Pending s of
          Some p \<Rightarrow>
            if pd_Version p = us_Current s then
              let nxt = p\<lparr>pd_Attempts := pd_Attempts p + 1\<rparr>
              in if pd_Attempts nxt \<ge> maxAttempts then
                   let d = s\<lparr>us_Current := us_LastGood s, us_Pending := None\<rparr>
                   in if us_Current d = Builtin then stay d True else run_staged staged d True
                 else run_staged staged (s\<lparr>us_Pending := Some nxt\<rparr>) True
            else run_staged staged s changed
        | None \<Rightarrow> run_staged staged s changed)"

definition decide :: "State \<Rightarrow> string \<Rightarrow> bool \<Rightarrow> (string \<Rightarrow> update_error + string) \<Rightarrow> Decision" where
  "decide s running followed staged =
     (if us_Current s = Builtin then stay s False
      else if followed \<and> us_Current s = running \<and> us_Pending s = None then stay s False
      else
        case us_Pending s of
          Some p \<Rightarrow>
            if pd_Version p = us_Current s \<and> running = us_Current s then
              let nxt = p\<lparr>pd_Attempts := pd_Attempts p + 1\<rparr>
              in if pd_Attempts nxt < maxAttempts then stay (s\<lparr>us_Pending := Some nxt\<rparr>) True
                 else
                   let s = s\<lparr>us_Current := us_LastGood s, us_Pending := None\<rparr>
                   in if us_Current s = Builtin then stay s True
                      else decide_floor s True running followed staged
            else decide_floor s False running followed staged
        | None \<Rightarrow> decide_floor s False running followed staged)"

definition Decide :: "State \<Rightarrow> string \<Rightarrow> (string \<Rightarrow> update_error + string) \<Rightarrow> Decision" where
  "Decide s running staged = decide s running False staged"

definition DecideManaged :: "State \<Rightarrow> string \<Rightarrow> Decision" where
  "DecideManaged s running =
     (case us_Pending s of
        None \<Rightarrow> stay s False
      | Some p \<Rightarrow>
          if us_Current s = Builtin \<or> pd_Version p \<noteq> us_Current s \<or> running \<noteq> us_Current s then stay s False
          else
            let nxt = p\<lparr>pd_Attempts := pd_Attempts p + 1\<rparr>
            in if pd_Attempts nxt < maxAttempts then stay (s\<lparr>us_Pending := Some nxt\<rparr>) True
               else stay (s\<lparr>us_Current := us_LastGood s, us_Pending := None\<rparr>) True)"

definition loadCLIRecord :: "file_codec \<Rightarrow> disk \<Rightarrow> cliRecord option" where
  "loadCLIRecord k dk =
     (case fs_target (dk_cli dk) of
        None \<Rightarrow> None
      | Some b \<Rightarrow>
          (case dec_cli k b of
             None \<Rightarrow> None
           | Some r \<Rightarrow> if \<not> ValidVersion (cl_Version r) \<or> length (cl_SHA256 r) \<noteq> 64 then None else Some r))"

text \<open>\<open>self\<close> is what \<open>SelfLauncher\<close> finds.\<close>

record StartupEnv =
  se_Running :: string
  se_HandedOver :: bool
  se_Managed :: bool
  se_Self :: "Launcher option"

definition Startup :: "file_codec \<Rightarrow> save_fault \<Rightarrow> StartupEnv \<Rightarrow> disk \<Rightarrow> (update_error + string) \<times> disk" where
  "Startup k f e dk =
     (case LoadState k dk of
        Inl err \<Rightarrow> (Inl err, dk)
      | Inr s \<Rightarrow>
          if se_HandedOver e then (Inr '''', dk)
          else
            (case se_Self e of
               None \<Rightarrow> (Inl NoSelf, dk)
             | Some self \<Rightarrow>
                 let changed = (us_Launcher s \<noteq> Some self);
                     s = (if changed then s\<lparr>us_Launcher := Some self\<rparr> else s);
                     d = (if se_Managed e then DecideManaged s (se_Running e)
                          else
                            let followed = (case loadCLIRecord k dk of
                                  None \<Rightarrow> False
                                | Some r \<Rightarrow> cl_Version r = se_Running e \<and> cl_SHA256 r = la_SHA256 self)
                            in decide s (se_Running e) followed (Binary k dk))
                 in if de_Changed d \<or> changed then
                      (case SaveState k f (de_State d) dk of
                         (False, dk) \<Rightarrow> (Inl ErrSave, dk)
                       | (True, dk) \<Rightarrow> (Inr (de_Exec d), dk))
                    else (Inr (de_Exec d), dk)))"

section \<open>Confirmation\<close>

record Confirmer =
  cn_Running :: string
  cn_Window :: duration
  cn_Managed :: bool
  cn_deadline :: gotime
  cn_last :: gotime

text \<open>What one look at the backends concludes. \<open>Wanted\<close> is a predicate, true everywhere when it is nil.\<close>

datatype verdict = KeepPolling | NotPending | DeadBackend string | AllHealthy | WindowPassed

definition backend_list :: "ModelStatus list \<Rightarrow> BackendStatus list" where
  "backend_list ms = concat (map ms_Backends ms)"

definition byID :: "ModelStatus list \<Rightarrow> string \<Rightarrow> BackendStatus option" where
  "byID ms = map_of (rev (map (\<lambda>b. (bs_ID b, b)) (backend_list ms)))"

definition fetching :: "ModelStatus list \<Rightarrow> bool" where
  "fetching ms \<longleftrightarrow> list_ex (\<lambda>b. bs_Phase b = ''fetching'') (backend_list ms)"

fun baseline_scan :: "(string \<Rightarrow> bool) \<Rightarrow> (string \<Rightarrow> BackendStatus option) \<Rightarrow> string list \<Rightarrow> bool \<Rightarrow> string + bool" where
  "baseline_scan wanted by [] healthy = Inr healthy"
| "baseline_scan wanted by (i # is) healthy =
     (case by i of
        None \<Rightarrow> if \<not> wanted i then baseline_scan wanted by is healthy else baseline_scan wanted by is False
      | Some b \<Rightarrow>
          if bs_Status b = StatusDead then Inl i
          else if bs_Status b \<noteq> StatusHealthy then baseline_scan wanted by is False
          else baseline_scan wanted by is healthy)"

definition owns :: "string \<Rightarrow> State \<Rightarrow> bool" where
  "owns running st = (case us_Pending st of None \<Rightarrow> False | Some p \<Rightarrow> pd_Version p = us_Current st \<and> pd_Version p = running)"

definition step_clock :: "gotime \<Rightarrow> ModelStatus list \<Rightarrow> Confirmer \<Rightarrow> Confirmer" where
  "step_clock now ms c =
     (let c = (if is_zero (cn_deadline c) then c\<lparr>cn_deadline := now + cn_Window c, cn_last := now\<rparr> else c);
          c = (if fetching ms then c\<lparr>cn_deadline := cn_deadline c + tsub now (cn_last c)\<rparr> else c)
      in c\<lparr>cn_last := now\<rparr>)"

definition step_look :: "file_codec \<Rightarrow> (string \<Rightarrow> bool) \<Rightarrow> gotime \<Rightarrow> ModelStatus list \<Rightarrow> update_store \<Rightarrow> Confirmer \<Rightarrow> verdict \<times> Confirmer" where
  "step_look k wanted now ms so c =
     (case Load k so of
        Inl _ \<Rightarrow> (KeepPolling, c)
      | Inr st \<Rightarrow>
          if \<not> owns (cn_Running c) st then (NotPending, c)
          else
            let c = step_clock now ms c;
                baseline = (case us_Pending st of Some p \<Rightarrow> pd_Baseline p | None \<Rightarrow> [])
            in case baseline_scan wanted (byID ms) baseline True of
                 Inl i \<Rightarrow> (DeadBackend i, c)
               | Inr True \<Rightarrow> (AllHealthy, c)
               | Inr False \<Rightarrow> (if now > cn_deadline c then WindowPassed else KeepPolling, c))"

definition confirm_state :: "string \<Rightarrow> State \<Rightarrow> update_error + bool \<times> State" where
  "confirm_state running st =
     (if \<not> owns running st then Inl errNotOwned
      else
        let st = (if us_LastGood st \<noteq> us_Current st then st\<lparr>us_Previous := us_LastGood st\<rparr> else st)
        in Inr (False, st\<lparr>us_LastGood := us_Current st, us_Pending := None\<rparr>))"

definition give_up_state :: "string \<Rightarrow> bool \<Rightarrow> State \<Rightarrow> update_error + bool \<times> State" where
  "give_up_state running managed st =
     (if \<not> owns running st then Inl errNotOwned
      else Inr (\<not> managed, st\<lparr>us_Current := us_LastGood st, us_Pending := None\<rparr>))"

text \<open>What the look concluded is carried out on the store as it is by then: whether the confirmer is finished, and whether it asks for a restart.\<close>

definition step_act :: "file_codec \<Rightarrow> save_fault \<Rightarrow> nat \<Rightarrow> Confirmer \<Rightarrow> verdict \<Rightarrow> update_store \<Rightarrow> (bool \<times> bool) \<times> update_store" where
  "step_act k f removed c v so =
     (case v of
        KeepPolling \<Rightarrow> ((False, False), so)
      | NotPending \<Rightarrow> ((True, False), so)
      | AllHealthy \<Rightarrow>
          (case Update k f (confirm_state (cn_Running c)) so of
             (Some _, so) \<Rightarrow> ((True, False), so)
           | (None, so') \<Rightarrow>
               ((True, False), so'\<lparr>so_disk := Prune removed (snd (captured k (confirm_state (cn_Running c)) so)) (so_disk so')\<rparr>))
      | _ \<Rightarrow>
          (case Update k f (give_up_state (cn_Running c) (cn_Managed c)) so of
             (Some _, so) \<Rightarrow> ((True, False), so)
           | (None, so) \<Rightarrow> ((True, \<not> cn_Managed c), so)))"

definition Step :: "file_codec \<Rightarrow> save_fault \<Rightarrow> nat \<Rightarrow> (string \<Rightarrow> bool) \<Rightarrow> gotime \<Rightarrow> ModelStatus list \<Rightarrow> Confirmer \<Rightarrow> update_store \<Rightarrow>
    (bool \<times> bool) \<times> Confirmer \<times> update_store" where
  "Step k f removed wanted now ms c so =
     (case step_look k wanted now ms so c of
        (v, c) \<Rightarrow> (case step_act k f removed c v so of (r, so) \<Rightarrow> (r, c, so)))"

definition Deadline :: "Confirmer \<Rightarrow> gotime option" where
  "Deadline c = (if is_zero (cn_deadline c) then None else Some (cn_deadline c))"

section \<open>The operator's transitions\<close>

record UpdateRequest =
  ur_Version :: string
  ur_AllowDowngrade :: bool

record update_service =
  up_Enabled :: bool
  up_Running :: string
  up_Managed :: bool

datatype update_reply = Done int string | Failed int

definition ImagePrepared :: "file_codec \<Rightarrow> disk \<Rightarrow> string \<Rightarrow> bool" where
  "ImagePrepared k dk version =
     (case dk_image dk of
        None \<Rightarrow> False
      | Some b \<Rightarrow> (case dec_image k b of None \<Rightarrow> False | Some res \<Rightarrow> ir_OK res \<and> ir_Version res = version))"

definition transitionError :: "update_error option \<Rightarrow> int option" where
  "transitionError err =
     (case err of
        None \<Rightarrow> None
      | Some e \<Rightarrow> Some (if e = ErrRestarting \<or> e = errNothingToRollBack then 409 else 500))"

fun activate_baseline :: "BackendStatus list \<Rightarrow> string list option" where
  "activate_baseline [] = Some []"
| "activate_baseline (b # bs) =
     (if bs_Status b = StatusHealthy then map_option ((#) (bs_ID b)) (activate_baseline bs)
      else if bs_Status b = StatusStarting then None
      else activate_baseline bs)"

definition activate_state :: "string \<Rightarrow> string list \<Rightarrow> bool \<Rightarrow> State \<Rightarrow> update_error + bool \<times> State" where
  "activate_state version baseline managed st =
     Inr (\<not> managed, st\<lparr>us_Current := version, us_Pending := Some \<lparr>pd_Version = version, pd_Attempts = 0, pd_Baseline = baseline\<rparr>\<rparr>)"

definition rollback_state :: "file_codec \<Rightarrow> disk \<Rightarrow> bool \<Rightarrow> State \<Rightarrow> update_error + bool \<times> State" where
  "rollback_state k dk managed st =
     (if us_Pending st \<noteq> None \<or> us_Current st \<noteq> us_LastGood st then
        Inr (\<not> managed, st\<lparr>us_Current := us_LastGood st, us_Pending := None\<rparr>)
      else if us_Previous st = '''' then Inl errNothingToRollBack
      else if us_Previous st \<noteq> Builtin \<and> (case Binary k dk (us_Previous st) of Inl _ \<Rightarrow> True | Inr _ \<Rightarrow> False) then Inl errNothingToRollBack
      else Inr (\<not> managed, st\<lparr>us_Current := us_Previous st, us_LastGood := us_Previous st, us_Previous := ''''\<rparr>))"

text \<open>A transition: the reply, and the states before and after it for the watch on the host's helper.\<close>

definition transition :: "file_codec \<Rightarrow> save_fault \<Rightarrow> (State \<Rightarrow> update_error + bool \<times> State) \<Rightarrow> update_store \<Rightarrow>
    (int + State \<times> State) \<times> update_store" where
  "transition k f fn so =
     (case Update k f fn so of
        (err, so') \<Rightarrow>
          (case transitionError err of
             Some code \<Rightarrow> (Inl code, so')
           | None \<Rightarrow> (Inr (captured k fn so), so')))"

definition activate :: "file_codec \<Rightarrow> save_fault \<Rightarrow> update_service \<Rightarrow> ModelStatus list \<Rightarrow> UpdateRequest \<Rightarrow> update_store \<Rightarrow>
    (int + State \<times> State) \<times> update_store" where
  "activate k f sv ms req so =
     (let dk = so_disk so; v = ur_Version req in
      if \<not> ValidVersion v then (Inl 400, so)
      else case Binary k dk v of
             Inl _ \<Rightarrow> (Inl 409, so)
           | Inr _ \<Rightarrow>
               if up_Managed sv \<and> \<not> ImagePrepared k dk v then (Inl 409, so)
               else if (case Compare v (up_Running sv) of
                          None \<Rightarrow> False
                        | Some c \<Rightarrow> c = 0 \<or> (c < 0 \<and> \<not> ur_AllowDowngrade req)) then (Inl 409, so)
               else case activate_baseline (backend_list ms) of
                      None \<Rightarrow> (Inl 409, so)
                    | Some baseline \<Rightarrow> transition k f (activate_state v baseline (up_Managed sv)) so)"

definition rollback :: "file_codec \<Rightarrow> save_fault \<Rightarrow> update_service \<Rightarrow> update_store \<Rightarrow> (int + State \<times> State) \<times> update_store" where
  "rollback k f sv so = transition k f (rollback_state k (so_disk so) (up_Managed sv)) so"

definition sameTransition :: "State \<Rightarrow> State \<Rightarrow> bool" where
  "sameTransition st saved \<longleftrightarrow>
     us_Current st = us_Current saved \<and> us_LastGood st = us_LastGood saved \<and>
     map_option pd_Version (us_Pending st) = map_option pd_Version (us_Pending saved)"

text \<open>The end of \<open>awaitHelper\<close>, when the timer fires and the process is still there.\<close>

definition restore_state :: "State \<Rightarrow> State \<Rightarrow> State \<Rightarrow> update_error + bool \<times> State" where
  "restore_state prior nxt st =
     (if \<not> sameTransition st nxt then Inl errNotOwned else Inr (False, prior\<lparr>us_Launcher := us_Launcher st\<rparr>))"

definition awaitHelper :: "file_codec \<Rightarrow> save_fault \<Rightarrow> State \<times> State \<Rightarrow> update_store \<Rightarrow> update_store" where
  "awaitHelper k f w so = (case w of (prior, nxt) \<Rightarrow> snd (Update k f (restore_state prior nxt) so))"

definition WatchPending :: "file_codec \<Rightarrow> update_service \<Rightarrow> update_store \<Rightarrow> (State \<times> State) option" where
  "WatchPending k sv so =
     (if \<not> up_Managed sv then None
      else case Load k so of
             Inl _ \<Rightarrow> None
           | Inr st \<Rightarrow>
               (case us_Pending st of
                  None \<Rightarrow> None
                | Some p \<Rightarrow>
                    if pd_Version p = up_Running sv then None
                    else Some (st\<lparr>us_Current := us_LastGood st, us_Pending := None\<rparr>, st)))"

text \<open>The launcher's recorded checksum moves with the command line the node installs; whether the binary there is behind, and
  whether replacing it succeeds, are arguments.\<close>

definition follow_state :: "string \<Rightarrow> string \<Rightarrow> State \<Rightarrow> update_error + bool \<times> State" where
  "follow_state path digest st =
     (case us_Launcher st of
        None \<Rightarrow> Inl errUnchanged
      | Some l \<Rightarrow> if la_Path l \<noteq> path then Inl errUnchanged else Inr (False, st\<lparr>us_Launcher := Some (l\<lparr>la_SHA256 := digest\<rparr>)\<rparr>))"

definition FollowCLI :: "file_codec \<Rightarrow> fault \<Rightarrow> save_fault \<Rightarrow> bool \<Rightarrow> bool \<Rightarrow> string \<Rightarrow> string \<Rightarrow> update_store \<Rightarrow>
    update_error option \<times> update_store" where
  "FollowCLI k f1 f2 behind installs version cli so =
     (case Binary k (so_disk so) version of
        Inl e \<Rightarrow> (Some e, so)
      | Inr _ \<Rightarrow>
          if \<not> behind then (None, so)
          else
            let data = (case map_of (dk_dirs (so_disk so)) version of Some d \<Rightarrow> (case sd_bin d of Some b \<Rightarrow> b | None \<Rightarrow> '''') | None \<Rightarrow> '''');
                digest = sha256 k data
            in case WriteFile f1 (enc_cli k \<lparr>cl_Version = version, cl_SHA256 = digest\<rparr> @ newline) (dk_cli (so_disk so)) of
                 (False, fc) \<Rightarrow> (Some ErrSave, so\<lparr>so_disk := (so_disk so)\<lparr>dk_cli := fc\<rparr>\<rparr>)
               | (True, fc) \<Rightarrow>
                   let so = so\<lparr>so_disk := (so_disk so)\<lparr>dk_cli := fc\<rparr>\<rparr> in
                   if \<not> installs then (Some InstallFailed, so)
                   else
                     let so = so\<lparr>so_disk := (so_disk so)\<lparr>dk_files := AList.update cli data (dk_files (so_disk so))\<rparr>\<rparr> in
                     case Update k f2 (follow_state cli digest) so of
                       (Some e, so) \<Rightarrow> (if e = errUnchanged \<or> e = ErrRestarting then None else Some e, so)
                     | (None, so) \<Rightarrow> (None, so))"

section \<open>The interface\<close>

definition maxBody :: nat where "maxBody = 4 * 1024"

record UpdatePending =
  upd_Version :: string
  upd_Attempts :: int
  upd_Deadline :: "gotime option"

record UpdateStatus =
  st_Enabled :: bool
  st_Running :: string
  st_Current :: string
  st_LastGood :: string
  st_Previous :: string
  st_Pending :: "UpdatePending option"
  st_Staged :: "string list"

definition update_status :: "file_codec \<Rightarrow> update_service \<Rightarrow> gotime option \<Rightarrow> update_store \<Rightarrow> update_error + UpdateStatus" where
  "update_status k sv deadline so =
     (case Load k so of
        Inl e \<Rightarrow> Inl e
      | Inr st \<Rightarrow>
          let staged = Staged (so_disk so)
          in Inr \<lparr>st_Enabled = up_Enabled sv, st_Running = up_Running sv, st_Current = us_Current st, st_LastGood = us_LastGood st,
               st_Previous = (if us_Previous st = Builtin \<or> us_Previous st \<in> set staged then us_Previous st else ''''),
               st_Pending = map_option (\<lambda>p. \<lparr>upd_Version = pd_Version p, upd_Attempts = pd_Attempts p,
                 upd_Deadline = (if pd_Version p = up_Running sv then deadline else None)\<rparr>) (us_Pending st),
               st_Staged = staged\<rparr>)"

text \<open>Staging itself is an argument: what it does to the directory of the releases, and how it ends.\<close>

datatype stage_result = StageOK | ErrEngineTooOld | ErrUnverified | StageFailed

type_synonym stager = "string \<Rightarrow> (string \<times> staged_dir) list \<Rightarrow> stage_result \<times> (string \<times> staged_dir) list"

definition stage :: "bool \<Rightarrow> stager \<Rightarrow> UpdateRequest \<Rightarrow> update_store \<Rightarrow> update_reply \<times> update_store" where
  "stage busy stager req so =
     (if \<not> ValidVersion (ur_Version req) then (Failed 400, so)
      else if busy then (Failed 409, so)
      else case stager (ur_Version req) (dk_dirs (so_disk so)) of
             (r, dirs) \<Rightarrow>
               (case r of StageOK \<Rightarrow> Done 200 (ur_Version req) | ErrEngineTooOld \<Rightarrow> Failed 409 | ErrUnverified \<Rightarrow> Failed 422
                  | StageFailed \<Rightarrow> Failed 502,
                so\<lparr>so_disk := (so_disk so)\<lparr>dk_dirs := dirs\<rparr>\<rparr>))"

datatype update_op = OpStage | OpActivate | OpRollback

definition PathUpdate :: string where "PathUpdate = ''/v1/update''"

definition PathUpdateStage :: string where "PathUpdateStage = ''/v1/update/stage''"

definition PathUpdateActivate :: string where "PathUpdateActivate = ''/v1/update/activate''"

definition PathUpdateRollback :: string where "PathUpdateRollback = ''/v1/update/rollback''"

datatype update_route = RouteStatus | RouteWrite update_op | RouteRefused int

definition update_ServeHTTP :: "string \<Rightarrow> string \<Rightarrow> update_route" where
  "update_ServeHTTP path meth =
     (if path = PathUpdate \<and> meth = ''GET'' then RouteStatus
      else if meth \<noteq> ''POST'' then RouteRefused 405
      else if path = PathUpdateStage then RouteWrite OpStage
      else if path = PathUpdateActivate then RouteWrite OpActivate
      else if path = PathUpdateRollback then RouteWrite OpRollback
      else RouteRefused 404)"

text \<open>What a request of the interface meets.\<close>

record update_world =
  uw_codec :: file_codec
  uw_fault :: save_fault
  uw_decode :: "string \<Rightarrow> UpdateRequest option"
  uw_crypto :: crypto
  uw_loopback :: "string \<Rightarrow> bool"
  uw_now :: gotime
  uw_backends :: "ModelStatus list"
  uw_busy :: bool
  uw_stager :: stager

definition update_op_run :: "update_world \<Rightarrow> update_service \<Rightarrow> update_op \<Rightarrow> UpdateRequest \<Rightarrow> update_store \<Rightarrow>
    update_reply \<times> (State \<times> State) option \<times> update_store" where
  "update_op_run w sv op req so =
     (case op of
        OpStage \<Rightarrow> (case stage (uw_busy w) (uw_stager w) req so of (r, so) \<Rightarrow> (r, None, so))
      | OpActivate \<Rightarrow>
          (case activate (uw_codec w) (uw_fault w) sv (uw_backends w) req so of
             (Inl code, so) \<Rightarrow> (Failed code, None, so)
           | (Inr t, so) \<Rightarrow> (Done 202 (ur_Version req), Some t, so))
      | OpRollback \<Rightarrow>
          (case rollback (uw_codec w) (uw_fault w) sv so of
             (Inl code, so) \<Rightarrow> (Failed code, None, so)
           | (Inr t, so) \<Rightarrow> (Done 202 (us_Current (snd t)), Some t, so)))"

definition update_write :: "update_world \<Rightarrow> update_service \<Rightarrow> update_op \<Rightarrow> http_request \<Rightarrow> request_body \<Rightarrow> authorizer \<Rightarrow> update_store \<Rightarrow>
    update_reply \<times> (State \<times> State) option \<times> authorizer \<times> update_store" where
  "update_write w sv op r body_in a so =
     (case body_in of
        BodyFailed \<Rightarrow> (Failed 400, None, a, so)
      | Body body \<Rightarrow>
          if length body > maxBody then (Failed 413, None, a, so)
          else if \<not> up_Enabled sv then (Failed 403, None, a, so)
          else
            (case Authorize (uw_crypto w) (uw_loopback w) (uw_now w) r body a of
               (Some status, a) \<Rightarrow> (Failed status, None, a, so)
             | (None, a) \<Rightarrow>
                 (case (if body = [] then Some \<lparr>ur_Version = '''', ur_AllowDowngrade = False\<rparr> else uw_decode w body) of
                    None \<Rightarrow> (Failed 400, None, a, so)
                  | Some req \<Rightarrow>
                      if so_restarting so then (Failed 409, None, a, so)
                      else (case update_op_run w sv op req so of (reply, t, so) \<Rightarrow> (reply, t, a, so)))))"

section \<open>Saving and loading\<close>

text \<open>Decoding an encoded value gives it back, but for the field that is not encoded.\<close>

definition codec_ok :: "file_codec \<Rightarrow> bool" where
  "codec_ok k \<longleftrightarrow>
     (\<forall>s. dec_state k (enc_state k s @ newline) = Some (s\<lparr>us_Previous := ''''\<rparr>)) \<and>
     (\<forall>p. dec_previous k (enc_previous k p @ newline) = Some p)"

definition names_ok :: "State \<Rightarrow> bool" where
  "names_ok s \<longleftrightarrow> validName (us_Current s) \<and> validName (us_LastGood s) \<and>
     (case us_Pending s of None \<Rightarrow> True | Some p \<Rightarrow> ValidVersion (pd_Version p))"

text \<open>The way back that loading offers again.\<close>

definition kept_previous :: "State \<Rightarrow> string" where
  "kept_previous s = (if validName (us_Previous s) \<and> us_Previous s \<noteq> us_LastGood s then us_Previous s else '''')"

definition previous_bytes :: "file_codec \<Rightarrow> State \<Rightarrow> string" where
  "previous_bytes k s =
     (if us_Previous s \<noteq> '''' then enc_previous k \<lparr>pr_Version = us_Previous s, pr_Before = us_LastGood s\<rparr> @ newline else [])"

lemma not_valid_empty [simp]: "\<not> validName ''''"
  by (simp add: validName_def Builtin_def ValidVersion_def match_version_def version_groups_def)

lemma newline_not_empty [simp]: "newline \<noteq> []"
  by (simp add: newline_def)

lemma previous_loads:
  assumes "codec_ok k" and "fs_target (dk_previous dk) = Some (previous_bytes k s)"
  shows "loadPrevious k dk g = (if us_LastGood s = g then kept_previous s else '''')"
  using assms by (auto simp: loadPrevious_def previous_bytes_def codec_ok_def kept_previous_def)

lemma save_outcome:
  assumes "SaveState k f s dk = (ok, dk')"
  shows "dk_readable dk' = dk_readable dk" "dk_dirs dk' = dk_dirs dk" "dk_cli dk' = dk_cli dk"
    and "fs_target (dk_previous dk') \<in> {fs_target (dk_previous dk), Some (previous_bytes k s)}"
    and "fs_target (dk_state dk') \<in> {fs_target (dk_state dk), Some (enc_state k s @ newline)}"
    and "fs_target (dk_state dk') = fs_target (dk_state dk) \<or> fs_target (dk_previous dk') = Some (previous_bytes k s)"
    and "ok \<Longrightarrow> fs_target (dk_previous dk') = Some (previous_bytes k s) \<and> fs_target (dk_state dk') = Some (enc_state k s @ newline)"
proof -
  obtain mkdir f1 f2 where f: "f = (mkdir, f1, f2)" by (cases f)
  obtain ok1 fp where w1: "WriteFile f1 (previous_bytes k s) (dk_previous dk) = (ok1, fp)" by (metis prod.collapse)
  obtain ok2 fs where w2: "WriteFile f2 (enc_state k s @ newline) (dk_state dk) = (ok2, fs)" by (metis prod.collapse)
  have s: "SaveState k f s dk =
    (if \<not> mkdir then (False, dk) else if \<not> ok1 then (False, dk\<lparr>dk_previous := fp\<rparr>) else (ok2, dk\<lparr>dk_previous := fp, dk_state := fs\<rparr>))"
    using w1 w2 by (simp add: SaveState_def f previous_bytes_def [symmetric] split: bool.split)
  note o1 = write_file_outcome [OF w1] and o2 = write_file_outcome [OF w2]
  show "dk_readable dk' = dk_readable dk" "dk_dirs dk' = dk_dirs dk" "dk_cli dk' = dk_cli dk"
    using assms unfolding s by (auto split: if_splits)
  show "fs_target (dk_previous dk') \<in> {fs_target (dk_previous dk), Some (previous_bytes k s)}"
    "fs_target (dk_state dk') \<in> {fs_target (dk_state dk), Some (enc_state k s @ newline)}"
    "fs_target (dk_state dk') = fs_target (dk_state dk) \<or> fs_target (dk_previous dk') = Some (previous_bytes k s)"
    "ok \<Longrightarrow> fs_target (dk_previous dk') = Some (previous_bytes k s) \<and> fs_target (dk_state dk') = Some (enc_state k s @ newline)"
    using assms o1(1,2) o2(1,2) unfolding s by (auto split: if_splits)
qed

lemma load_cases:
  assumes "LoadState k dk = Inr s"
  obtains "fs_target (dk_state dk) = None" "s = NewState"
  | b s0 where "fs_target (dk_state dk) = Some b" "dec_state k b = Some s0" "dk_readable dk" "names_ok s0"
      "s = s0\<lparr>us_Previous := loadPrevious k dk (us_LastGood s0)\<rparr>"
proof (cases "fs_target (dk_state dk)")
  case None
  then show ?thesis using assms that(1) by (simp add: LoadState_def)
next
  case (Some b)
  then have r: "dk_readable dk" using assms by (simp add: LoadState_def split: if_splits)
  obtain s0 where d: "dec_state k b = Some s0" using assms Some r by (cases "dec_state k b") (simp_all add: LoadState_def)
  have "names_ok s0" using assms Some r d by (simp add: LoadState_def names_ok_def split: if_splits option.splits)
  then show ?thesis using that(2) [OF Some d r] assms Some r d by (simp add: LoadState_def split: if_splits)
qed

lemma load_names:
  assumes "fs_target (dk_state dk) = Some b" and "dk_readable dk" and "dec_state k b = Some s0" and "names_ok s0"
  shows "LoadState k dk = Inr (s0\<lparr>us_Previous := loadPrevious k dk (us_LastGood s0)\<rparr>)"
  using assms by (simp add: LoadState_def names_ok_def split: option.splits)

lemma load_saved:
  assumes "codec_ok k" and "dk_readable dk" and "names_ok s"
    and "fs_target (dk_previous dk) = Some (previous_bytes k s)" and "fs_target (dk_state dk) = Some (enc_state k s @ newline)"
  shows "LoadState k dk = Inr (s\<lparr>us_Previous := kept_previous s\<rparr>)"
proof -
  have "dec_state k (enc_state k s @ newline) = Some (s\<lparr>us_Previous := ''''\<rparr>)" using assms(1) by (simp add: codec_ok_def)
  then show ?thesis
    using assms(2,3,5) previous_loads [OF assms(1,4)] by (auto simp: LoadState_def names_ok_def split: option.splits)
qed


section \<open>A node's life\<close>

record node =
  nd_store :: update_store
  nd_service :: update_service
  nd_confirmer :: Confirmer
  nd_verdict :: "verdict option"
  nd_watches :: "(State \<times> State) list"
  nd_vouched :: "(string \<times> string list \<times> (string \<Rightarrow> bool) \<times> ModelStatus list) list"

text \<open>Everything that can happen, in any order: the confirmer looks, and later acts on what it saw; requests arrive; a watch on the host's helper runs out; the
  process ends, at any moment, and a start follows; the command line is replaced; and the host changes staged releases, files
  and the readability of the state. \<open>nd_vouched\<close> records what the confirmer saw when it found a release healthy.\<close>

datatype node_event =
    Look "string \<Rightarrow> bool" gotime "ModelStatus list"
  | Act save_fault nat
  | Request update_world update_op http_request request_body authorizer
  | HelperTimeout nat save_fault
  | Start save_fault StartupEnv Confirmer update_service
  | Follow fault save_fault bool bool string string
  | HostChange bool "(string \<times> staged_dir) list" "(string \<times> string) list" "string option"

definition pending_baseline :: "file_codec \<Rightarrow> update_store \<Rightarrow> string list" where
  "pending_baseline k so =
     (case Load k so of Inl _ \<Rightarrow> [] | Inr st \<Rightarrow> (case us_Pending st of None \<Rightarrow> [] | Some p \<Rightarrow> pd_Baseline p))"

fun node_step :: "file_codec \<Rightarrow> node \<Rightarrow> node_event \<Rightarrow> node" where
  "node_step k n (Look wanted now ms) =
     (case step_look k wanted now ms (nd_store n) (nd_confirmer n) of
        (v, c) \<Rightarrow>
          n\<lparr>nd_confirmer := c, nd_verdict := Some v,
            nd_vouched := (if v = AllHealthy then [(cn_Running c, pending_baseline k (nd_store n), wanted, ms)] else []) @ nd_vouched n\<rparr>)"
| "node_step k n (Act f removed) =
     (case nd_verdict n of
        None \<Rightarrow> n
      | Some v \<Rightarrow> (case step_act k f removed (nd_confirmer n) v (nd_store n) of (_, so) \<Rightarrow> n\<lparr>nd_store := so, nd_verdict := None\<rparr>))"
| "node_step k n (Request w op r body a) =
     (case update_write (w\<lparr>uw_codec := k\<rparr>) (nd_service n) op r body a (nd_store n) of
        (_, t, _, so) \<Rightarrow> n\<lparr>nd_store := so, nd_watches := (case t of None \<Rightarrow> [] | Some w \<Rightarrow> [w]) @ nd_watches n\<rparr>)"
| "node_step k n (HelperTimeout i f) =
     (if i < length (nd_watches n) then n\<lparr>nd_store := awaitHelper k f (nd_watches n ! i) (nd_store n)\<rparr> else n)"
| "node_step k n (Start f e c sv) =
     (case Startup k f e (so_disk (nd_store n)) of
        (_, dk) \<Rightarrow>
          \<lparr>nd_store = NewStore dk, nd_service = sv, nd_confirmer = c, nd_verdict = None,
           nd_watches = (case WatchPending k sv (NewStore dk) of None \<Rightarrow> [] | Some w \<Rightarrow> [w]), nd_vouched = nd_vouched n\<rparr>)"
| "node_step k n (Follow f1 f2 behind installs version cli) =
     n\<lparr>nd_store := snd (FollowCLI k f1 f2 behind installs version cli (nd_store n))\<rparr>"
| "node_step k n (HostChange readable dirs files img) =
     n\<lparr>nd_store := (nd_store n)\<lparr>so_disk := (so_disk (nd_store n))\<lparr>dk_readable := readable, dk_dirs := dirs, dk_files := files, dk_image := img\<rparr>\<rparr>\<rparr>"

definition trusted :: "string set \<Rightarrow> string \<Rightarrow> bool" where
  "trusted V v \<longleftrightarrow> v = Builtin \<or> v \<in> V"

definition state_ok :: "string set \<Rightarrow> State \<Rightarrow> bool" where
  "state_ok V s \<longleftrightarrow> trusted V (us_LastGood s) \<and> (us_Previous s = '''' \<or> trusted V (us_Previous s)) \<and>
     (trusted V (us_Current s) \<or> map_option pd_Version (us_Pending s) = Some (us_Current s))"

definition disk_ok :: "file_codec \<Rightarrow> string set \<Rightarrow> disk \<Rightarrow> bool" where
  "disk_ok k V dk \<longleftrightarrow>
     (\<forall>b s. fs_target (dk_state dk) = Some b \<longrightarrow> dec_state k b = Some s \<longrightarrow> state_ok V (s\<lparr>us_Previous := ''''\<rparr>)) \<and>
     (\<forall>b p. fs_target (dk_previous dk) = Some b \<longrightarrow> b \<noteq> [] \<longrightarrow> dec_previous k b = Some p \<longrightarrow> trusted V (pr_Version p))"

lemma disk_ok_cong:
  "fs_target (dk_state dk') = fs_target (dk_state dk) \<Longrightarrow> fs_target (dk_previous dk') = fs_target (dk_previous dk) \<Longrightarrow>
   disk_ok k V dk' = disk_ok k V dk"
  by (simp add: disk_ok_def)

lemma load_ok: "disk_ok k V dk \<Longrightarrow> LoadState k dk = Inr s \<Longrightarrow> state_ok V s"
  by (erule load_cases) (auto simp: disk_ok_def loadPrevious_def NewState_def state_ok_def trusted_def split: option.splits)

lemma save_ok:
  assumes "codec_ok k" and "disk_ok k V dk" and "state_ok V s"
  shows "disk_ok k V (snd (SaveState k f s dk))"
proof -
  obtain ok dk' where s: "SaveState k f s dk = (ok, dk')" by (metis prod.collapse)
  note o = save_outcome(4,5) [OF s]
  have "state_ok V (s'\<lparr>us_Previous := ''''\<rparr>)" if "dec_state k (enc_state k s @ newline) = Some s'" for s'
    using that assms(1,3) by (auto simp: codec_ok_def state_ok_def)
  moreover have "trusted V (pr_Version p)" if "dec_previous k (previous_bytes k s) = Some p" "previous_bytes k s \<noteq> []" for p
    using that assms(1,3) by (auto simp: codec_ok_def state_ok_def previous_bytes_def split: if_splits)
  ultimately show ?thesis
    using o assms(2) unfolding disk_ok_def s
    by (cases "fs_target (dk_previous dk') = fs_target (dk_previous dk)"; cases "fs_target (dk_state dk') = fs_target (dk_state dk)") auto
qed

definition keeps_ok :: "string set \<Rightarrow> (State \<Rightarrow> update_error + bool \<times> State) \<Rightarrow> bool" where
  "keeps_ok V fn \<longleftrightarrow> (\<forall>st r st'. state_ok V st \<longrightarrow> fn st = Inr (r, st') \<longrightarrow> state_ok V st')"

lemma update_ok:
  assumes "codec_ok k" and "disk_ok k V (so_disk so)"
    and "keeps_ok V fn"
  shows "disk_ok k V (so_disk (snd (Update k f fn so)))"
    and "Update k f fn so = (None, so') \<Longrightarrow> state_ok V (fst (captured k fn so)) \<and> state_ok V (snd (captured k fn so))"
proof -
  show "disk_ok k V (so_disk (snd (Update k f fn so)))"
  proof (cases "LoadState k (so_disk so)")
    case (Inr st)
    show ?thesis
    proof (cases "fn st")
      case fn: (Inr r)
      then obtain restart st' where r: "fn st = Inr (restart, st')" by (cases r) simp
      have "disk_ok k V (snd (SaveState k f st' (so_disk so)))"
        using save_ok [OF assms(1,2)] assms(3) load_ok [OF assms(2) Inr] r unfolding keeps_ok_def by blast
      then show ?thesis using assms(2) Inr r by (auto simp: Update_def split: prod.split bool.split)
    qed (use assms(2) Inr in \<open>simp add: Update_def\<close>)
  qed (use assms(2) in \<open>simp add: Update_def\<close>)
  show "state_ok V (fst (captured k fn so)) \<and> state_ok V (snd (captured k fn so))" if "Update k f fn so = (None, so')"
    using that assms(3) load_ok [OF assms(2)] unfolding keeps_ok_def
    by (auto simp: Update_def captured_def split: if_splits sum.splits prod.splits bool.splits)
qed

lemma transitions_ok:
  "running \<in> V \<Longrightarrow> keeps_ok V (confirm_state running)"
  "keeps_ok V (give_up_state running managed)"
  "keeps_ok V (activate_state v baseline managed)"
  "keeps_ok V (rollback_state k dk managed)"
  "state_ok V prior \<Longrightarrow> keeps_ok V (restore_state prior nxt)"
  "keeps_ok V (follow_state path digest)"
  unfolding keeps_ok_def
  subgoal by (auto simp: confirm_state_def state_ok_def owns_def trusted_def Let_def split: if_splits option.splits)
  subgoal by (auto simp: give_up_state_def state_ok_def split: if_splits)
  subgoal by (auto simp: activate_state_def state_ok_def)
  subgoal by (auto simp: rollback_state_def state_ok_def split: if_splits)
  subgoal by (auto simp: restore_state_def state_ok_def split: if_splits)
  subgoal by (auto simp: follow_state_def state_ok_def split: if_splits option.splits)
  done

lemma state_ok_moves:
  assumes "state_ok V s"
  shows "state_ok V (s\<lparr>us_Current := us_LastGood s, us_Pending := None\<rparr>)" "state_ok V (s\<lparr>us_Current := Builtin, us_Pending := None\<rparr>)"
    and "us_Pending s = Some p \<Longrightarrow> state_ok V (s\<lparr>us_Pending := Some (p\<lparr>pd_Attempts := a\<rparr>)\<rparr>)"
    and "state_ok V (NewState\<lparr>us_Launcher := l\<rparr>)" "state_ok V (s\<lparr>us_Launcher := l\<rparr>)"
  using assms by (simp_all add: state_ok_def NewState_def trusted_def)

lemma decide_ok:
  assumes "state_ok V s"
  shows "state_ok V (de_State (decide s running followed staged))" and "state_ok V (de_State (DecideManaged s running))"
proof -
  have run: "state_ok V (de_State (run_staged staged s changed))" if "state_ok V s" for s changed
    using that by (auto simp: run_staged_def stay_def state_ok_def trusted_def Let_def split: sum.splits)
  have floor: "state_ok V (de_State (decide_floor s changed running followed staged))" if "state_ok V s" for s changed running
    using that run state_ok_moves [OF that] by (simp add: decide_floor_def stay_def Let_def split: option.split)
  show "state_ok V (de_State (decide s running followed staged))"
    using assms floor state_ok_moves [OF assms] by (simp add: decide_def stay_def Let_def split: option.split)
  show "state_ok V (de_State (DecideManaged s running))"
    using assms state_ok_moves [OF assms] by (simp add: DecideManaged_def stay_def Let_def split: option.split)
qed

text \<open>The state the launcher decides from, and its decision.\<close>

definition launched :: "State \<Rightarrow> Launcher \<Rightarrow> State" where
  "launched s self = (if us_Launcher s \<noteq> Some self then s\<lparr>us_Launcher := Some self\<rparr> else s)"

definition startup_decision :: "file_codec \<Rightarrow> StartupEnv \<Rightarrow> Launcher \<Rightarrow> disk \<Rightarrow> State \<Rightarrow> Decision" where
  "startup_decision k e self dk s =
     (if se_Managed e then DecideManaged (launched s self) (se_Running e)
      else decide (launched s self) (se_Running e)
        (case loadCLIRecord k dk of None \<Rightarrow> False | Some r \<Rightarrow> cl_Version r = se_Running e \<and> cl_SHA256 r = la_SHA256 self)
        (Binary k dk))"

lemma startup_cases:
  assumes "LoadState k dk = Inr s" and "\<not> se_HandedOver e" and "se_Self e = Some self"
  shows "Startup k f e dk =
    (let d = startup_decision k e self dk s
     in if de_Changed d \<or> us_Launcher s \<noteq> Some self then
          (case SaveState k f (de_State d) dk of (False, dk) \<Rightarrow> (Inl ErrSave, dk) | (True, dk) \<Rightarrow> (Inr (de_Exec d), dk))
        else (Inr (de_Exec d), dk))"
  using assms unfolding Startup_def startup_decision_def launched_def Let_def by simp

lemma startup_ok:
  assumes "codec_ok k" and "disk_ok k V dk"
  shows "disk_ok k V (snd (Startup k f e dk))"
proof (cases "\<exists>s self. LoadState k dk = Inr s \<and> \<not> se_HandedOver e \<and> se_Self e = Some self")
  case True
  then obtain s self where l: "LoadState k dk = Inr s" "\<not> se_HandedOver e" "se_Self e = Some self" by blast
  have "state_ok V (launched s self)"
    using load_ok [OF assms(2) l(1)] state_ok_moves(5) by (simp add: launched_def)
  then have "state_ok V (de_State (startup_decision k e self dk s))" using decide_ok by (simp add: startup_decision_def)
  from save_ok [OF assms this, of f] show ?thesis
    using assms(2) unfolding startup_cases [OF l] Let_def by (auto split: prod.splits bool.splits)
next
  case False
  then have "snd (Startup k f e dk) = dk" by (auto simp: Startup_def split: sum.split option.split)
  then show ?thesis using assms(2) by simp
qed

lemma scan_healthy:
  "baseline_scan wanted m ids h = Inr True \<Longrightarrow>
   h \<and> (\<forall>i\<in>set ids. case m i of None \<Rightarrow> \<not> wanted i | Some b \<Rightarrow> bs_Status b = StatusHealthy)"
  by (induction wanted m ids h rule: baseline_scan.induct) (auto split: option.splits if_splits)

lemma look_healthy:
  assumes "step_look k wanted now ms so c = (AllHealthy, c')"
  shows "cn_Running c' = cn_Running c" and
    "\<forall>i\<in>set (pending_baseline k so). case byID ms i of None \<Rightarrow> \<not> wanted i | Some b \<Rightarrow> bs_Status b = StatusHealthy"
  using assms scan_healthy [of wanted "byID ms" "pending_baseline k so" True]
  by (auto simp: step_look_def step_clock_def pending_baseline_def owns_def Let_def split: sum.splits if_splits option.splits bool.splits)

definition vouched :: "node \<Rightarrow> string set" where
  "vouched n = fst ` set (nd_vouched n)"

text \<open>Every backend of the baseline was healthy, but those the node no longer means to run and no longer has.\<close>

definition saw_healthy :: "string \<times> string list \<times> (string \<Rightarrow> bool) \<times> ModelStatus list \<Rightarrow> bool" where
  "saw_healthy = (\<lambda>(v, baseline, wanted, ms). \<forall>i\<in>set baseline.
     case byID ms i of None \<Rightarrow> \<not> wanted i | Some b \<Rightarrow> bs_Status b = StatusHealthy)"

definition node_ok :: "file_codec \<Rightarrow> node \<Rightarrow> bool" where
  "node_ok k n \<longleftrightarrow>
     disk_ok k (vouched n) (so_disk (nd_store n)) \<and>
     (\<forall>w\<in>set (nd_watches n). state_ok (vouched n) (fst w)) \<and>
     (nd_verdict n = Some AllHealthy \<longrightarrow> cn_Running (nd_confirmer n) \<in> vouched n) \<and>
     (\<forall>x\<in>set (nd_vouched n). saw_healthy x)"

lemma state_ok_mono: "state_ok V s \<Longrightarrow> V \<subseteq> V' \<Longrightarrow> state_ok V' s"
  by (auto simp: state_ok_def trusted_def)

lemma trusted_mono: "trusted V v \<Longrightarrow> V \<subseteq> V' \<Longrightarrow> trusted V' v"
  by (auto simp: trusted_def)

lemma disk_ok_mono: "disk_ok k V dk \<Longrightarrow> V \<subseteq> V' \<Longrightarrow> disk_ok k V' dk"
  unfolding disk_ok_def by (blast intro: state_ok_mono trusted_mono)

lemma act_ok:
  assumes "codec_ok k" and "disk_ok k V (so_disk so)" and "v = AllHealthy \<longrightarrow> cn_Running c \<in> V"
  shows "disk_ok k V (so_disk (snd (step_act k f removed c v so)))"
proof -
  have prune: "disk_ok k V (Prune n s dk) = disk_ok k V dk" for n s dk by (rule disk_ok_cong) (simp_all add: Prune_def Let_def)
  note up = update_ok(1) [OF assms(1,2)]
  show ?thesis
  proof (cases "v = AllHealthy")
    case True
    then show ?thesis
      using up [OF transitions_ok(1) [of "cn_Running c"], where f = f] assms(3) prune
      by (auto simp: step_act_def split: prod.splits option.splits)
  next
    case False
    then show ?thesis
      using up [OF transitions_ok(2) [of _ "cn_Running c" "cn_Managed c"], where f = f] assms(2)
      by (cases v) (auto simp: step_act_def split: prod.splits option.splits)
  qed
qed

lemma transition_ok:
  assumes "codec_ok k" and "disk_ok k V (so_disk so)"
    and "keeps_ok V fn"
    and "transition k f fn so = (res, so')"
  shows "disk_ok k V (so_disk so')" and "res = Inr t \<Longrightarrow> state_ok V (fst t)"
proof -
  obtain err so1 where u: "Update k f fn so = (err, so1)" by (metis prod.collapse)
  have "disk_ok k V (so_disk (snd (Update k f fn so)))" by (rule update_ok(1) [OF assms(1-3)])
  then show "disk_ok k V (so_disk so')" using assms(4) u by (auto simp: transition_def split: option.splits)
  have c: "state_ok V (fst (captured k fn so))" if "err = None"
    using update_ok(2) [OF assms(1-3) u [unfolded that]] by blast
  show "state_ok V (fst t)" if "res = Inr t"
    using that c assms(4) u by (auto simp: transition_def transitionError_def split: option.splits)
qed

lemma activate_cases:
  "(\<exists>code. activate k f sv ms req so = (Inl code, so)) \<or>
   (\<exists>baseline. activate k f sv ms req so = transition k f (activate_state (ur_Version req) baseline (up_Managed sv)) so)"
  by (simp add: activate_def Let_def split: sum.split option.split) blast

lemma write_cases:
  assumes "update_write w sv op r body_in a so = (reply, t, a', so')"
  shows "t = None \<and> so' = so \<or> (\<exists>req. update_op_run w sv op req so = (reply, t, so'))"
proof (cases body_in)
  case (Body body)
  obtain st a1 where "Authorize (uw_crypto w) (uw_loopback w) (uw_now w) r body a = (st, a1)" by (metis prod.collapse)
  then show ?thesis
    using assms Body by (cases st) (auto simp: update_write_def split: if_splits option.splits prod.splits)
qed (use assms in \<open>simp add: update_write_def\<close>)

lemma op_run_ok:
  assumes "codec_ok k" and "disk_ok k V (so_disk so)" and "uw_codec w = k" and "update_op_run w sv op req so = (reply, t, so')"
  shows "disk_ok k V (so_disk so') \<and> (\<forall>u. t = Some u \<longrightarrow> state_ok V (fst u))"
proof (cases op)
  case OpStage
  have "disk_ok k V ((so_disk so)\<lparr>dk_dirs := dirs\<rparr>)" for dirs using assms(2) by (simp add: disk_ok_def)
  then show ?thesis using OpStage assms(2,4) by (auto simp: update_op_run_def stage_def split: prod.splits if_splits)
next
  case OpActivate
  obtain res so1 where r: "activate k (uw_fault w) sv (uw_backends w) req so = (res, so1)" by (metis prod.collapse)
  have "disk_ok k V (so_disk so1) \<and> (\<forall>u. res = Inr u \<longrightarrow> state_ok V (fst u))"
    using activate_cases [of k "uw_fault w" sv "uw_backends w" req so]
  proof (elim disjE exE)
    fix baseline
    assume "activate k (uw_fault w) sv (uw_backends w) req so =
      transition k (uw_fault w) (activate_state (ur_Version req) baseline (up_Managed sv)) so"
    then have "transition k (uw_fault w) (activate_state (ur_Version req) baseline (up_Managed sv)) so = (res, so1)" using r by simp
    then show ?thesis using transition_ok [OF assms(1,2) transitions_ok(3)] by blast
  qed (use r assms(2) in simp)
  then show ?thesis using OpActivate assms(3,4) r by (auto simp: update_op_run_def split: sum.splits)
next
  case OpRollback
  obtain res so1 where r: "rollback k (uw_fault w) sv so = (res, so1)" by (metis prod.collapse)
  have "disk_ok k V (so_disk so1) \<and> (\<forall>u. res = Inr u \<longrightarrow> state_ok V (fst u))"
    using transition_ok [OF assms(1,2) transitions_ok(4) r [unfolded rollback_def]] by blast
  then show ?thesis using OpRollback assms(3,4) r by (auto simp: update_op_run_def split: sum.splits)
qed

lemma request_ok:
  assumes "codec_ok k" and "disk_ok k V (so_disk so)" and "uw_codec w = k"
    and "update_write w sv op r body a so = (reply, t, a', so')"
  shows "disk_ok k V (so_disk so') \<and> (\<forall>u. t = Some u \<longrightarrow> state_ok V (fst u))"
  using write_cases [OF assms(4)] assms(2) op_run_ok [OF assms(1-3)] by blast

lemma follow_ok:
  assumes "codec_ok k" and "disk_ok k V (so_disk so)"
  shows "disk_ok k V (so_disk (snd (FollowCLI k f1 f2 behind installs version cli so)))"
proof -
  have c: "disk_ok k V ((so_disk so)\<lparr>dk_cli := fc\<rparr>)" "disk_ok k V ((so_disk so)\<lparr>dk_cli := fc, dk_files := fl\<rparr>)" for fc fl
    using assms(2) by (simp_all add: disk_ok_def)
  have u: "disk_ok k V (so_disk (snd (Update k f2 (follow_state cli digest) (so\<lparr>so_disk := (so_disk so)\<lparr>dk_cli := fc, dk_files := fl\<rparr>\<rparr>))))"
    for digest fc fl by (rule update_ok(1) [OF assms(1) _ transitions_ok(6)]) (simp add: c)
  show ?thesis
    using assms(2) c u unfolding FollowCLI_def Let_def
    by (auto split: sum.split prod.split bool.split option.split) (metis snd_conv)+
qed

lemma node_step_ok:
  assumes "codec_ok k" and "node_ok k n"
  shows "node_ok k (node_step k n e)"
proof (cases e)
  case (Look wanted now ms)
  obtain v c where l: "step_look k wanted now ms (nd_store n) (nd_confirmer n) = (v, c)" by (metis prod.collapse)
  let ?n = "node_step k n e"
  have sub: "vouched n \<subseteq> vouched ?n" using Look l by (auto simp: vouched_def)
  have "disk_ok k (vouched ?n) (so_disk (nd_store n))" "\<forall>w\<in>set (nd_watches n). state_ok (vouched ?n) (fst w)"
    using assms(2) disk_ok_mono [OF _ sub] state_ok_mono [OF _ sub] unfolding node_ok_def by blast+
  moreover have "cn_Running c \<in> vouched ?n" if "v = AllHealthy" using that Look l by (simp add: vouched_def)
  moreover have "saw_healthy (cn_Running c, pending_baseline k (nd_store n), wanted, ms)"
    if "v = AllHealthy" using look_healthy(2) l that by (auto simp: saw_healthy_def)
  ultimately show ?thesis using assms(2) Look l by (auto simp: node_ok_def)
next
  case (Act f removed)
  show ?thesis
  proof (cases "nd_verdict n")
    case (Some v)
    obtain r so where a: "step_act k f removed (nd_confirmer n) v (nd_store n) = (r, so)" by (metis prod.collapse)
    have "disk_ok k (vouched n) (so_disk so)"
      using act_ok [OF assms(1), of "vouched n" "nd_store n" v "nd_confirmer n" f removed] assms(2) Some a by (simp add: node_ok_def)
    then show ?thesis using assms(2) Act Some a by (simp add: node_ok_def vouched_def)
  qed (use assms(2) Act in simp)
next
  case (Request w op r body a)
  obtain reply t a' so where u: "update_write (w\<lparr>uw_codec := k\<rparr>) (nd_service n) op r body a (nd_store n) = (reply, t, a', so)"
    by (metis prod.collapse)
  have "disk_ok k (vouched n) (so_disk (nd_store n))" using assms(2) by (simp add: node_ok_def)
  from request_ok [OF assms(1) this _ u] show ?thesis
    using assms(2) Request u by (auto simp: node_ok_def vouched_def split: option.splits)
next
  case (HelperTimeout i f)
  show ?thesis
  proof (cases "i < length (nd_watches n)")
    case True
    obtain prior nxt where w: "nd_watches n ! i = (prior, nxt)" by (cases "nd_watches n ! i")
    then have "state_ok (vouched n) prior" using assms(2) True nth_mem [OF True] by (fastforce simp: node_ok_def)
    moreover have "disk_ok k (vouched n) (so_disk (nd_store n))" using assms(2) by (simp add: node_ok_def)
    ultimately show ?thesis
      using assms True HelperTimeout w update_ok(1) [OF assms(1) _ transitions_ok(5), of "vouched n" "nd_store n"]
      by (simp add: node_ok_def awaitHelper_def vouched_def)
  qed (use assms(2) HelperTimeout in simp)
next
  case (Start f env c sv)
  obtain res dk where s: "Startup k f env (so_disk (nd_store n)) = (res, dk)" by (metis prod.collapse)
  have d: "disk_ok k (vouched n) dk" using startup_ok [OF assms(1), of "vouched n" "so_disk (nd_store n)" f env] assms(2) s by (simp add: node_ok_def)
  have "state_ok (vouched n) (fst w)" if "WatchPending k sv (NewStore dk) = Some w" for w
    using that load_ok [OF d] state_ok_moves(1)
    by (auto simp: WatchPending_def Load_def NewStore_def split: if_splits sum.splits option.splits)
  then show ?thesis
    using assms(2) Start s d by (cases "WatchPending k sv (NewStore dk)") (auto simp: node_ok_def vouched_def NewStore_def)
next
  case (Follow f1 f2 behind installs version cli)
  then show ?thesis using assms(2) follow_ok [OF assms(1), of "vouched n" "nd_store n"] by (simp add: node_ok_def vouched_def)
next
  case (HostChange readable dirs files img)
  then show ?thesis using assms(2) by (simp add: node_ok_def vouched_def disk_ok_def)
qed

interpretation node_life: invariant_machine "node_step k" "\<lambda>n. codec_ok k \<longrightarrow> node_ok k n" "\<lambda>_. ()" for k
  by unfold_locales (simp_all add: node_step_ok)

text \<open>A node that has never staged anything.\<close>

definition fresh_disk :: disk where
  "fresh_disk = \<lparr>dk_state = \<lparr>fs_target = None, fs_tmp = None\<rparr>, dk_previous = \<lparr>fs_target = None, fs_tmp = None\<rparr>,
     dk_cli = \<lparr>fs_target = None, fs_tmp = None\<rparr>, dk_image = None, dk_readable = True, dk_dirs = [], dk_files = []\<rparr>"

definition fresh_node :: "update_service \<Rightarrow> Confirmer \<Rightarrow> node" where
  "fresh_node sv c = \<lparr>nd_store = NewStore fresh_disk, nd_service = sv, nd_confirmer = c, nd_verdict = None, nd_watches = [], nd_vouched = []\<rparr>"

text \<open>C5. A node returns only to a release that proved itself. Whatever happens to a node from its first start on, in whatever order the confirmer, the operators, the host's helper and restarts
  interleave and whichever writes fail: the last good release and the one before it are the built-in binary or a release
  that a confirmer running it, while it was pending, saw bring every backend of its baseline back to health; and the
  node starts another release only while that is pending, on probation.\<close>

theorem last_good_was_confirmed:
  assumes "codec_ok k" and "n = run_events (node_step k) (fresh_node sv c) es" and "LoadState k (so_disk (nd_store n)) = Inr s"
  shows "(us_LastGood s = Builtin \<or> (\<exists>x\<in>set (nd_vouched n). fst x = us_LastGood s \<and> saw_healthy x)) \<and>
    (us_Previous s = '''' \<or> us_Previous s = Builtin \<or> (\<exists>x\<in>set (nd_vouched n). fst x = us_Previous s \<and> saw_healthy x)) \<and>
    (us_Current s = Builtin \<or> (\<exists>x\<in>set (nd_vouched n). fst x = us_Current s \<and> saw_healthy x) \<or>
     (\<exists>p. us_Pending s = Some p \<and> pd_Version p = us_Current s))"
proof -
  have "node_ok k (fresh_node sv c)"
    by (simp add: node_ok_def fresh_node_def NewStore_def fresh_disk_def disk_ok_def)
  then have ok: "node_ok k n" using node_life.run_keeps [of k "fresh_node sv c" es] assms(1,2) by simp
  then have "state_ok (vouched n) s" using load_ok assms(3) by (auto simp: node_ok_def)
  moreover have "v = Builtin \<or> (\<exists>x\<in>set (nd_vouched n). fst x = v \<and> saw_healthy x)" if "trusted (vouched n) v" for v
    using that ok by (auto simp: trusted_def vouched_def node_ok_def)
  ultimately show ?thesis unfolding state_ok_def by auto
qed

section \<open>A release that never confirms\<close>

lemma loaded_names: "LoadState k dk = Inr s \<Longrightarrow> names_ok s"
  by (erule load_cases) (auto simp: names_ok_def NewState_def validName_def)

lemma loaded_previous: "LoadState k dk = Inr s \<Longrightarrow> kept_previous s = us_Previous s"
  by (erule load_cases) (auto simp: kept_previous_def loadPrevious_def NewState_def split: option.splits if_splits)

lemma save_no_fault: "\<exists>dk'. SaveState k (True, None, None) s dk = (True, dk')"
  by (simp add: SaveState_def write_file_no_fault Let_def)

lemma binary_cong: "dk_dirs dk' = dk_dirs dk \<Longrightarrow> Binary k dk' = Binary k dk"
  by (simp add: Binary_def fun_eq_iff)

text \<open>One start of a launcher that is older than the pending release.\<close>

lemma pending_start:
  assumes "codec_ok k" and "dk_readable dk" and "LoadState k dk = Inr s"
    and "us_Pending s = Some p" and "pd_Version p = us_Current s" and "ValidVersion (us_Current s)"
    and "\<not> se_HandedOver e" and "\<not> se_Managed e" and "se_Self e = Some self"
    and "Compare (se_Running e) (us_Current s) \<in> {None, Some (- 1)}" and "se_Running e \<noteq> us_Current s"
    and "Binary k dk (us_Current s) = Inr path" and "us_LastGood s = Builtin \<or> Binary k dk (us_LastGood s) = Inr good"
  obtains dk' where
    "Startup k (True, None, None) e dk =
      (Inr (if pd_Attempts p + 1 < maxAttempts then path else if us_LastGood s = Builtin then '''' else good), dk')"
    "LoadState k dk' = Inr (if pd_Attempts p + 1 < maxAttempts
       then s\<lparr>us_Launcher := Some self, us_Pending := Some (p\<lparr>pd_Attempts := pd_Attempts p + 1\<rparr>)\<rparr>
       else s\<lparr>us_Launcher := Some self, us_Current := us_LastGood s, us_Pending := None\<rparr>)"
    "dk_readable dk'" "dk_dirs dk' = dk_dirs dk"
proof -
  let ?more = "pd_Attempts p + 1 < maxAttempts"
  let ?s = "if ?more then s\<lparr>us_Launcher := Some self, us_Pending := Some (p\<lparr>pd_Attempts := pd_Attempts p + 1\<rparr>)\<rparr>
       else s\<lparr>us_Launcher := Some self, us_Current := us_LastGood s, us_Pending := None\<rparr>"
  let ?x = "if ?more then path else if us_LastGood s = Builtin then '''' else good"
  have l: "launched s self = s\<lparr>us_Launcher := Some self\<rparr>" by (auto simp: launched_def)
  have b: "us_Current s \<noteq> Builtin"
    using assms(6) by (auto simp: Builtin_def ValidVersion_def match_version_def version_groups_def)
  have old: "\<not> (case Compare (se_Running e) (us_Current s) of None \<Rightarrow> False | Some c \<Rightarrow> 0 \<le> c)" using assms(10) by auto
  have d: "startup_decision k e self dk s = \<lparr>de_Exec = ?x, de_State = ?s, de_Changed = True\<rparr>"
    using assms(4,5,8,11-13) b old
    by (auto simp: startup_decision_def l decide_def decide_floor_def run_staged_def stay_def Let_def not_less)
  obtain dk' where save: "SaveState k (True, None, None) ?s dk = (True, dk')" using save_no_fault by blast
  note o = save_outcome [OF save]
  have n: "names_ok ?s" using loaded_names [OF assms(3)] assms(4) by (simp add: names_ok_def)
  have kp: "kept_previous ?s = us_Previous ?s" using loaded_previous [OF assms(3)] by (auto simp: kept_previous_def split: if_splits)
  have "LoadState k dk' = Inr (?s\<lparr>us_Previous := kept_previous ?s\<rparr>)"
    using load_saved [OF assms(1) _ n] o(1,7) assms(2) by simp
  then have "LoadState k dk' = Inr ?s" unfolding kp by simp
  moreover have "Startup k (True, None, None) e dk = (Inr ?x, dk')"
    unfolding startup_cases [OF assms(3,7,9)] d by (simp add: save)
  ultimately show ?thesis using that o(1,2) assms(2) by simp
qed


section \<open>A node at work\<close>

text \<open>A codec that loses nothing: words with every character marked, each closed by a zero.\<close>

definition words_text :: "string list \<Rightarrow> string" where
  "words_text ws = concat (map (\<lambda>w. concat (map (\<lambda>c. [CHR 0x01, c]) w) @ [CHR 0x00]) ws)"

fun text_words :: "string \<Rightarrow> string \<Rightarrow> string list" where
  "text_words w (c # d # cs) =
     (if c = CHR 0x01 then text_words (w @ [d]) cs else if c = CHR 0x00 then w # text_words [] (d # cs) else [])"
| "text_words w [c] = (if c = CHR 0x00 then [w] else [])"
| "text_words w [] = []"

lemma text_words_word: "text_words u (concat (map (\<lambda>c. [CHR 0x01, c]) w) @ CHR 0x00 # d # cs) = (u @ w) # text_words [] (d # cs)"
  by (induction w arbitrary: u) simp_all

lemma words_text_back: "text_words [] (words_text ws @ newline) = ws"
proof (induction ws)
  case (Cons w ws)
  obtain d cs where "words_text ws @ newline = d # cs" by (metis append_is_Nil_conv newline_not_empty list.exhaust)
  then show ?case using Cons text_words_word [of "[]" w d cs] by (simp add: words_text_def)
qed (simp add: words_text_def newline_def)

definition int_word :: "int \<Rightarrow> string" where
  "int_word i = (if i < 0 then ''-'' else ''+'') @ replicate (nat \<bar>i\<bar>) (CHR ''1'')"

definition word_int :: "string \<Rightarrow> int" where
  "word_int w = (if take 1 w = ''-'' then - int (length (tl w)) else int (length (tl w)))"

definition state_words :: "State \<Rightarrow> string list" where
  "state_words s = [us_Current s, us_LastGood s] @
     (case us_Launcher s of None \<Rightarrow> [''''] | Some l \<Rightarrow> [''l'', la_Path l, la_SHA256 l]) @
     (case us_Pending s of None \<Rightarrow> [] | Some p \<Rightarrow> pd_Version p # int_word (pd_Attempts p) # pd_Baseline p)"

definition words_pending :: "string list \<Rightarrow> Pending option" where
  "words_pending ws = (case ws of v # a # b \<Rightarrow> Some \<lparr>pd_Version = v, pd_Attempts = word_int a, pd_Baseline = b\<rparr> | _ \<Rightarrow> None)"

definition words_state :: "string list \<Rightarrow> State option" where
  "words_state ws =
     (case ws of
        c # g # l # ws \<Rightarrow>
          Some \<lparr>us_Current = c, us_LastGood = g, us_Pending = words_pending (if l = '''' then ws else drop 2 ws),
            us_Launcher = (if l = '''' then None else Some \<lparr>la_Path = ws ! 0, la_SHA256 = ws ! 1\<rparr>), us_Previous = ''''\<rparr>
      | _ \<Rightarrow> None)"

definition sample_codec :: file_codec where
  "sample_codec = \<lparr>enc_state = (\<lambda>s. words_text (state_words s)), dec_state = (\<lambda>b. words_state (text_words [] b)),
     enc_previous = (\<lambda>p. words_text [pr_Version p, pr_Before p]),
     dec_previous = (\<lambda>b. case text_words [] b of [v, g] \<Rightarrow> Some \<lparr>pr_Version = v, pr_Before = g\<rparr> | _ \<Rightarrow> None),
     enc_cli = (\<lambda>_. ''''), dec_cli = (\<lambda>_. None), dec_image = (\<lambda>_. None), sha256 = (\<lambda>data. data)\<rparr>"

lemma sample_codec_ok: "codec_ok sample_codec"
proof -
  have i: "word_int (int_word i) = i" for i by (simp add: word_int_def int_word_def)
  have "words_state (state_words s) = Some (s\<lparr>us_Previous := ''''\<rparr>)" for s
  proof -
    have p: "words_pending (case us_Pending s of None \<Rightarrow> [] | Some p \<Rightarrow> pd_Version p # int_word (pd_Attempts p) # pd_Baseline p) = us_Pending s"
      by (simp add: words_pending_def i split: option.split)
    show ?thesis by (cases "us_Launcher s") (simp_all add: words_state_def state_words_def p)
  qed
  then show ?thesis by (simp add: codec_ok_def sample_codec_def words_text_back)
qed

definition sample_pending :: State where
  "sample_pending = NewState\<lparr>us_Current := ''v1.0.0'', us_Pending := Some \<lparr>pd_Version = ''v1.0.0'', pd_Attempts = 0, pd_Baseline = []\<rparr>\<rparr>"

definition staged_disk :: disk where
  "staged_disk = fresh_disk\<lparr>dk_dirs := [(''v1.0.0'', \<lparr>sd_isDir = True, sd_sum = Some (''b'' @ newline), sd_bin = Some ''b''\<rparr>)]\<rparr>"

lemma sample_valid: "ValidVersion ''v1.0.0''"
  by (simp add: ValidVersion_def match_version_def version_groups_def is_digit_def Let_def)

lemma sample_names: "names_ok sample_pending"
  by (simp add: names_ok_def sample_pending_def NewState_def validName_def sample_valid)


definition sample_env :: StartupEnv where
  "sample_env = \<lparr>se_Running = ''dev'', se_HandedOver = False, se_Managed = False, se_Self = Some \<lparr>la_Path = ''/viiwork'', la_SHA256 = ''f''\<rparr>\<rparr>"

lemma sample_binary: "dk_dirs dk = dk_dirs staged_disk \<Longrightarrow> Binary sample_codec dk ''v1.0.0'' = Inr ''v1.0.0/viiwork''"
  by (simp add: Binary_def sample_valid staged_disk_def sample_codec_def TrimSpace_def newline_def ascii_space_def)


definition sample_update_world :: update_world where
  "sample_update_world = \<lparr>uw_codec = sample_codec, uw_fault = (True, None, None),
     uw_decode = (\<lambda>_. Some \<lparr>ur_Version = ''v1.0.0'', ur_AllowDowngrade = False\<rparr>), uw_crypto = sample_crypto, uw_loopback = (\<lambda>h. h = ''127.0.0.1''),
     uw_now = 0, uw_backends = [], uw_busy = False, uw_stager = (\<lambda>_ dirs. (StageFailed, dirs))\<rparr>"

definition sample_sv :: "string \<Rightarrow> update_service" where
  "sample_sv running = \<lparr>up_Enabled = True, up_Running = running, up_Managed = False\<rparr>"

definition sample_confirmer :: "string \<Rightarrow> Confirmer" where
  "sample_confirmer running = \<lparr>cn_Running = running, cn_Window = minute, cn_Managed = False, cn_deadline = zero_time, cn_last = zero_time\<rparr>"

definition sample_life :: "node_event list" where
  "sample_life = [HostChange True (dk_dirs staged_disk) [] None, Request sample_update_world OpActivate sample_put (Body ''{}'') sample_open,
     Start (True, None, None) sample_env (sample_confirmer ''v1.0.0'') (sample_sv ''v1.0.0''), Look (\<lambda>_. True) 0 [], Act (True, None, None) 0]"

lemma sample_life_state:
  "map_sum id us_LastGood (LoadState sample_codec (so_disk (nd_store
     (run_events (node_step sample_codec) (fresh_node (sample_sv ''dev'') (sample_confirmer ''dev'')) sample_life)))) = Inr ''v1.0.0''"
  by code_simp

theorem last_good_was_confirmed_witness:
  "\<exists>x\<in>set (nd_vouched (run_events (node_step sample_codec) (fresh_node (sample_sv ''dev'') (sample_confirmer ''dev'')) sample_life)).
     fst x = ''v1.0.0'' \<and> saw_healthy x"
proof -
  let ?n = "run_events (node_step sample_codec) (fresh_node (sample_sv ''dev'') (sample_confirmer ''dev'')) sample_life"
  obtain s where l: "LoadState sample_codec (so_disk (nd_store ?n)) = Inr s" "us_LastGood s = ''v1.0.0''"
    using sample_life_state by (cases "LoadState sample_codec (so_disk (nd_store ?n))") auto
  from last_good_was_confirmed [OF sample_codec_ok refl l(1)] show ?thesis unfolding l(2) by (simp add: Builtin_def)
qed

end
