(* ===== verification/EnergyRing.thy ===== *)
theory EnergyRing
  imports GoText "HOL-Library.Product_Lexorder"
begin

text \<open>
  The energy history on disk (\<open>energy/record.go\<close>, \<open>ring.go\<close> and the reading side of \<open>store.go\<close>): fixed-size records in a file that is a ring
  of slots, the slot of a bucket being its number modulo the length of the ring. A file is its bytes; a \<open>float32\<close> is its bit pattern,
  which the codec moves unchanged. The ring is shown to refine a map from buckets to records that forgets a bucket when a later lap overwrites it.
\<close>

section \<open>Little-endian numbers\<close>

fun le :: "nat \<Rightarrow> nat \<Rightarrow> string" where
  "le 0 v = []"
| "le (Suc n) v = char_of (v mod 256) # le n (v div 256)"

fun le_value :: "string \<Rightarrow> nat" where
  "le_value [] = 0"
| "le_value (b # bs) = of_char b + 256 * le_value bs"

text \<open>An \<open>int64\<close> as the \<open>uint64\<close> with the same bits, and back.\<close>

definition to_uint64 :: "int \<Rightarrow> nat" where
  "to_uint64 i = nat (i mod 2 ^ 64)"

definition to_int64 :: "nat \<Rightarrow> int" where
  "to_int64 n = (if n < 2 ^ 63 then int n else int n - 2 ^ 64)"

section \<open>Records\<close>

definition NodeRecordSize :: nat where "NodeRecordSize = 16"

definition GPURecordSize :: nat where "GPURecordSize = 24"

record NodeRecord =
  nr_TS :: int
  nr_Watts :: "32 word"
  nr_CoveredS :: "16 word"

record GPURecord =
  gr_TS :: int
  gr_GPUID :: "16 word"
  gr_ModelIdx :: "16 word"
  gr_AttrW :: "32 word"
  gr_RawW :: "32 word"
  gr_CoveredS :: "16 word"

definition encode_node :: "NodeRecord \<Rightarrow> string" where
  "encode_node r = le 8 (to_uint64 (nr_TS r)) @ le 4 (unat (nr_Watts r)) @ le 2 (unat (nr_CoveredS r)) @ le 2 0"

definition decodeNode :: "string \<Rightarrow> NodeRecord" where
  "decodeNode b =
     \<lparr>nr_TS = to_int64 (le_value (take 8 b)), nr_Watts = of_nat (le_value (take 4 (drop 8 b))),
      nr_CoveredS = of_nat (le_value (take 2 (drop 12 b)))\<rparr>"

definition encode_gpu :: "GPURecord \<Rightarrow> string" where
  "encode_gpu r =
     le 8 (to_uint64 (gr_TS r)) @ le 2 (unat (gr_GPUID r)) @ le 2 (unat (gr_ModelIdx r)) @ le 4 (unat (gr_AttrW r)) @
     le 4 (unat (gr_RawW r)) @ le 2 (unat (gr_CoveredS r)) @ le 2 0"

definition decodeGPU :: "string \<Rightarrow> GPURecord" where
  "decodeGPU b =
     \<lparr>gr_TS = to_int64 (le_value (take 8 b)), gr_GPUID = of_nat (le_value (take 2 (drop 8 b))),
      gr_ModelIdx = of_nat (le_value (take 2 (drop 10 b))), gr_AttrW = of_nat (le_value (take 4 (drop 12 b))),
      gr_RawW = of_nat (le_value (take 4 (drop 16 b))), gr_CoveredS = of_nat (le_value (take 2 (drop 20 b)))\<rparr>"

section \<open>The ring\<close>

definition ringMagic :: string where "ringMagic = ''VIIWENG1''"

definition ringHeaderLen :: nat where "ringHeaderLen = 32"

record ring =
  rg_file :: string
  rg_slots :: nat
  rg_lanes :: nat
  rg_recSize :: nat
  rg_period :: int

record ringHeader =
  rh_magic :: string
  rh_recSize :: nat
  rh_slots :: nat
  rh_lanes :: nat

definition readHeader :: "string \<Rightarrow> ringHeader option" where
  "readHeader f =
     (if length f < ringHeaderLen then None
      else Some \<lparr>rh_magic = take 8 f, rh_recSize = le_value (take 2 (drop 8 f)), rh_slots = le_value (take 4 (drop 10 f)),
             rh_lanes = le_value (take 4 (drop 14 f))\<rparr>)"

definition ring_size :: "nat \<Rightarrow> nat \<Rightarrow> nat \<Rightarrow> nat" where
  "ring_size slots lanes recSize = ringHeaderLen + slots * lanes * recSize"

definition reinit :: "ring \<Rightarrow> ring" where
  "reinit r =
     r\<lparr>rg_file := ringMagic @ le 2 (rg_recSize r) @ le 4 (rg_slots r) @ le 4 (rg_lanes r) @ replicate 14 (CHR 0x00) @
       replicate (rg_slots r * rg_lanes r * rg_recSize r) (CHR 0x00)\<rparr>"

datatype ring_error = BadGeometry | HeaderUnreadable | ForeignFormat string | OtherRecordSize nat | LaneRange | SlotLength | ShortRead

text \<open>The bytes found are an argument, none for a file just created; the flag says that an existing history was discarded.\<close>

definition openRing :: "string \<Rightarrow> nat \<Rightarrow> nat \<Rightarrow> nat \<Rightarrow> ring_error + ring \<times> bool" where
  "openRing found slots lanes recSize =
     (if slots < 1 \<or> lanes < 1 then Inl BadGeometry
      else
        let r = \<lparr>rg_file = found, rg_slots = slots, rg_lanes = lanes, rg_recSize = recSize, rg_period = 0\<rparr> in
        if found = [] then Inr (reinit r, False)
        else
          case readHeader found of
            None \<Rightarrow> Inl HeaderUnreadable
          | Some h \<Rightarrow>
              if rh_magic h \<noteq> ringMagic then Inl (ForeignFormat (rh_magic h))
              else if rh_recSize h \<noteq> recSize then Inl (OtherRecordSize (rh_recSize h))
              else if rh_slots h = slots \<and> rh_lanes h = lanes \<and> length found = ring_size slots lanes recSize then Inr (r, False)
              else Inr (reinit r, True))"

definition offset :: "ring \<Rightarrow> nat \<Rightarrow> nat \<Rightarrow> nat" where
  "offset r slot lane = ringHeaderLen + (slot * rg_lanes r + lane) * rg_recSize r"

definition WriteAt :: "string \<Rightarrow> nat \<Rightarrow> string \<Rightarrow> string" where
  "WriteAt buf off f = take off (f @ replicate (off - length f) (CHR 0x00)) @ buf @ drop (off + length buf) f"

definition ReadAt :: "nat \<Rightarrow> nat \<Rightarrow> string \<Rightarrow> string option" where
  "ReadAt n off f = (if off + n \<le> length f then Some (take n (drop off f)) else None)"

definition go_rem :: "int \<Rightarrow> int \<Rightarrow> int" where
  "go_rem a b = a - b * go_div a b"

definition mod_slots :: "int \<Rightarrow> int \<Rightarrow> int" where
  "mod_slots a b = (let m = go_rem a b in if m < 0 then m + b else m)"

definition put :: "int \<Rightarrow> int \<Rightarrow> string \<Rightarrow> ring \<Rightarrow> ring_error + ring" where
  "put bucket lane buf r =
     (if lane < 0 \<or> lane \<ge> int (rg_lanes r) then Inl LaneRange
      else Inr (r\<lparr>rg_file := WriteAt buf (offset r (nat (mod_slots bucket (int (rg_slots r)))) (nat lane)) (rg_file r)\<rparr>))"

definition putSlot :: "int \<Rightarrow> string \<Rightarrow> ring \<Rightarrow> ring_error + ring" where
  "putSlot bucket buf r =
     (if length buf \<noteq> rg_lanes r * rg_recSize r then Inl SlotLength
      else Inr (r\<lparr>rg_file := WriteAt buf (offset r (nat (mod_slots bucket (int (rg_slots r)))) 0) (rg_file r)\<rparr>))"

definition ring_all :: "ring \<Rightarrow> string option" where
  "ring_all r = ReadAt (rg_slots r * rg_lanes r * rg_recSize r) ringHeaderLen (rg_file r)"

definition ring_span :: "int \<Rightarrow> int \<Rightarrow> ring \<Rightarrow> string option" where
  "ring_span lo hi r =
     (if hi < lo then Some []
      else if hi - lo + 1 \<ge> int (rg_slots r) then ring_all r
      else
        let n = nat (hi - lo + 1);
            start = nat (mod_slots lo (int (rg_slots r)));
            slotBytes = rg_lanes r * rg_recSize r;
            first = min n (rg_slots r - start)
        in case ReadAt (first * slotBytes) (offset r start 0) (rg_file r) of
             None \<Rightarrow> None
           | Some a \<Rightarrow>
               if first < n then
                 (case ReadAt ((n - first) * slotBytes) (offset r 0 0) (rg_file r) of None \<Rightarrow> None | Some b \<Rightarrow> Some (a @ b))
               else Some a)"

definition window :: "int \<Rightarrow> int \<Rightarrow> ring \<Rightarrow> string option" where
  "window lo hi r =
     (if hi \<le> lo then Some []
      else if rg_period r \<le> 0 then ring_all r
      else ring_span (go_div lo (rg_period r)) (go_div (hi - 1) (rg_period r)) r)"

section \<open>Reading\<close>

text \<open>The records of a buffer, as the reading loops cut it; a rest shorter than a record is left.\<close>

function chunks :: "nat \<Rightarrow> string \<Rightarrow> string list" where
  "chunks n b = (if n = 0 \<or> length b < n then [] else take n b # chunks n (drop n b))"
  by auto
termination by (relation "measure (\<lambda>(n, b). length b)") auto

declare chunks.simps [simp del]

definition readNodeRange :: "ring \<Rightarrow> int \<Rightarrow> int \<Rightarrow> NodeRecord list" where
  "readNodeRange r lo hi =
     (case window lo hi r of
        None \<Rightarrow> []
      | Some buf \<Rightarrow> sort_key nr_TS (filter (\<lambda>rec. lo \<le> nr_TS rec \<and> nr_TS rec < hi) (map decodeNode (chunks NodeRecordSize buf))))"

definition readGPURange :: "ring \<Rightarrow> int \<Rightarrow> int \<Rightarrow> GPURecord list" where
  "readGPURange r lo hi =
     (case window lo hi r of
        None \<Rightarrow> []
      | Some buf \<Rightarrow>
          sort_key (\<lambda>rec. (gr_TS rec, uint (gr_GPUID rec)))
            (filter (\<lambda>rec. lo \<le> gr_TS rec \<and> gr_TS rec < hi) (map decodeGPU (chunks GPURecordSize buf))))"

section \<open>Codecs\<close>

lemma le_length [simp]: "length (le n v) = n"
  by (induction n arbitrary: v) simp_all

lemma le_round_trip: "v < 256 ^ n \<Longrightarrow> le_value (le n v) = v"
proof (induction n arbitrary: v)
  case (Suc n)
  then have "v div 256 < 256 ^ n" by (simp add: less_mult_imp_div_less mult.commute)
  then show ?case using Suc.IH by simp
qed simp

lemma le_word: "le_value (le 4 (unat (w :: 32 word))) = unat w" "le_value (le 2 (unat (x :: 16 word))) = unat x"
  using unsigned_less [of w, where ?'a = nat] unsigned_less [of x, where ?'a = nat] by (simp_all add: le_round_trip)

lemma int64_round_trip: "- (2 ^ 63) \<le> i \<Longrightarrow> i < 2 ^ 63 \<Longrightarrow> to_int64 (le_value (le 8 (to_uint64 i))) = i"
proof -
  assume i: "- (2 ^ 63) \<le> i" "i < 2 ^ 63"
  have "to_uint64 i < 256 ^ 8" by (simp add: to_uint64_def nat_less_iff)
  moreover have "i mod 2 ^ 64 = (if i < 0 then i + 2 ^ 64 else i)"
  proof (cases "i < 0")
    case True
    have "(i + 2 ^ 64) mod 2 ^ 64 = i + 2 ^ 64" by (rule mod_pos_pos_trivial) (use i True in simp_all)
    then show ?thesis using True by (simp only: mod_add_self2 if_True)
  qed (use i in simp)
  ultimately show ?thesis using i by (auto simp: le_round_trip to_int64_def to_uint64_def)
qed

lemma node_length [simp]: "length (encode_node r) = NodeRecordSize"
  by (simp add: encode_node_def NodeRecordSize_def)

lemma gpu_length [simp]: "length (encode_gpu r) = GPURecordSize"
  by (simp add: encode_gpu_def GPURecordSize_def)

definition int64 :: "int \<Rightarrow> bool" where
  "int64 i \<longleftrightarrow> - (2 ^ 63) \<le> i \<and> i < 2 ^ 63"

lemma node_round_trip: "int64 (nr_TS r) \<Longrightarrow> decodeNode (encode_node r) = r"
  by (simp add: int64_def decodeNode_def encode_node_def int64_round_trip le_word)

lemma gpu_round_trip: "int64 (gr_TS r) \<Longrightarrow> decodeGPU (encode_gpu r) = r"
  by (simp add: int64_def decodeGPU_def encode_gpu_def int64_round_trip le_word)

section \<open>Cells\<close>

lemma chunks_Nil [simp]: "length b < n \<Longrightarrow> chunks n b = []"
  by (simp add: chunks.simps)

lemma chunks_Cons: "0 < n \<Longrightarrow> n \<le> length b \<Longrightarrow> chunks n b = take n b # chunks n (drop n b)"
  by (subst chunks.simps) simp

lemma chunks_one [simp]: "0 < n \<Longrightarrow> length b = n \<Longrightarrow> chunks n b = [b]"
  by (simp add: chunks_Cons)

lemma chunks_append: "0 < n \<Longrightarrow> length a = k * n \<Longrightarrow> chunks n (a @ b) = chunks n a @ chunks n b"
proof (induction k arbitrary: a)
  case (Suc k)
  then have "n \<le> length a" "length (drop n a) = k * n" by simp_all
  then show ?case using Suc.IH [of "drop n a"] Suc.prems(1) by (simp add: chunks_Cons)
qed simp

lemma chunks_take: "0 < n \<Longrightarrow> chunks n (take (k * n) b) = take k (chunks n b)"
proof (induction k arbitrary: b)
  case (Suc k)
  show ?case
  proof (cases "length b < n")
    case False
    then show ?thesis using Suc.IH [of "drop n b"] Suc.prems by (simp add: chunks_Cons take_drop min_absorb1 flip: take_add) (simp add: drop_take)
  qed simp
qed simp

lemma chunks_drop: "0 < n \<Longrightarrow> chunks n (drop (k * n) b) = drop k (chunks n b)"
proof (induction k arbitrary: b)
  case (Suc k)
  show ?case
  proof (cases "length b < n")
    case False
    then show ?thesis using Suc.IH [of "drop n b"] Suc.prems by (simp add: chunks_Cons add.commute)
  qed simp
qed simp

lemma chunks_length: "0 < n \<Longrightarrow> length b = k * n \<Longrightarrow> length (chunks n b) = k"
proof (induction k arbitrary: b)
  case (Suc k)
  then show ?case using Suc.IH [of "drop n b"] by (simp add: chunks_Cons)
qed simp

lemma chunks_write:
  assumes "0 < n" and "length b = k * n" and "i < k" and "length buf = n"
  shows "chunks n (take (i * n) b @ buf @ drop (i * n + n) b) = (chunks n b)[i := buf]"
proof -
  have "Suc i * n \<le> k * n" using assms(3) by (intro mult_le_mono1) simp
  then have l: "length (take (i * n) b) = i * n" using assms(2) by simp
  have d: "drop (i * n + n) b = drop (Suc i * n) b" by (simp add: add.commute)
  have "chunks n (take (i * n) b @ buf @ drop (i * n + n) b) = take i (chunks n b) @ buf # drop (Suc i) (chunks n b)"
    unfolding chunks_append [OF assms(1) l] d using assms(1,4) chunks_append [of n buf 1]
    by (simp add: chunks_take chunks_drop del: mult_Suc)
  then show ?thesis using assms(1-3) by (simp add: upd_conv_take_nth_drop chunks_length)
qed

text \<open>One cell overwritten in a list in which every live entry sits in its own cell.\<close>

lemma keyed_update:
  assumes i: "i < length xs" and keyed: "\<And>j. j < length xs \<Longrightarrow> live (xs ! j) \<Longrightarrow> key (xs ! j) = j" and "live y"
  shows "mset (filter live (xs[i := y])) = mset (y # filter (\<lambda>x. key x \<noteq> i) (filter live xs))"
proof -
  have xs: "xs = take i xs @ xs ! i # drop (Suc i) xs" using i by (rule id_take_nth_drop)
  have "key x \<noteq> i" if "x \<in> set (take i xs)" "live x" for x
  proof -
    from that(1) obtain j where "j < i" "x = xs ! j" by (auto simp: in_set_conv_nth)
    then show ?thesis using keyed [of j] that(2) i by simp
  qed
  then have t: "filter (\<lambda>x. key x \<noteq> i) (filter live (take i xs)) = filter live (take i xs)" by (auto intro: filter_cong)
  have "key x \<noteq> i" if "x \<in> set (drop (Suc i) xs)" "live x" for x
  proof -
    from that(1) obtain j where "j < length xs - Suc i" "x = xs ! (Suc i + j)" by (auto simp: in_set_conv_nth)
    then show ?thesis using keyed [of "Suc i + j"] that(2) by simp
  qed
  then have d: "filter (\<lambda>x. key x \<noteq> i) (filter live (drop (Suc i) xs)) = filter live (drop (Suc i) xs)" by (auto intro: filter_cong)
  have "filter (\<lambda>x. key x \<noteq> i) (filter live xs) = filter live (take i xs) @ filter live (drop (Suc i) xs)"
    by (subst xs, simp only: filter_append t filter.simps) (use keyed [OF i] d in auto)
  then show ?thesis using i \<open>live y\<close> by (simp add: upd_conv_take_nth_drop)
qed

text \<open>What a filter keeps of a list lies in the piece read, which may wrap round the end.\<close>

lemma filter_piece:
  assumes "\<And>j. j < length xs \<Longrightarrow> P (xs ! j) \<Longrightarrow> a \<le> j \<and> j < a + n"
  shows "filter P (take n (drop a xs)) = filter P xs"
proof -
  have "filter P (take a xs) = []"
    using assms by (fastforce simp: filter_empty_conv in_set_conv_nth)
  moreover have "filter P (drop n (drop a xs)) = []"
  proof -
    have "\<not> P x" if x: "x \<in> set (drop (n + a) xs)" for x
    proof -
      from x obtain j where "j < length xs - (n + a)" "x = xs ! (n + a + j)" by (auto simp: in_set_conv_nth)
      moreover from this have "n + a + j < length xs" by linarith
      ultimately show ?thesis using assms [of "n + a + j"] by auto
    qed
    then show ?thesis by (simp add: filter_empty_conv)
  qed
  moreover have "xs = take a xs @ take n (drop a xs) @ drop n (drop a xs)" by (simp only: append_take_drop_id)
  ultimately show ?thesis by (metis append_Nil append_Nil2 filter_append)
qed

lemma filter_wrapped:
  assumes "\<And>j. j < length xs \<Longrightarrow> P (xs ! j) \<Longrightarrow> a \<le> j \<or> j < n" and "n \<le> a"
  shows "mset (filter P (drop a xs @ take n xs)) = mset (filter P xs)"
proof -
  have "\<not> P x" if "x \<in> set (take (a - n) (drop n xs))" for x
  proof -
    from that obtain j where "j < a - n" "j + n < length xs" "x = xs ! (n + j)" by (auto simp: in_set_conv_nth)
    then show ?thesis using assms(1) [of "n + j"] by auto
  qed
  then have "filter P (take (a - n) (drop n xs)) = []" by (simp add: filter_empty_conv)
  moreover have "xs = take n xs @ take (a - n) (drop n xs) @ drop a xs"
    using assms(2) by (metis append_take_drop_id drop_drop le_add_diff_inverse2)
  ultimately show ?thesis by (metis append_Nil filter_append mset_append union_commute)
qed

lemma mod_slots_mod: "0 < b \<Longrightarrow> mod_slots a b = a mod b"
proof -
  assume b: "0 < b"
  show ?thesis
  proof (cases "a < 0")
    case True
    have "go_rem a b = - ((- a) mod b)" using True b by (simp add: go_rem_def go_div_def minus_div_mult_eq_mod [symmetric] algebra_simps)
    moreover have "a mod b = (if (- a) mod b = 0 then 0 else b - (- a) mod b)" using zmod_zminus1_eq_if [of "- a" b] by simp
    moreover have "0 \<le> (- a) mod b" using b by simp
    ultimately show ?thesis by (auto simp: mod_slots_def Let_def)
  next
    case False
    then have "go_rem a b = a mod b" using b by (simp add: go_rem_def minus_mult_div_eq_mod)
    then show ?thesis using b by (simp add: mod_slots_def Let_def not_less)
  qed
qed

section \<open>The history a ring holds\<close>

text \<open>The cell of a record with time stamp ts in a lane, and the abstract history: the records written,
latest first, without those whose cell a later record has taken.\<close>

definition cell_of :: "nat \<Rightarrow> nat \<Rightarrow> int \<Rightarrow> int \<Rightarrow> nat \<Rightarrow> nat" where
  "cell_of slots lanes period ts lane = nat (go_div ts period mod int slots) * lanes + lane"

definition retain :: "('a \<Rightarrow> nat) \<Rightarrow> 'a \<Rightarrow> 'a list \<Rightarrow> 'a list" where
  "retain cell x h = x # filter (\<lambda>y. cell y \<noteq> cell x) h"

definition history :: "('a \<Rightarrow> nat) \<Rightarrow> 'a list \<Rightarrow> 'a list" where
  "history cell xs = fold (retain cell) xs []"

text \<open>The writes of a tier: each record goes to the bucket of its time stamp, in its lane.\<close>

fun put_records :: "(nat \<times> int \<times> string) list \<Rightarrow> ring \<Rightarrow> ring_error + ring" where
  "put_records [] r = Inr r"
| "put_records ((lane, ts, buf) # ws) r =
     (case put (go_div ts (rg_period r)) (int lane) buf r of Inl e \<Rightarrow> Inl e | Inr r' \<Rightarrow> put_records ws r')"

definition ring_ok :: "ring \<Rightarrow> bool" where
  "ring_ok r \<longleftrightarrow> 0 < rg_slots r \<and> 0 < rg_lanes r \<and> 0 < rg_recSize r \<and> 0 < rg_period r \<and>
     length (rg_file r) = ring_size (rg_slots r) (rg_lanes r) (rg_recSize r)"

definition ring_cells :: "ring \<Rightarrow> string list" where
  "ring_cells r = chunks (rg_recSize r) (drop ringHeaderLen (rg_file r))"

lemma ring_cells_length [simp]: "ring_ok r \<Longrightarrow> length (ring_cells r) = rg_slots r * rg_lanes r"
  by (simp add: ring_cells_def ring_ok_def chunks_length ring_size_def)

lemma cell_of_less: "0 < slots \<Longrightarrow> lane < lanes \<Longrightarrow> cell_of slots lanes period ts lane < slots * lanes"
proof -
  assume "0 < slots" "lane < lanes"
  then have "nat (go_div ts period mod int slots) < slots" by (simp add: nat_less_iff)
  then have "Suc (nat (go_div ts period mod int slots)) * lanes \<le> slots * lanes" by (intro mult_le_mono1) simp
  then show ?thesis using \<open>lane < lanes\<close> by (simp add: cell_of_def)
qed

lemma put_cell:
  fixes ts :: int
  assumes ok: "ring_ok r" and lane: "lane < rg_lanes r" and buf: "length buf = rg_recSize r"
  defines "i \<equiv> cell_of (rg_slots r) (rg_lanes r) (rg_period r) ts lane"
  obtains f where "put (go_div ts (rg_period r)) (int lane) buf r = Inr (r\<lparr>rg_file := f\<rparr>)" "ring_ok (r\<lparr>rg_file := f\<rparr>)"
    "take ringHeaderLen f = take ringHeaderLen (rg_file r)" "ring_cells (r\<lparr>rg_file := f\<rparr>) = (ring_cells r)[i := buf]"
proof -
  let ?n = "rg_recSize r" and ?k = "rg_slots r * rg_lanes r" and ?d = "drop ringHeaderLen (rg_file r)"
  define f where "f = WriteAt buf (ringHeaderLen + i * ?n) (rg_file r)"
  have pos: "0 < rg_slots r" "0 < ?n" "length (rg_file r) = ringHeaderLen + ?k * ?n"
    using ok by (simp_all add: ring_ok_def ring_size_def)
  have i: "i < ?k" unfolding i_def by (rule cell_of_less) (use pos lane in simp_all)
  then have "Suc i * ?n \<le> ?k * ?n" by (intro mult_le_mono1) simp
  then have le: "i * ?n + ?n \<le> ?k * ?n" by simp
  have f: "f = take (ringHeaderLen + i * ?n) (rg_file r) @ buf @ drop (ringHeaderLen + (i * ?n + ?n)) (rg_file r)"
    using le pos buf i by (simp add: f_def WriteAt_def add.assoc)
  have hd: "drop ringHeaderLen f = take (i * ?n) ?d @ buf @ drop (i * ?n + ?n) ?d"
    using le pos i by (simp add: f drop_take add.commute)
  show ?thesis
  proof (rule that [of f])
    show "put (go_div ts (rg_period r)) (int lane) buf r = Inr (r\<lparr>rg_file := f\<rparr>)"
      using lane pos by (simp add: put_def f_def i_def cell_of_def offset_def mod_slots_mod)
    show "ring_ok (r\<lparr>rg_file := f\<rparr>)" using ok le buf pos i by (simp add: ring_ok_def f ring_size_def)
    show "take ringHeaderLen f = take ringHeaderLen (rg_file r)" using le pos i by (simp add: f)
    show "ring_cells (r\<lparr>rg_file := f\<rparr>) = (ring_cells r)[i := buf]"
      using chunks_write [OF pos(2) _ i buf, of ?d] pos by (simp add: ring_cells_def hd)
  qed
qed

text \<open>What the ring needs of the records kept in it: a fixed size, a decoder that undoes the encoder, and
a blank cell that decodes to time stamp 0. The history is shown once for every such kind of record.\<close>

locale record_codec =
  fixes width :: nat and enc :: "'a \<Rightarrow> string" and dec :: "string \<Rightarrow> 'a" and ts :: "'a \<Rightarrow> int"
  assumes width_pos: "0 < width" and enc_length: "length (enc x) = width" and dec_enc: "int64 (ts x) \<Longrightarrow> dec (enc x) = x"
    and blank: "ts (dec (replicate width (CHR 0x00))) = 0"
begin

definition contents :: "ring \<Rightarrow> (nat \<times> 'a) list" where
  "contents r = map (\<lambda>i. (i mod rg_lanes r, dec (ring_cells r ! i))) [0..<rg_slots r * rg_lanes r]"

definition live :: "nat \<times> 'a \<Rightarrow> bool" where
  "live x \<longleftrightarrow> ts (snd x) \<noteq> 0"

definition home :: "ring \<Rightarrow> nat \<times> 'a \<Rightarrow> nat" where
  "home r x = cell_of (rg_slots r) (rg_lanes r) (rg_period r) (ts (snd x)) (fst x)"

definition holds :: "ring \<Rightarrow> (nat \<times> 'a) list \<Rightarrow> bool" where
  "holds r h \<longleftrightarrow> ring_ok r \<and> rg_recSize r = width \<and>
     (\<forall>j < rg_slots r * rg_lanes r. live (contents r ! j) \<longrightarrow> home r (contents r ! j) = j) \<and>
     mset (filter live (contents r)) = mset h"

definition writes :: "(nat \<times> 'a) list \<Rightarrow> (nat \<times> int \<times> string) list" where
  "writes xs = map (\<lambda>(lane, x). (lane, ts x, enc x)) xs"

lemma contents_length [simp]: "length (contents r) = rg_slots r * rg_lanes r"
  by (simp add: contents_def)

lemma home_file [simp]: "home (r\<lparr>rg_file := f\<rparr>) = home r"
  by (simp add: home_def fun_eq_iff)

lemma put_holds:
  assumes h: "holds r h" and lane: "fst x < rg_lanes r" and x: "int64 (ts (snd x))" "live x"
  obtains f where "put (go_div (ts (snd x)) (rg_period r)) (int (fst x)) (enc (snd x)) r = Inr (r\<lparr>rg_file := f\<rparr>)"
    "take ringHeaderLen f = take ringHeaderLen (rg_file r)" "holds (r\<lparr>rg_file := f\<rparr>) (retain (home r) x h)"
proof -
  let ?i = "home r x"
  have ok: "ring_ok r" and sz: "rg_recSize r = width" using h by (simp_all add: holds_def)
  obtain f where f: "put (go_div (ts (snd x)) (rg_period r)) (int (fst x)) (enc (snd x)) r = Inr (r\<lparr>rg_file := f\<rparr>)"
      "ring_ok (r\<lparr>rg_file := f\<rparr>)" "take ringHeaderLen f = take ringHeaderLen (rg_file r)"
      "ring_cells (r\<lparr>rg_file := f\<rparr>) = (ring_cells r)[?i := enc (snd x)]"
    unfolding home_def by (rule put_cell [OF ok lane, of "enc (snd x)" "ts (snd x)"]) (use enc_length sz in auto)
  have i: "?i < rg_slots r * rg_lanes r" unfolding home_def by (rule cell_of_less) (use ok lane in \<open>simp_all add: ring_ok_def\<close>)
  have m: "?i mod rg_lanes r = fst x" using lane by (simp add: home_def cell_of_def)
  have c: "contents (r\<lparr>rg_file := f\<rparr>) = (contents r)[?i := x]"
    using i m x(1) ok by (intro nth_equalityI) (auto simp: contents_def f(4) nth_list_update dec_enc prod_eq_iff)
  have "mset (filter live ((contents r)[?i := x])) = mset (x # filter (\<lambda>y. home r y \<noteq> ?i) (filter live (contents r)))"
    by (rule keyed_update) (use h i x(2) in \<open>simp_all add: holds_def\<close>)
  also have "\<dots> = mset (retain (home r) x h)"
  proof -
    have e: "filter_mset live (mset (contents r)) = mset h" using h by (simp add: holds_def)
    show ?thesis by (simp only: retain_def mset.simps mset_filter e)
  qed
  finally have "holds (r\<lparr>rg_file := f\<rparr>) (retain (home r) x h)"
    using h i f(2) by (simp add: holds_def c nth_list_update sz)
  then show thesis using f(1,3) that by blast
qed

lemma put_records_holds:
  assumes "holds r h" and "\<forall>x \<in> set xs. fst x < rg_lanes r \<and> int64 (ts (snd x)) \<and> live x"
  obtains f where "put_records (writes xs) r = Inr (r\<lparr>rg_file := f\<rparr>)" "take ringHeaderLen f = take ringHeaderLen (rg_file r)"
    "holds (r\<lparr>rg_file := f\<rparr>) (fold (retain (home r)) xs h)"
  using assms
proof (induction xs arbitrary: r h thesis)
  case Nil
  show ?case by (rule Nil.prems(1) [of "rg_file r"]) (use Nil in \<open>simp_all add: writes_def\<close>)
next
  case (Cons x xs)
  obtain f where f: "put (go_div (ts (snd x)) (rg_period r)) (int (fst x)) (enc (snd x)) r = Inr (r\<lparr>rg_file := f\<rparr>)"
      "take ringHeaderLen f = take ringHeaderLen (rg_file r)" "holds (r\<lparr>rg_file := f\<rparr>) (retain (home r) x h)"
    using put_holds [OF Cons.prems(2)] Cons.prems(3) by (metis list.set_intros(1))
  obtain g where "put_records (writes xs) (r\<lparr>rg_file := f\<rparr>) = Inr (r\<lparr>rg_file := g\<rparr>)"
      "take ringHeaderLen g = take ringHeaderLen f" "holds (r\<lparr>rg_file := g\<rparr>) (fold (retain (home r)) xs (retain (home r) x h))"
    by (rule Cons.IH [OF _ f(3)]) (use Cons.prems(3) in auto)
  then show ?case using Cons.prems(1) [of g] f(1,2) by (simp add: writes_def split_beta)
qed
end

lemma chunks_replicate: "c \<in> set (chunks n (replicate m z)) \<Longrightarrow> c = replicate n z"
proof (induction m rule: less_induct)
  case (less m)
  then have n: "0 < n \<and> n \<le> m" by (subst (asm) chunks.simps) (auto split: if_splits)
  then have "chunks n (replicate m z) = replicate n z # chunks n (replicate (m - n) z)"
    by (simp add: chunks_Cons)
  then show ?case using less.IH [of "m - n"] less.prems n by auto
qed

lemma read_cells:
  assumes ok: "ring_ok r" and n: "a + n \<le> rg_slots r"
  shows "\<exists>b. ReadAt (n * (rg_lanes r * rg_recSize r)) (offset r a 0) (rg_file r) = Some b \<and>
    chunks (rg_recSize r) b = take (n * rg_lanes r) (drop (a * rg_lanes r) (ring_cells r)) \<and>
    length b = n * rg_lanes r * rg_recSize r"
proof -
  let ?w = "rg_recSize r" and ?d = "drop ringHeaderLen (rg_file r)"
  have w: "0 < ?w" and len: "length (rg_file r) = ringHeaderLen + rg_slots r * rg_lanes r * ?w"
    using ok by (simp_all add: ring_ok_def ring_size_def)
  have "(a + n) * (rg_lanes r * ?w) \<le> rg_slots r * (rg_lanes r * ?w)" using n by (intro mult_le_mono1)
  then have le: "a * rg_lanes r * ?w + n * rg_lanes r * ?w \<le> rg_slots r * rg_lanes r * ?w" by (simp add: algebra_simps)
  let ?b = "take (n * rg_lanes r * ?w) (drop (a * rg_lanes r * ?w) ?d)"
  have "ReadAt (n * (rg_lanes r * ?w)) (offset r a 0) (rg_file r) = Some ?b"
    using le len by (simp add: ReadAt_def offset_def mult.assoc add.commute)
  moreover have "chunks ?w ?b = take (n * rg_lanes r) (drop (a * rg_lanes r) (ring_cells r))"
    by (simp only: chunks_take [OF w] chunks_drop [OF w] ring_cells_def)
  moreover have "length ?b = n * rg_lanes r * ?w" using le len by simp
  ultimately show ?thesis by blast
qed

lemma slot_in_span:
  fixes lo b n s :: int
  assumes "0 < s" "lo \<le> b" "b < lo + n" "n < s"
  shows "b mod s = lo mod s + (b - lo) \<or> b mod s = lo mod s + (b - lo) - s"
proof -
  have r: "0 \<le> lo mod s" "lo mod s < s" using assms(1) by simp_all
  have e: "b mod s = (lo mod s + (b - lo)) mod s" by (simp add: mod_add_left_eq)
  show ?thesis
  proof (cases "lo mod s + (b - lo) < s")
    case True
    then show ?thesis using e r assms by (simp add: mod_pos_pos_trivial)
  next
    case False
    have "(lo mod s + (b - lo) - s + s) mod s = lo mod s + (b - lo) - s"
      by (simp only: mod_add_self2, rule mod_pos_pos_trivial) (use False r assms in linarith)+
    then show ?thesis using e by simp
  qed
qed

lemma read_span:
  fixes lo hi :: int
  assumes ok: "ring_ok r"
    and at: "\<And>j. j < rg_slots r * rg_lanes r \<Longrightarrow> P (xs ! j) \<Longrightarrow>
      \<exists>b. lo \<le> b \<and> b \<le> hi \<and> b mod int (rg_slots r) = int (j div rg_lanes r)"
    and xs: "xs = map f (ring_cells r)"
  shows "\<exists>buf. ring_span lo hi r = Some buf \<and> mset (filter P (map f (chunks (rg_recSize r) buf))) = mset (filter P xs)"
proof -
  let ?s = "rg_slots r" and ?l = "rg_lanes r" and ?w = "rg_recSize r"
  have pos: "0 < ?s" "0 < ?l" "0 < ?w" using ok by (simp_all add: ring_ok_def)
  have len: "length xs = ?s * ?l" using ok by (simp add: xs)
  consider (none) "hi < lo" | (every) "\<not> hi < lo" "int ?s \<le> hi - lo + 1" | (part) "\<not> hi < lo" "hi - lo + 1 < int ?s" by linarith
  then show ?thesis
  proof cases
    case none
    have "filter P xs = []" using at none len by (fastforce simp: filter_empty_conv in_set_conv_nth)
    then show ?thesis using none pos by (simp add: ring_span_def)
  next
    case every
    obtain b where "ring_all r = Some b" "chunks ?w b = ring_cells r"
      using read_cells [OF ok, of 0 ?s] ok by (auto simp: ring_all_def offset_def mult.assoc)
    then show ?thesis using every by (simp add: ring_span_def xs)
  next
    case part
    define n where "n = nat (hi - lo + 1)"
    define a where "a = nat (lo mod int ?s)"
    have n: "int n = hi - lo + 1" "n < ?s" using part by (simp_all add: n_def)
    have a: "int a = lo mod int ?s" "a < ?s" using pos by (simp_all add: a_def nat_less_iff)
    have slot: "a \<le> j div ?l \<and> j div ?l < a + n \<or> j div ?l + ?s < a + n" if "j < ?s * ?l" "P (xs ! j)" for j
      using at [OF that] slot_in_span [of "int ?s" lo _ "int n"] n a pos(1) by fastforce
    show ?thesis
    proof (cases "a + n \<le> ?s")
      case True
      obtain b where b: "ReadAt (n * (?l * ?w)) (offset r a 0) (rg_file r) = Some b"
          "chunks ?w b = take (n * ?l) (drop (a * ?l) (ring_cells r))"
        using read_cells [OF ok True] by blast
      have "filter P (take (n * ?l) (drop (a * ?l) xs)) = filter P xs"
      proof (rule filter_piece)
        fix j assume "j < length xs" "P (xs ! j)"
        then have "a \<le> j div ?l \<and> j div ?l < a + n" using slot [of j] True by (auto simp: len)
        then show "a * ?l \<le> j \<and> j < a * ?l + n * ?l"
          using pos(2) by (simp add: less_eq_div_iff_mult_less_eq div_less_iff_less_mult algebra_simps)
      qed
      then show ?thesis using part b True pos
        by (simp add: ring_span_def mod_slots_mod Let_def xs min_absorb1 take_map drop_map del: mset_filter mset_map flip: n_def a_def)
    next
      case False
      obtain b where b: "ReadAt ((?s - a) * (?l * ?w)) (offset r a 0) (rg_file r) = Some b"
          "chunks ?w b = take ((?s - a) * ?l) (drop (a * ?l) (ring_cells r))" "length b = (?s - a) * ?l * ?w"
        using read_cells [OF ok, of a "?s - a"] a by auto
      obtain c where c: "ReadAt ((n - (?s - a)) * (?l * ?w)) (offset r 0 0) (rg_file r) = Some c"
          "chunks ?w c = take ((n - (?s - a)) * ?l) (ring_cells r)"
        using read_cells [OF ok, of 0 "n - (?s - a)"] order_less_imp_le [OF order_le_less_trans [OF diff_le_self n(2)]] by auto
      have bb: "chunks ?w b = drop (a * ?l) (ring_cells r)"
        using b(2) ok a(2) by (simp add: diff_mult_distrib)
      have "mset (filter P (drop (a * ?l) xs @ take ((n - (?s - a)) * ?l) xs)) = mset (filter P xs)"
      proof (rule filter_wrapped)
        fix j assume "j < length xs" "P (xs ! j)"
        then have "a \<le> j div ?l \<or> j div ?l < n - (?s - a)" using slot [of j] a by (auto simp: len)
        then show "a * ?l \<le> j \<or> j < (n - (?s - a)) * ?l"
          using pos(2) by (simp add: less_eq_div_iff_mult_less_eq div_less_iff_less_mult)
      next
        show "(n - (?s - a)) * ?l \<le> a * ?l" by (rule mult_le_mono1) (use n(2) in linarith)
      qed
      moreover have "?s - a < n" using False a(2) by linarith
      ultimately show ?thesis using part b(1) c bb False pos a n chunks_append [OF pos(3) b(3), of c]
        by (simp add: ring_span_def mod_slots_mod Let_def xs min_absorb2 take_map drop_map del: mset_filter mset_map flip: n_def a_def)
    qed
  qed
qed

lemma div_of_cell: "q * l + k = (j :: nat) \<Longrightarrow> k < l \<Longrightarrow> q = j div l"
  by auto

context record_codec
begin

lemma contents_snd: "ring_ok r \<Longrightarrow> map snd (contents r) = map dec (ring_cells r)"
  by (intro nth_equalityI) (simp_all add: contents_def)

lemma fresh_holds:
  assumes "0 < slots" and "0 < lanes" and "0 < period"
  shows "holds (reinit \<lparr>rg_file = f, rg_slots = slots, rg_lanes = lanes, rg_recSize = width, rg_period = period\<rparr>) []"
proof -
  let ?r = "reinit \<lparr>rg_file = f, rg_slots = slots, rg_lanes = lanes, rg_recSize = width, rg_period = period\<rparr>"
  have ok: "ring_ok ?r" using assms width_pos by (simp add: ring_ok_def reinit_def ring_size_def ringMagic_def ringHeaderLen_def)
  have g: "rg_slots ?r = slots" "rg_lanes ?r = lanes" "rg_recSize ?r = width" by (simp_all add: reinit_def)
  have "ts (dec c) = 0" if "c \<in> set (ring_cells ?r)" for c
  proof -
    have "c \<in> set (chunks width (replicate (slots * lanes * width) (CHR 0x00)))"
      using that by (simp add: ring_cells_def reinit_def ringMagic_def ringHeaderLen_def)
    from chunks_replicate [OF this] show ?thesis by (simp add: blank)
  qed
  then have dead: "\<not> live (contents ?r ! j)" if "j < slots * lanes" for j
    using that ok by (simp add: live_def contents_def reinit_def nth_mem)
  then have "filter live (contents ?r) = []" unfolding filter_empty_conv by (metis contents_length g(1,2) in_set_conv_nth)
  then show ?thesis using dead ok g by (simp add: holds_def del: mset_filter)
qed

lemma holds_member:
  assumes "holds r h" and "x \<in> set h"
  shows "live x" and "home r x < rg_slots r * rg_lanes r" and "contents r ! home r x = x"
proof -
  have "x \<in> set (filter live (contents r))" using assms by (simp only: holds_def set_mset_mset [symmetric])
  then obtain j where j: "j < rg_slots r * rg_lanes r" "contents r ! j = x" "live x"
    by (auto simp: in_set_conv_nth)
  then have "home r x = j" using assms(1) by (auto simp: holds_def)
  then show "live x" "home r x < rg_slots r * rg_lanes r" "contents r ! home r x = x" using j by simp_all
qed

lemma holds_unique: "holds r h \<Longrightarrow> x \<in> set h \<Longrightarrow> y \<in> set h \<Longrightarrow> home r x = home r y \<Longrightarrow> x = y"
  by (metis holds_member(3))

lemma read_window:
  fixes hi :: int
  assumes h: "holds r h" and lo: "0 < lo"
  defines "P \<equiv> \<lambda>x. lo \<le> ts x \<and> ts x < hi"
  shows "\<exists>buf. window lo hi r = Some buf \<and> mset (filter P (map dec (chunks width buf))) = mset (filter P (map snd h))"
proof -
  have ok: "ring_ok r" and w: "rg_recSize r = width" and p: "0 < rg_period r" "0 < rg_lanes r"
    using h by (simp_all add: holds_def ring_ok_def)
  have "filter P (map snd (contents r)) = map snd (filter (\<lambda>x. P (snd x)) (filter live (contents r)))"
    using lo by (auto simp: filter_map o_def P_def live_def intro!: arg_cong [where f = "map snd"] filter_cong)
  then have same: "mset (filter P (map snd (contents r))) = mset (filter P (map snd h))"
  proof -
    assume "filter P (map snd (contents r)) = map snd (filter (\<lambda>x. P (snd x)) (filter live (contents r)))"
    moreover have e: "filter_mset live (mset (contents r)) = mset h" using h by (simp add: holds_def)
    ultimately show ?thesis by (simp only: mset_map mset_filter e filter_map o_def)
  qed
  show ?thesis
  proof (cases "hi \<le> lo")
    case True
    then have "filter P (map snd h) = []" by (auto simp: P_def filter_empty_conv)
    then show ?thesis using True width_pos by (simp add: window_def del: mset_filter)
  next
    case False
    have "\<exists>buf. ring_span (go_div lo (rg_period r)) (go_div (hi - 1) (rg_period r)) r = Some buf \<and>
        mset (filter P (map dec (chunks (rg_recSize r) buf))) = mset (filter P (map snd (contents r)))"
    proof (rule read_span [OF ok])
      fix j assume j: "j < rg_slots r * rg_lanes r" and P: "P (map snd (contents r) ! j)"
      let ?x = "contents r ! j" and ?b = "go_div (ts (snd (contents r ! j))) (rg_period r)"
      have Px: "lo \<le> ts (snd ?x)" "ts (snd ?x) < hi" using P j by (simp_all add: P_def)
      have "home r ?x = j" using h j Px lo by (simp add: holds_def live_def)
      moreover have "fst ?x < rg_lanes r" using p j by (simp add: contents_def)
      ultimately have "nat (?b mod int (rg_slots r)) = j div rg_lanes r" unfolding home_def cell_of_def by (rule div_of_cell)
      moreover have "0 \<le> ?b mod int (rg_slots r)" using ok by (simp add: ring_ok_def)
      ultimately have "?b mod int (rg_slots r) = int (j div rg_lanes r)" by linarith
      moreover have "go_div lo (rg_period r) \<le> ?b" "?b \<le> go_div (hi - 1) (rg_period r)"
        using Px lo p by (simp_all add: zdiv_mono1)
      ultimately show "\<exists>b\<ge>go_div lo (rg_period r). b \<le> go_div (hi - 1) (rg_period r) \<and> b mod int (rg_slots r) = int (j div rg_lanes r)"
        by blast
    qed (simp add: contents_snd ok)
    then show ?thesis using False p same by (simp add: window_def w del: mset_filter mset_map)
  qed
qed
end

lemma retain_inj: "retain k (g x) (map g h) = map g (retain (k \<circ> g) x h)"
  by (simp add: retain_def filter_map o_def)

lemma retain_map: "fold (retain k) (map g xs) (map g h) = map g (fold (retain (k \<circ> g)) xs h)"
  by (induction xs arbitrary: h) (simp_all add: retain_inj)

lemma le_value_blank: "le_value (replicate n (CHR 0x00)) = 0"
  by (induction n) simp_all

lemma node_blank: "nr_TS (decodeNode (replicate NodeRecordSize (CHR 0x00))) = 0"
  by (simp add: decodeNode_def le_value_blank to_int64_def)

lemma gpu_blank: "gr_TS (decodeGPU (replicate GPURecordSize (CHR 0x00))) = 0"
  by (simp add: decodeGPU_def le_value_blank to_int64_def)

interpretation node_records: record_codec NodeRecordSize encode_node decodeNode nr_TS
  by unfold_locales (simp_all add: node_round_trip node_blank, simp add: NodeRecordSize_def)

interpretation gpu_records: record_codec GPURecordSize encode_gpu decodeGPU gr_TS
  by unfold_locales (simp_all add: gpu_round_trip gpu_blank, simp add: GPURecordSize_def)

lemma header_part: "a + b \<le> ringHeaderLen \<Longrightarrow> take b (drop a (take ringHeaderLen f)) = take b (drop a f)"
  by (simp add: drop_take min_absorb1)

lemma readHeader_prefix: "take ringHeaderLen f = take ringHeaderLen g \<Longrightarrow> readHeader f = readHeader g"
proof -
  assume e: "take ringHeaderLen f = take ringHeaderLen g"
  have "length f < ringHeaderLen \<longleftrightarrow> length g < ringHeaderLen" using arg_cong [OF e, of length] by (simp add: min_def split: if_splits)
  moreover have "take b (drop a f) = take b (drop a g)" if "a + b \<le> ringHeaderLen" for a b
    using header_part [OF that, of f] header_part [OF that, of g] e by simp
  from this [of 0 8] this [of 8 2] this [of 10 4] this [of 14 4]
  have "take 8 f = take 8 g" "take 2 (drop 8 f) = take 2 (drop 8 g)" "take 4 (drop 10 f) = take 4 (drop 10 g)"
    "take 4 (drop 14 f) = take 4 (drop 14 g)" by (simp_all add: ringHeaderLen_def)
  ultimately show ?thesis by (simp add: readHeader_def)
qed

lemma readHeader_reinit:
  assumes "rg_recSize r < 256 ^ 2" and "rg_slots r < 256 ^ 4" and "rg_lanes r < 256 ^ 4"
  shows "readHeader (rg_file (reinit r)) =
    Some \<lparr>rh_magic = ringMagic, rh_recSize = rg_recSize r, rh_slots = rg_slots r, rh_lanes = rg_lanes r\<rparr>"
  using le_round_trip [OF assms(1)] le_round_trip [OF assms(2)] le_round_trip [OF assms(3)]
  by (simp add: readHeader_def reinit_def ringMagic_def ringHeaderLen_def)

lemma reopen_ring:
  assumes "take ringHeaderLen (rg_file r) = take ringHeaderLen (rg_file (reinit r))" and "ring_ok r"
    and "rg_recSize r < 256 ^ 2" and "rg_slots r < 256 ^ 4" and "rg_lanes r < 256 ^ 4"
  shows "openRing (rg_file r) (rg_slots r) (rg_lanes r) (rg_recSize r) = Inr (r\<lparr>rg_period := 0\<rparr>, False)"
proof -
  have "rg_file r \<noteq> []" using assms(2) by (auto simp: ring_ok_def ring_size_def ringHeaderLen_def)
  moreover have "readHeader (rg_file r) = readHeader (rg_file (reinit r))" using assms(1) by (rule readHeader_prefix)
  ultimately show ?thesis using assms(2-5) readHeader_reinit [of r] by (simp add: openRing_def ring_ok_def Let_def)
qed

lemma sorted_read:
  fixes f :: "'a \<Rightarrow> 'b :: linorder"
  assumes "mset xs = mset ys" and "inj_on f (set ys)"
  shows "sort_key f xs = sort_key f ys"
proof (rule sort_key_inj_key_eq)
  show "mset xs = mset (sort_key f ys)" using assms(1) by simp
  show "inj_on f (set xs)" using assms by (metis mset_eq_setD)
qed simp

context record_codec
begin

lemma history_kept:
  assumes g: "0 < slots" "slots < 256 ^ 4" "0 < lanes" "lanes < 256 ^ 4" "0 < period" "width < 256 ^ 2"
    and xs: "\<forall>x \<in> set xs. lane x < lanes \<and> int64 (ts x) \<and> ts x \<noteq> 0"
  defines "cell \<equiv> \<lambda>x. cell_of slots lanes period (ts x) (lane x)"
  obtains r where
    "put_records (map (\<lambda>x. (lane x, ts x, enc x)) xs)
       (reinit \<lparr>rg_file = [], rg_slots = slots, rg_lanes = lanes, rg_recSize = width, rg_period = period\<rparr>) = Inr r"
    "openRing (rg_file r) slots lanes width = Inr (r\<lparr>rg_period := 0\<rparr>, False)"
    "\<And>lo hi. 0 < lo \<Longrightarrow> \<exists>buf. window lo hi r = Some buf \<and>
       mset (filter (\<lambda>x. lo \<le> ts x \<and> ts x < hi) (map dec (chunks width buf))) =
       mset (filter (\<lambda>x. lo \<le> ts x \<and> ts x < hi) (history cell xs))"
    "\<And>x y. x \<in> set (history cell xs) \<Longrightarrow> y \<in> set (history cell xs) \<Longrightarrow> ts x = ts y \<Longrightarrow> lane x = lane y \<Longrightarrow> x = y"
proof -
  let ?fresh = "reinit \<lparr>rg_file = [], rg_slots = slots, rg_lanes = lanes, rg_recSize = width, rg_period = period\<rparr>"
  let ?g = "\<lambda>x. (lane x, x)"
  have geo: "rg_slots ?fresh = slots" "rg_lanes ?fresh = lanes" "rg_recSize ?fresh = width" "rg_period ?fresh = period" by (simp_all add: reinit_def)
  have w: "writes (map ?g xs) = map (\<lambda>x. (lane x, ts x, enc x)) xs" by (simp add: writes_def)
  obtain f where f: "put_records (writes (map ?g xs)) ?fresh = Inr (?fresh\<lparr>rg_file := f\<rparr>)"
      "take ringHeaderLen f = take ringHeaderLen (rg_file ?fresh)" "holds (?fresh\<lparr>rg_file := f\<rparr>) (fold (retain (home ?fresh)) (map ?g xs) [])"
    by (rule put_records_holds [OF fresh_holds [OF g(1,3,5)], of "map ?g xs"]) (use xs geo in \<open>auto simp: live_def\<close>)
  let ?q = "?fresh\<lparr>rg_file := f\<rparr>"
  have k: "home ?fresh \<circ> ?g = cell" by (simp add: fun_eq_iff home_def geo cell_def)
  have e: "fold (retain (home ?fresh)) (map ?g xs) [] = map ?g (history cell xs)"
    using retain_map [of "home ?fresh" ?g xs "[]"] unfolding k history_def by (simp only: list.map)
  have h: "holds ?q (map ?g (history cell xs))" using f(3) unfolding e .
  show thesis
  proof (rule that)
    show "put_records (map (\<lambda>x. (lane x, ts x, enc x)) xs) ?fresh = Inr ?q" using f(1) by (simp only: w)
    have "reinit ?q = ?fresh" by (simp add: reinit_def)
    then show "openRing (rg_file ?q) slots lanes width = Inr (?q\<lparr>rg_period := 0\<rparr>, False)"
      using reopen_ring [of ?q] f(2) h g by (simp add: holds_def geo)
    show "\<exists>buf. window lo hi ?q = Some buf \<and> mset (filter (\<lambda>x. lo \<le> ts x \<and> ts x < hi) (map dec (chunks width buf))) =
       mset (filter (\<lambda>x. lo \<le> ts x \<and> ts x < hi) (history cell xs))" if "0 < lo" for lo hi
      using read_window [OF h that, of hi] by (simp add: o_def del: mset_filter mset_map)
    show "x = y" if "x \<in> set (history cell xs)" "y \<in> set (history cell xs)" "ts x = ts y" "lane x = lane y" for x y
    proof -
      have "?g x \<in> set (map ?g (history cell xs))" "?g y \<in> set (map ?g (history cell xs))" using that(1,2) by simp_all
      from holds_unique [OF h this] show ?thesis using that(3,4) by (simp add: home_def)
    qed
  qed
qed
end

section \<open>Properties\<close>

text \<open>C10. The node series on disk refines an abstract history. On a ring just created, any run of records
written to the buckets of their time stamps succeeds. Afterwards a range read gives exactly the retained records
of the range, oldest first, where a record is retained until a later one takes the slot of its bucket. A restart finds
the same file and discards nothing. Reading touches only the slots that can hold the range, wrapping at the end of the ring.\<close>

theorem node_ring_refines_history:
  assumes "0 < slots" and "slots < 2 ^ 32" and "0 < period" and "\<forall>x \<in> set recs. int64 (nr_TS x) \<and> nr_TS x \<noteq> 0"
  shows "\<exists>r0 r. openRing [] slots 1 NodeRecordSize = Inr (r0, False) \<and>
    put_records (map (\<lambda>x. (0, nr_TS x, encode_node x)) recs) (r0\<lparr>rg_period := period\<rparr>) = Inr r \<and>
    openRing (rg_file r) slots 1 NodeRecordSize = Inr (r\<lparr>rg_period := 0\<rparr>, False) \<and>
    (\<forall>lo hi. 0 < lo \<longrightarrow> readNodeRange r lo hi =
       sort_key nr_TS (filter (\<lambda>x. lo \<le> nr_TS x \<and> nr_TS x < hi) (history (\<lambda>x. cell_of slots 1 period (nr_TS x) 0) recs)))"
proof -
  let ?h = "history (\<lambda>x. cell_of slots 1 period (nr_TS x) 0) recs"
  let ?r0 = "reinit \<lparr>rg_file = [], rg_slots = slots, rg_lanes = 1, rg_recSize = NodeRecordSize, rg_period = 0\<rparr>"
  have o: "openRing [] slots 1 NodeRecordSize = Inr (?r0, False)" using assms(1) by (simp add: openRing_def)
  have p: "?r0\<lparr>rg_period := period\<rparr> = reinit \<lparr>rg_file = [], rg_slots = slots, rg_lanes = 1, rg_recSize = NodeRecordSize, rg_period = period\<rparr>"
    by (simp add: reinit_def)
  obtain r where r: "put_records (map (\<lambda>x. (0, nr_TS x, encode_node x)) recs) (?r0\<lparr>rg_period := period\<rparr>) = Inr r"
      "openRing (rg_file r) slots 1 NodeRecordSize = Inr (r\<lparr>rg_period := 0\<rparr>, False)"
      "\<And>lo hi. 0 < lo \<Longrightarrow> \<exists>buf. window lo hi r = Some buf \<and>
         mset (filter (\<lambda>x. lo \<le> nr_TS x \<and> nr_TS x < hi) (map decodeNode (chunks NodeRecordSize buf))) =
         mset (filter (\<lambda>x. lo \<le> nr_TS x \<and> nr_TS x < hi) ?h)"
      "\<And>x y. x \<in> set ?h \<Longrightarrow> y \<in> set ?h \<Longrightarrow> nr_TS x = nr_TS y \<Longrightarrow> x = y"
    unfolding p by (rule node_records.history_kept [of slots 1 period recs "\<lambda>_. 0"])
      (use assms in \<open>simp_all add: NodeRecordSize_def\<close>)
  have "readNodeRange r lo hi = sort_key nr_TS (filter (\<lambda>x. lo \<le> nr_TS x \<and> nr_TS x < hi) ?h)" if "0 < lo" for lo hi
    using r(3) [OF that, of hi] r(4) by (auto simp: readNodeRange_def inj_on_def intro!: sorted_read)
  then show ?thesis using o r(1,2) by blast
qed

theorem node_ring_refines_history_witness:
  "\<exists>r0 r. openRing [] 2 1 NodeRecordSize = Inr (r0, False) \<and>
    put_records (map (\<lambda>x. (0, nr_TS x, encode_node x))
      [\<lparr>nr_TS = 60, nr_Watts = 1, nr_CoveredS = 60\<rparr>, \<lparr>nr_TS = 120, nr_Watts = 2, nr_CoveredS = 60\<rparr>,
       \<lparr>nr_TS = 180, nr_Watts = 3, nr_CoveredS = 60\<rparr>]) (r0\<lparr>rg_period := 60\<rparr>) = Inr r \<and>
    readNodeRange r 1 1000 = [\<lparr>nr_TS = 120, nr_Watts = 2, nr_CoveredS = 60\<rparr>, \<lparr>nr_TS = 180, nr_Watts = 3, nr_CoveredS = 60\<rparr>]"
proof -
  let ?recs = "[\<lparr>nr_TS = 60, nr_Watts = 1, nr_CoveredS = 60\<rparr>, \<lparr>nr_TS = 120, nr_Watts = 2, nr_CoveredS = 60\<rparr>,
    \<lparr>nr_TS = 180, nr_Watts = 3, nr_CoveredS = 60\<rparr>] :: NodeRecord list"
  have "history (\<lambda>x. cell_of 2 1 60 (nr_TS x) 0) ?recs =
      [\<lparr>nr_TS = 180, nr_Watts = 3, nr_CoveredS = 60\<rparr>, \<lparr>nr_TS = 120, nr_Watts = 2, nr_CoveredS = 60\<rparr>]"
    by (simp add: history_def retain_def cell_of_def)
  then show ?thesis using node_ring_refines_history [of 2 60 ?recs] by (auto simp: int64_def)
qed

end
