(* ===== verification/EnergySplit.thy ===== *)
theory EnergySplit
  imports EnergyRing "HOL-Library.AList"
begin

text \<open>
  Splitting measured energy: node power between the cards that caused it (\<open>energy/attribute.go\<close>), finer buckets into a coarser one (the
  aggregation of \<open>energy/store.go\<close>), and a model's energy between its clients (\<open>SplitClients\<close> of \<open>energy/client.go\<close>). A \<open>float64\<close> is
  an exact rational; the conversions from and to the bit pattern of a \<open>float32\<close> are the arguments \<open>of32\<close> and \<open>to32\<close>. A Go
  map is an association list with distinct keys, in the order its keys first appear.
\<close>

section \<open>Maps with a default of zero\<close>

definition at_key :: "('k \<times> rat) list \<Rightarrow> 'k \<Rightarrow> rat" where
  "at_key m k = (case map_of m k of None \<Rightarrow> 0 | Some v \<Rightarrow> v)"

definition add_key :: "'k \<Rightarrow> rat \<Rightarrow> ('k \<times> rat) list \<Rightarrow> ('k \<times> rat) list" where
  "add_key k v m = AList.update k (at_key m k + v) m"

definition total :: "('k \<times> rat) list \<Rightarrow> rat" where
  "total m = sum_list (map snd m)"

section \<open>Attribution\<close>

record GPUReading =
  gd_GPUID :: int
  gd_Watts :: rat
  gd_Model :: string

record Attribution =
  at_BaselineW :: rat
  at_Watts :: "(int \<times> rat) list"

text \<open>How far a card is above its idle floor, never negative.\<close>

definition marginal_of :: "(int \<times> rat) list \<Rightarrow> GPUReading \<Rightarrow> rat" where
  "marginal_of gpuIdle r = (let m = gd_Watts r - at_key gpuIdle (gd_GPUID r) in if m < 0 then 0 else m)"

fun attribute_scan :: "(int \<times> rat) list \<Rightarrow> GPUReading list \<Rightarrow> (int \<times> rat) list \<Rightarrow> rat \<Rightarrow> (int \<times> rat) list \<Rightarrow>
    (int \<times> rat) list \<times> rat \<times> (int \<times> rat) list" where
  "attribute_scan gpuIdle [] marginal totalMarginal watts = (marginal, totalMarginal, watts)"
| "attribute_scan gpuIdle (r # rs) marginal totalMarginal watts =
     (let m = marginal_of gpuIdle r
      in attribute_scan gpuIdle rs (AList.update (gd_GPUID r) m marginal) (totalMarginal + m) (AList.update (gd_GPUID r) 0 watts))"

definition Attribute :: "rat \<Rightarrow> GPUReading list \<Rightarrow> (int \<times> rat) list \<Rightarrow> rat \<Rightarrow> Attribution" where
  "Attribute nodeW readings gpuIdle nodeBaseline =
     (case attribute_scan gpuIdle readings [] 0 [] of
        (marginal, totalMarginal, watts) \<Rightarrow>
          let inferred = nodeW - totalMarginal;
              nodeBaseline = (if inferred < nodeBaseline then inferred else nodeBaseline);
              nodeBaseline = (if nodeBaseline < 0 then 0 else nodeBaseline);
              work = nodeW - nodeBaseline;
              work = (if work < 0 then 0 else work);
              watts = (if totalMarginal > 0 \<and> work > 0
                       then fold (\<lambda>(i, m) w. AList.update i (work * m / totalMarginal) w) marginal watts else watts);
              baseline = nodeW - total watts
          in \<lparr>at_BaselineW = (if baseline < 0 then 0 else baseline), at_Watts = watts\<rparr>)"

text \<open>The idle floors: the minute records of the last day are the arguments \<open>nodes\<close> and \<open>gpus\<close>.\<close>

definition node_floor :: "(32 word \<Rightarrow> rat) \<Rightarrow> NodeRecord list \<Rightarrow> rat \<Rightarrow> rat" where
  "node_floor of32 nodes fallbackNode =
     fold (\<lambda>rec node. if nr_CoveredS rec = 0 then node
             else let w = of32 (nr_Watts rec) in if w > 0 \<and> w < node then w else node) nodes fallbackNode"

definition cross_min :: "(int \<times> rat) list \<Rightarrow> rat" where
  "cross_min fallbackGPU = fold (\<lambda>(_, w) c. if w > 0 \<and> (c = 0 \<or> w < c) then w else c) fallbackGPU 0"

definition gpu_floors :: "(32 word \<Rightarrow> rat) \<Rightarrow> GPURecord list \<Rightarrow> (int \<times> rat) list \<Rightarrow> (int \<times> rat) list" where
  "gpu_floors of32 gpus fallbackGPU =
     (let crossMin = cross_min fallbackGPU;
          start = map (\<lambda>(i, w). (i, if crossMin > 0 \<and> crossMin < w then crossMin else w)) fallbackGPU
      in fold (\<lambda>rec gpu.
           if gr_CoveredS rec = 0 then gpu
           else let i = uint (gr_GPUID rec); w = of32 (gr_RawW rec)
             in if w \<le> 0 then gpu
                else case map_of gpu i of
                       None \<Rightarrow> AList.update i w gpu
                     | Some cur \<Rightarrow> if w < cur then AList.update i w gpu else gpu) gpus start)"

text \<open>The attribution of a producer whose node figure is the sum of its cards.\<close>

definition Direct :: "rat \<Rightarrow> GPUReading list \<Rightarrow> (int \<times> rat) list" where
  "Direct nodeW readings = fold (\<lambda>r out. AList.update (gd_GPUID r) (gd_Watts r) out) readings []"

section \<open>Coarser buckets\<close>

definition clampCovered :: "int \<Rightarrow> 16 word" where
  "clampCovered covered = (if covered > 65535 then 65535 else if covered < 0 then 0 else word_of_int covered)"

definition aggregateNode :: "(32 word \<Rightarrow> rat) \<Rightarrow> (rat \<Rightarrow> 32 word) \<Rightarrow> NodeRecord list \<Rightarrow> int \<Rightarrow> NodeRecord" where
  "aggregateNode of32 to32 recs startTS =
     (let wattSeconds = sum_list (map (\<lambda>r. of32 (nr_Watts r) * of_int (uint (nr_CoveredS r))) recs);
          covered = sum_list (map (\<lambda>r. uint (nr_CoveredS r)) recs)
      in \<lparr>nr_TS = startTS, nr_Watts = (if covered > 0 then to32 (wattSeconds / of_int covered) else 0), nr_CoveredS = clampCovered covered\<rparr>)"

text \<open>The model that held the card longest; the order of the map is that of the list, and does not matter.\<close>

fun longest_model :: "(16 word \<times> int) list \<Rightarrow> 16 word \<Rightarrow> int \<Rightarrow> 16 word" where
  "longest_model [] idx best = idx"
| "longest_model ((i, secs) # ms) idx best =
     (if secs > best \<or> secs = best \<and> i < idx then longest_model ms i secs else longest_model ms idx best)"

definition model_times :: "GPURecord list \<Rightarrow> (16 word \<times> int) list" where
  "model_times recs =
     fold (\<lambda>r m. AList.update (gr_ModelIdx r) ((case map_of m (gr_ModelIdx r) of None \<Rightarrow> 0 | Some s \<Rightarrow> s) + uint (gr_CoveredS r)) m) recs []"

definition aggregateGPU :: "(32 word \<Rightarrow> rat) \<Rightarrow> (rat \<Rightarrow> 32 word) \<Rightarrow> GPURecord list \<Rightarrow> int \<Rightarrow> GPURecord" where
  "aggregateGPU of32 to32 recs startTS =
     (case recs of
        [] \<Rightarrow> \<lparr>gr_TS = startTS, gr_GPUID = 0, gr_ModelIdx = 0, gr_AttrW = 0, gr_RawW = 0, gr_CoveredS = 0\<rparr>
      | r # _ \<Rightarrow>
          let attrSeconds = sum_list (map (\<lambda>r. of32 (gr_AttrW r) * of_int (uint (gr_CoveredS r))) recs);
              rawSeconds = sum_list (map (\<lambda>r. of32 (gr_RawW r) * of_int (uint (gr_CoveredS r))) recs);
              covered = sum_list (map (\<lambda>r. uint (gr_CoveredS r)) recs)
          in \<lparr>gr_TS = startTS, gr_GPUID = gr_GPUID r, gr_ModelIdx = longest_model (model_times recs) 0 (-1),
              gr_AttrW = (if covered > 0 then to32 (attrSeconds / of_int covered) else 0),
              gr_RawW = (if covered > 0 then to32 (rawSeconds / of_int covered) else 0), gr_CoveredS = clampCovered covered\<rparr>)"

fun dominant_scan :: "(string \<times> int) list \<Rightarrow> int \<Rightarrow> string \<Rightarrow> string" where
  "dominant_scan [] best bestName = bestName"
| "dominant_scan ((name, n) # ms) best bestName =
     (if n > best \<or> n = best \<and> name < bestName then dominant_scan ms n name else dominant_scan ms best bestName)"

definition dominantModel :: "(string \<times> int) list \<Rightarrow> string" where
  "dominantModel modelTime = dominant_scan modelTime (-1) ''''"

section \<open>Clients\<close>

record ClientUse =
  cu_Client :: string
  cu_Model :: string
  cu_BusyS :: rat
  cu_Tokens :: nat

record ClientShare =
  cs_Client :: string
  cs_ModelIdx :: "16 word"
  cs_Wh :: rat
  cs_BusyS :: rat
  cs_Tokens :: nat

definition model_energy :: "(32 word \<Rightarrow> rat) \<Rightarrow> GPURecord list \<Rightarrow> (16 word \<times> rat) list" where
  "model_energy of32 gpus =
     fold (\<lambda>g e. if gr_ModelIdx g = 0 then e
             else add_key (gr_ModelIdx g) (of32 (gr_AttrW g) * of_int (uint (gr_CoveredS g)) / 3600) e) gpus []"

text \<open>The uses merged by client and model, in the order they first appear, with the busy time of each model.\<close>

fun merge_uses :: "(string \<Rightarrow> 'e + 16 word) \<Rightarrow> ClientUse list \<Rightarrow> ((string \<times> 16 word) \<times> ClientShare) list \<Rightarrow> (16 word \<times> rat) list \<Rightarrow>
    'e + ((string \<times> 16 word) \<times> ClientShare) list \<times> (16 word \<times> rat) list" where
  "merge_uses modelIndex [] merged busy = Inr (merged, busy)"
| "merge_uses modelIndex (u # us) merged busy =
     (if cu_Client u = '''' \<or> cu_Model u = '''' then merge_uses modelIndex us merged busy
      else
        case modelIndex (cu_Model u) of
          Inl e \<Rightarrow> Inl e
        | Inr idx \<Rightarrow>
            let p = (cu_Client u, idx);
                s = (case map_of merged p of
                       None \<Rightarrow> \<lparr>cs_Client = cu_Client u, cs_ModelIdx = idx, cs_Wh = 0, cs_BusyS = 0, cs_Tokens = 0\<rparr>
                     | Some s \<Rightarrow> s);
                s = s\<lparr>cs_BusyS := cs_BusyS s + cu_BusyS u, cs_Tokens := cs_Tokens s + cu_Tokens u\<rparr>
            in merge_uses modelIndex us (AList.update p s merged) (add_key idx (cu_BusyS u) busy))"

definition SplitClients :: "(32 word \<Rightarrow> rat) \<Rightarrow> GPURecord list \<Rightarrow> ClientUse list \<Rightarrow> (string \<Rightarrow> 'e + 16 word) \<Rightarrow> 'e + ClientShare list" where
  "SplitClients of32 gpus uses modelIndex =
     (let energy = model_energy of32 gpus
      in case merge_uses modelIndex uses [] [] of
           Inl e \<Rightarrow> Inl e
         | Inr (merged, busy) \<Rightarrow>
             Inr (map (\<lambda>((_, m), s). let b = at_key busy m in if b > 0 then s\<lparr>cs_Wh := at_key energy m * cs_BusyS s / b\<rparr> else s) merged @
               map (\<lambda>(idx, e). \<lparr>cs_Client = '''', cs_ModelIdx = idx, cs_Wh = e, cs_BusyS = 0, cs_Tokens = 0\<rparr>)
                 (filter (\<lambda>(idx, e). \<not> (at_key busy idx > 0 \<or> e = 0)) energy)))"

section \<open>Sums over maps\<close>

lemma at_key_simps [simp]: "at_key [] k = 0" "at_key ((i, v) # m) k = (if i = k then v else at_key m k)"
  by (simp_all add: at_key_def)

lemma total_simps [simp]: "total [] = 0" "total ((k, v) # m) = v + total m"
  by (simp_all add: total_def)

lemma at_key_absent: "k \<notin> fst ` set m \<Longrightarrow> at_key m k = 0"
  by (induction m) auto

lemma at_key_update [simp]: "at_key (AList.update k v m) x = (if x = k then v else at_key m x)"
  by (simp add: at_key_def update_conv)

lemma at_key_add [simp]: "at_key (add_key k v m) x = (if x = k then at_key m k + v else at_key m x)"
  by (simp add: add_key_def)

lemma distinct_add_key: "distinct (map fst m) \<Longrightarrow> distinct (map fst (add_key k v m))"
  by (simp add: add_key_def distinct_update)

lemma total_update: "total (AList.update k v m) = total m - at_key m k + v"
  by (induction m) auto

lemma total_scale: "total (map (\<lambda>(k, v). (k, a * v / b)) m) = a * total m / b"
  by (induction m) (auto simp: algebra_simps add_divide_distrib)

lemma at_key_nonneg: "\<forall>v \<in> snd ` set m. 0 \<le> v \<Longrightarrow> 0 \<le> at_key m k"
  by (induction m) auto

lemma values_update: "\<forall>v \<in> snd ` set m. P v \<Longrightarrow> P x \<Longrightarrow> \<forall>v \<in> snd ` set (AList.update k x m). P v"
  by (induction m) auto

lemma sum_of_key: "distinct (map fst m) \<Longrightarrow> sum_list (map (\<lambda>(k, v). if k = x then f v else 0) m) = (case map_of m x of None \<Rightarrow> 0 | Some v \<Rightarrow> f v)"
  for f :: "'v \<Rightarrow> rat"
proof (induction m)
  case (Cons p m)
  have "x \<notin> fst ` set m \<Longrightarrow> map_of m x = None" by (simp add: map_of_eq_None_iff)
  then show ?case using Cons by (cases p) auto
qed simp

text \<open>Every entry rewritten by its own key.\<close>

lemma update_past: "i \<notin> fst ` set pre \<Longrightarrow> AList.update i v (pre @ (i, y) # ws) = pre @ (i, v) # ws"
  by (induction pre) auto

lemma fold_update_all_from:
  assumes "distinct (map fst ms)" and "map fst ws = map fst ms" and "fst ` set pre \<inter> fst ` set ms = {}"
  shows "fold (\<lambda>(i, m) w. AList.update i (f m) w) ms (pre @ ws) = pre @ map (\<lambda>(i, m). (i, f m)) ms"
  using assms
proof (induction ms arbitrary: pre ws)
  case (Cons p ms)
  obtain i m where p: "p = (i, m)" by (cases p)
  obtain y ws' where ws: "ws = (i, y) # ws'" "map fst ws' = map fst ms" using Cons.prems(2) p by (cases ws) auto
  have "AList.update i (f m) (pre @ ws) = (pre @ [(i, f m)]) @ ws'"
    using Cons.prems(3) by (simp add: ws(1) p update_past)
  then show ?case using Cons.IH [of ws' "pre @ [(i, f m)]"] Cons.prems ws(2) by (auto simp: p)
qed simp

lemmas fold_update_all = fold_update_all_from [of _ _ "[]", simplified]

section \<open>Attribution reconciles\<close>

definition scan_ok :: "(int \<times> rat) list \<Rightarrow> rat \<Rightarrow> (int \<times> rat) list \<Rightarrow> bool" where
  "scan_ok marginal t watts \<longleftrightarrow> distinct (map fst marginal) \<and> map fst watts = map fst marginal \<and> (\<forall>v \<in> snd ` set marginal. 0 \<le> v) \<and>
     total marginal \<le> t \<and> (\<forall>v \<in> snd ` set watts. v = 0)"

lemma marginal_nonneg: "0 \<le> marginal_of gpuIdle r"
  by (simp add: marginal_of_def Let_def)

lemma scan_keeps_ok:
  "scan_ok marginal t watts \<Longrightarrow> attribute_scan gpuIdle rs marginal t watts = (ma, t', w) \<Longrightarrow>
    scan_ok ma t' w \<and> fst ` set ma = fst ` set marginal \<union> gd_GPUID ` set rs"
proof (induction rs arbitrary: marginal t watts)
  case (Cons r rs)
  let ?m = "marginal_of gpuIdle r"
  have "total (AList.update (gd_GPUID r) ?m marginal) \<le> t + ?m"
    using Cons.prems(1) at_key_nonneg [of marginal "gd_GPUID r"] by (simp add: total_update scan_ok_def)
  moreover have "\<forall>v \<in> snd ` set (AList.update (gd_GPUID r) ?m marginal). 0 \<le> v"
    by (rule values_update) (use Cons.prems(1) marginal_nonneg in \<open>simp_all add: scan_ok_def\<close>)
  moreover have "\<forall>v \<in> snd ` set (AList.update (gd_GPUID r) 0 watts). v = 0"
    by (rule values_update) (use Cons.prems(1) in \<open>simp_all add: scan_ok_def\<close>)
  ultimately have "scan_ok (AList.update (gd_GPUID r) ?m marginal) (t + ?m) (AList.update (gd_GPUID r) 0 watts)"
    using Cons.prems(1) by (simp add: scan_ok_def distinct_update update_keys)
  from Cons.IH [OF this] show ?case using Cons.prems(2) by (auto simp: Let_def dom_update image_iff)
qed simp

lemma attribution_cases:
  assumes "0 \<le> nodeW"
  obtains w where "Attribute nodeW readings gpuIdle nodeBaseline = \<lparr>at_BaselineW = nodeW - total w, at_Watts = w\<rparr>"
    "total w \<le> nodeW" "\<forall>v \<in> snd ` set w. 0 \<le> v" "distinct (map fst w)" "fst ` set w = gd_GPUID ` set readings"
proof -
  obtain ma t w0 where s: "attribute_scan gpuIdle readings [] 0 [] = (ma, t, w0)" by (cases "attribute_scan gpuIdle readings [] 0 []") auto
  have ok: "scan_ok ma t w0" "fst ` set ma = gd_GPUID ` set readings"
    using scan_keeps_ok [OF _ s] by (simp_all add: scan_ok_def)
  have keys: "fst ` set w0 = gd_GPUID ` set readings" "distinct (map fst w0)"
    using ok by (metis list.set_map scan_ok_def) (use ok in \<open>simp add: scan_ok_def\<close>)
  define b where "b = (let i = nodeW - t; n = (if i < nodeBaseline then i else nodeBaseline) in if n < 0 then 0 else n)"
  define k where "k = (if nodeW - b < 0 then 0 else nodeW - b)"
  define w where "w = (if t > 0 \<and> k > 0 then fold (\<lambda>(i, m) w. AList.update i (k * m / t) w) ma w0 else w0)"
  have A: "Attribute nodeW readings gpuIdle nodeBaseline = \<lparr>at_BaselineW = (if nodeW - total w < 0 then 0 else nodeW - total w), at_Watts = w\<rparr>"
    by (simp add: Attribute_def s Let_def b_def k_def w_def)
  have k: "0 \<le> k" "k \<le> nodeW" using assms by (simp_all add: k_def b_def Let_def)
  have "total w \<le> nodeW \<and> (\<forall>v \<in> snd ` set w. 0 \<le> v) \<and> distinct (map fst w) \<and> fst ` set w = gd_GPUID ` set readings"
  proof (cases "t > 0 \<and> k > 0")
    case True
    have w: "w = map (\<lambda>(i, m). (i, k * m / t)) ma"
      using ok(1) fold_update_all [of ma w0 "\<lambda>m. k * m / t"] True by (simp add: w_def scan_ok_def)
    have "total w = k * total ma / t" by (simp add: w total_scale)
    also have "\<dots> \<le> k" using ok(1) True by (simp add: scan_ok_def divide_le_eq mult_left_mono)
    finally have "total w \<le> nodeW" using k by simp
    moreover have "\<forall>v \<in> snd ` set w. 0 \<le> v" using ok(1) True k by (auto simp: w scan_ok_def)
    moreover have "map fst w = map fst ma" by (simp add: w o_def split_beta)
    ultimately show ?thesis using ok by (metis list.set_map scan_ok_def)
  next
    case False
    then have w: "w = w0" by (auto simp: w_def)
    have "\<forall>v \<in> snd ` set w0. v = 0" using ok(1) by (simp add: scan_ok_def)
    then have "total w0 = 0" by (induction w0) auto
    then show ?thesis using assms keys ok(1) by (simp add: w scan_ok_def)
  qed
  then show thesis using that [of w] A by auto
qed

section \<open>The order of a Go map does not matter\<close>

text \<open>The scan keeps the greatest count and, among equals, the least name.\<close>

lemma dominant_scan_best:
  assumes "dominant_scan ms best name = r"
  shows "\<exists>b. (b, r) \<in> insert (best, name) (prod.swap ` set ms) \<and>
    (\<forall>(n, x) \<in> insert (best, name) (prod.swap ` set ms). n < b \<or> n = b \<and> r \<le> x)"
  using assms
proof (induction ms arbitrary: best name)
  case (Cons p ms)
  obtain x n where p: "p = (x, n)" by (cases p)
  show ?case
  proof (cases "n > best \<or> n = best \<and> x < name")
    case True
    then have "dominant_scan ms n x = r" using Cons.prems by (simp add: p)
    from Cons.IH [OF this] obtain b where b: "(b, r) \<in> insert (n, x) (prod.swap ` set ms)"
        "\<forall>(m, y) \<in> insert (n, x) (prod.swap ` set ms). m < b \<or> m = b \<and> r \<le> y" by blast
    then have "best < b \<or> best = b \<and> r \<le> name" using True by force
    then show ?thesis using b by (auto simp: p)
  next
    case False
    then have "dominant_scan ms best name = r" using Cons.prems by (auto simp: p split: if_splits)
    from Cons.IH [OF this] obtain b where b: "(b, r) \<in> insert (best, name) (prod.swap ` set ms)"
        "\<forall>(m, y) \<in> insert (best, name) (prod.swap ` set ms). m < b \<or> m = b \<and> r \<le> y" by blast
    then have "n < b \<or> n = b \<and> r \<le> x" using False by force
    then show ?thesis using b by (auto simp: p)
  qed
qed auto

lemma dominantModel_order:
  assumes "set ms = set ms'"
  shows "dominantModel ms = dominantModel ms'"
proof -
  note d = dominant_scan_best [of _ "- 1" "''''", OF refl, folded dominantModel_def]
  obtain b where b: "(b, dominantModel ms) \<in> insert (- 1, '''') (prod.swap ` set ms)"
      "\<forall>(n, x) \<in> insert (- 1, '''') (prod.swap ` set ms). n < b \<or> n = b \<and> dominantModel ms \<le> x"
    using d [of ms] by blast
  obtain c where c: "(c, dominantModel ms') \<in> insert (- 1, '''') (prod.swap ` set ms)"
      "\<forall>(n, x) \<in> insert (- 1, '''') (prod.swap ` set ms). n < c \<or> n = c \<and> dominantModel ms' \<le> x"
    using d [of ms'] unfolding assms [symmetric] by blast
  have "c < b \<or> c = b \<and> dominantModel ms \<le> dominantModel ms'" using b(2) c(1) by blast
  moreover have "b < c \<or> b = c \<and> dominantModel ms' \<le> dominantModel ms" using c(2) b(1) by blast
  ultimately show ?thesis by auto
qed

section \<open>Clients share what their models used\<close>

definition energy_of :: "(32 word \<Rightarrow> rat) \<Rightarrow> GPURecord list \<Rightarrow> 16 word \<Rightarrow> rat" where
  "energy_of of32 gpus m = sum_list (map (\<lambda>g. of32 (gr_AttrW g) * of_int (uint (gr_CoveredS g)) / 3600) (filter (\<lambda>g. gr_ModelIdx g = m) gpus))"

definition charged_to :: "ClientShare list \<Rightarrow> 16 word \<Rightarrow> rat" where
  "charged_to shares m = sum_list (map (\<lambda>s. if cs_ModelIdx s = m then cs_Wh s else 0) shares)"

lemma model_energy_from:
  "distinct (map fst e) \<Longrightarrow>
    distinct (map fst (fold (\<lambda>g e. if gr_ModelIdx g = 0 then e else add_key (gr_ModelIdx g) (of32 (gr_AttrW g) * of_int (uint (gr_CoveredS g)) / 3600) e) gpus e)) \<and>
    (m \<noteq> 0 \<longrightarrow>
     at_key (fold (\<lambda>g e. if gr_ModelIdx g = 0 then e else add_key (gr_ModelIdx g) (of32 (gr_AttrW g) * of_int (uint (gr_CoveredS g)) / 3600) e) gpus e) m =
       at_key e m + energy_of of32 gpus m)"
proof (induction gpus arbitrary: e)
  case (Cons g gpus)
  show ?case
  proof (cases "gr_ModelIdx g = 0")
    case True
    then show ?thesis using Cons.IH [OF Cons.prems] by (auto simp: energy_of_def)
  next
    case False
    then show ?thesis using Cons.IH [OF distinct_add_key [OF Cons.prems]] by (auto simp: energy_of_def)
  qed
qed (simp add: energy_of_def)

lemma model_energy:
  "distinct (map fst (model_energy of32 gpus))" "m \<noteq> 0 \<Longrightarrow> at_key (model_energy of32 gpus) m = energy_of of32 gpus m"
  using model_energy_from [of "[]" of32 gpus m] by (simp_all add: model_energy_def)

definition merged_ok :: "((string \<times> 16 word) \<times> ClientShare) list \<Rightarrow> (16 word \<times> rat) list \<Rightarrow> bool" where
  "merged_ok merged busy \<longleftrightarrow> distinct (map fst merged) \<and> distinct (map fst busy) \<and>
     (\<forall>(p, s) \<in> set merged. cs_ModelIdx s = snd p \<and> cs_Wh s = 0) \<and>
     (\<forall>m. sum_list (map (\<lambda>(p, s). if snd p = m then cs_BusyS s else 0) merged) = at_key busy m)"

lemma sum_update:
  fixes f :: "'k \<Rightarrow> 'v \<Rightarrow> rat"
  assumes "distinct (map fst m)"
  shows "sum_list (map (\<lambda>(k, v). f k v) (AList.update k v m)) =
    sum_list (map (\<lambda>(k, v). f k v) m) - (case map_of m k of None \<Rightarrow> 0 | Some u \<Rightarrow> f k u) + f k v"
  using assms by (induction m) auto

lemma pairs_update: "\<forall>(k, v) \<in> set m. P k v \<Longrightarrow> P x y \<Longrightarrow> \<forall>(k, v) \<in> set (AList.update x y m). P k v"
  by (induction m) auto

lemma merge_keeps_ok:
  "merged_ok merged busy \<Longrightarrow>
    (case merge_uses modelIndex us merged busy of
       Inl e \<Rightarrow> \<exists>u \<in> set us. modelIndex (cu_Model u) = Inl e
     | Inr (merged', busy') \<Rightarrow> merged_ok merged' busy')"
proof (induction us arbitrary: merged busy)
  case (Cons u us)
  show ?case
  proof (cases "cu_Client u = '''' \<or> cu_Model u = ''''")
    case True
    then show ?thesis using Cons.IH [OF Cons.prems] by (auto split: sum.splits)
  next
    case False
    show ?thesis
    proof (cases "modelIndex (cu_Model u)")
      case (Inl e)
      then show ?thesis using False by auto
    next
      case (Inr idx)
      define s where "s = (case map_of merged (cu_Client u, idx) of
          None \<Rightarrow> \<lparr>cs_Client = cu_Client u, cs_ModelIdx = idx, cs_Wh = 0, cs_BusyS = 0, cs_Tokens = 0\<rparr> | Some s \<Rightarrow> s)"
      define s' where "s' = s\<lparr>cs_BusyS := cs_BusyS s + cu_BusyS u, cs_Tokens := cs_Tokens s + cu_Tokens u\<rparr>"
      have s: "cs_ModelIdx s' = idx" "cs_Wh s' = 0"
        using Cons.prems by (auto simp: s'_def s_def merged_ok_def split: option.splits dest!: map_of_SomeD)
      have "merged_ok (AList.update (cu_Client u, idx) s' merged) (add_key idx (cu_BusyS u) busy)"
      proof -
        have "\<forall>(p, s) \<in> set (AList.update (cu_Client u, idx) s' merged). cs_ModelIdx s = snd p \<and> cs_Wh s = 0"
          by (rule pairs_update) (use Cons.prems s in \<open>simp_all add: merged_ok_def\<close>)
        moreover have "sum_list (map (\<lambda>(p, s). if snd p = m then cs_BusyS s else 0) (AList.update (cu_Client u, idx) s' merged)) =
            at_key (add_key idx (cu_BusyS u) busy) m" for m
          using Cons.prems
          by (auto simp: merged_ok_def sum_update s'_def s_def split: option.splits)
        ultimately show ?thesis using Cons.prems by (auto simp: merged_ok_def distinct_update distinct_add_key)
      qed
      from Cons.IH [OF this] show ?thesis using False Inr by (auto simp: Let_def s_def s'_def split: sum.splits)
    qed
  qed
qed simp

lemma used_part:
  assumes ok: "merged_ok merged busy"
  shows "charged_to (map (\<lambda>((_, m), s). let b = at_key busy m in if b > 0 then s\<lparr>cs_Wh := at_key energy m * cs_BusyS s / b\<rparr> else s) merged) m =
    (if at_key busy m > 0 then at_key energy m else 0)"
proof -
  let ?b = "at_key busy m" and ?e = "at_key energy m"
  have pt: "cs_ModelIdx s = k \<and> cs_Wh s = 0" if "((c, k), s) \<in> set merged" for c k s
    using ok that by (auto simp: merged_ok_def)
  have "charged_to (map (\<lambda>((_, m), s). let b = at_key busy m in if b > 0 then s\<lparr>cs_Wh := at_key energy m * cs_BusyS s / b\<rparr> else s) merged) m =
      sum_list (map (\<lambda>(p, s). (if ?b > 0 then ?e / ?b else 0) * (if snd p = m then cs_BusyS s else 0)) merged)"
    unfolding charged_to_def map_map by (intro arg_cong [where f = sum_list] map_cong refl) (auto simp: Let_def dest!: pt)
  also have "\<dots> = (if ?b > 0 then ?e / ?b else 0) * sum_list (map (\<lambda>(p, s). if snd p = m then cs_BusyS s else 0) merged)"
    by (simp only: case_prod_unfold sum_list_const_mult)
  also have "\<dots> = (if ?b > 0 then ?e / ?b else 0) * ?b" using ok by (simp add: merged_ok_def)
  finally show ?thesis by simp
qed

lemma unused_part:
  assumes "distinct (map fst energy)"
  shows "charged_to (map (\<lambda>(idx, e). \<lparr>cs_Client = '''', cs_ModelIdx = idx, cs_Wh = e, cs_BusyS = 0, cs_Tokens = 0\<rparr>)
      (filter (\<lambda>(idx, e). \<not> (at_key busy idx > 0 \<or> e = 0)) energy)) m = (if at_key busy m > 0 then 0 else at_key energy m)"
proof -
  have "charged_to (map (\<lambda>(idx, e). \<lparr>cs_Client = '''', cs_ModelIdx = idx, cs_Wh = e, cs_BusyS = 0, cs_Tokens = 0\<rparr>)
      (filter (\<lambda>(idx, e). \<not> (at_key busy idx > 0 \<or> e = 0)) energy)) m =
      sum_list (map (\<lambda>(k, e). if k = m then (if at_key busy m > 0 then 0 else e) else 0) energy)"
    unfolding charged_to_def map_map sum_list_map_filter' by (intro arg_cong [where f = sum_list] map_cong refl) auto
  also have "\<dots> = (if at_key busy m > 0 then 0 else at_key energy m)"
    using assms by (simp add: sum_of_key at_key_def split: option.splits)
  finally show ?thesis .
qed

lemma charged_to_append: "charged_to (xs @ ys) m = charged_to xs m + charged_to ys m"
  by (simp add: charged_to_def)

section \<open>Properties\<close>

text \<open>C38. Attribution reconciles: what the cards are charged and the baseline add up to the measured node power, nothing is
negative, and exactly the cards that were read have a share. This holds for any idle floors, stale ones and a card read twice included.\<close>

theorem attribution_reconciles:
  assumes "0 \<le> nodeW"
  shows "let a = Attribute nodeW readings gpuIdle nodeBaseline in
    at_BaselineW a + total (at_Watts a) = nodeW \<and> 0 \<le> at_BaselineW a \<and> (\<forall>(i, w) \<in> set (at_Watts a). 0 \<le> w) \<and>
    distinct (map fst (at_Watts a)) \<and> fst ` set (at_Watts a) = gd_GPUID ` set readings"
proof -
  obtain w where "Attribute nodeW readings gpuIdle nodeBaseline = \<lparr>at_BaselineW = nodeW - total w, at_Watts = w\<rparr>"
    "total w \<le> nodeW" "\<forall>v \<in> snd ` set w. 0 \<le> v" "distinct (map fst w)" "fst ` set w = gd_GPUID ` set readings"
    using attribution_cases [OF assms] .
  then show ?thesis by (auto simp: Let_def)
qed

theorem attribution_reconciles_witness:
  "let a = Attribute 730 [\<lparr>gd_GPUID = 0, gd_Watts = 163, gd_Model = ''m''\<rparr>, \<lparr>gd_GPUID = 1, gd_Watts = 20, gd_Model = ''m''\<rparr>] [(0, 23), (1, 20)] 600
   in at_Watts a = [(0, 140), (1, 0)] \<and> at_BaselineW a + total (at_Watts a) = 730"
proof -
  let ?r = "[\<lparr>gd_GPUID = 0, gd_Watts = 163, gd_Model = ''m''\<rparr>, \<lparr>gd_GPUID = 1, gd_Watts = 20, gd_Model = ''m''\<rparr>]"
  have "at_Watts (Attribute 730 ?r [(0, 23), (1, 20)] 600) = [(0, 140), (1, 0)]"
    by (simp add: Attribute_def marginal_of_def Let_def)
  then show ?thesis using attribution_reconciles [of 730 ?r "[(0, 23), (1, 20)]" 600] by (simp add: Let_def)
qed

text \<open>C39. The clients' shares of a minute add up: for every model, the energy charged to its clients, or to nobody when none
held a slot, is the energy its cards were attributed. Splitting fails only when the model table refuses a name.\<close>

theorem client_shares_add_up:
  "case SplitClients of32 gpus uses modelIndex of
     Inl e \<Rightarrow> \<exists>u \<in> set uses. modelIndex (cu_Model u) = Inl e
   | Inr shares \<Rightarrow> \<forall>m. m \<noteq> 0 \<longrightarrow> charged_to shares m = energy_of of32 gpus m"
proof (cases "merge_uses modelIndex uses [] []")
  case (Inl e)
  then show ?thesis using merge_keeps_ok [of "[]" "[]" uses modelIndex] by (simp add: SplitClients_def Let_def merged_ok_def)
next
  case (Inr mb)
  obtain merged busy where mb: "mb = (merged, busy)" by (cases mb)
  have "merged_ok merged busy" using merge_keeps_ok [of "[]" "[]" uses modelIndex] Inr by (simp add: mb merged_ok_def)
  then show ?thesis
    by (simp add: SplitClients_def Let_def Inr mb charged_to_append used_part [unfolded Let_def] unused_part [simplified] model_energy)
qed

theorem client_shares_add_up_witness:
  "let gpu = \<lparr>gr_TS = 60, gr_GPUID = 0, gr_ModelIdx = 1, gr_AttrW = 3, gr_RawW = 0, gr_CoveredS = 60\<rparr>;
       use1 = \<lparr>cu_Client = ''a'', cu_Model = ''m'', cu_BusyS = 20, cu_Tokens = 5\<rparr>;
       use2 = \<lparr>cu_Client = ''b'', cu_Model = ''m'', cu_BusyS = 40, cu_Tokens = 7\<rparr>
   in case SplitClients (\<lambda>w. of_int (uint w)) [gpu] [use1, use2] (\<lambda>_. Inr 1 :: unit + 16 word) of
        Inl _ \<Rightarrow> False
      | Inr shares \<Rightarrow> map cs_Wh shares = [1 / 60, 1 / 30] \<and> charged_to shares 1 = 1 / 20"
  using client_shares_add_up [where ?of32.0 = "\<lambda>w. of_int (uint w)"
    and gpus = "[\<lparr>gr_TS = 60, gr_GPUID = 0, gr_ModelIdx = 1, gr_AttrW = 3, gr_RawW = 0, gr_CoveredS = 60\<rparr>]"
    and uses = "[\<lparr>cu_Client = ''a'', cu_Model = ''m'', cu_BusyS = 20, cu_Tokens = 5\<rparr>, \<lparr>cu_Client = ''b'', cu_Model = ''m'', cu_BusyS = 40, cu_Tokens = 7\<rparr>]"
    and modelIndex = "\<lambda>_. Inr 1 :: unit + 16 word"]
  by (simp add: SplitClients_def model_energy_def energy_of_def Let_def add_key_def)

end
