(* ===== verification/ModelTable.thy ===== *)
theory ModelTable
  imports GoText "HOL-Library.AList"
begin

text \<open>
  The table of model names behind the energy records (\<open>energy/models.go\<close>): an append-only file with one name on a line, whose line number is the
  index stamped into records. The file is its bytes, a missing one being empty. An append takes what goes wrong with it as an argument. The lines
  are those of Go's \<open>bufio.Scanner\<close>, with its limit on the length of a line.
\<close>

definition newline :: char where "newline = CHR 0x0A"

definition carriage :: char where "carriage = CHR 0x0D"

definition maxModels :: nat where "maxModels = 65535"

definition MaxScanTokenSize :: nat where "MaxScanTokenSize = 65536"

record modelTable =
  mt_file :: string
  mt_names :: "string list"
  mt_index :: "(string \<times> nat) list"

datatype table_error = TruncateFailed | LineTooLong | AppendFailed | TableFull

text \<open>The lines of a text, the last one with or without its newline.\<close>

fun scan_lines :: "string \<Rightarrow> string \<Rightarrow> string list" where
  "scan_lines acc [] = (if acc = [] then [] else [rev acc])"
| "scan_lines acc (c # cs) = (if c = newline then rev acc # scan_lines [] cs else scan_lines (c # acc) cs)"

definition trim_carriage :: "string \<Rightarrow> string" where
  "trim_carriage s = rev (dropWhile (\<lambda>c. c = carriage) (rev s))"

text \<open>What is left of a file after its torn last line is cut off.\<close>

definition complete_lines :: "string \<Rightarrow> string" where
  "complete_lines raw = rev (dropWhile (\<lambda>c. c \<noteq> newline) (rev raw))"

definition load_name :: "string \<Rightarrow> modelTable \<Rightarrow> modelTable" where
  "load_name name t = t\<lparr>mt_index := AList.update name (length (mt_names t)) (mt_index t), mt_names := mt_names t @ [name]\<rparr>"

text \<open>\<open>cuts\<close> says whether the operating system cuts a torn line off.\<close>

definition openModelTable :: "bool \<Rightarrow> string \<Rightarrow> table_error + modelTable" where
  "openModelTable cuts raw =
     (if raw \<noteq> [] \<and> last raw \<noteq> newline \<and> \<not> cuts then Inl TruncateFailed
      else
        let kept = (if raw \<noteq> [] \<and> last raw \<noteq> newline then complete_lines raw else raw);
            ls = scan_lines [] kept
        in if \<exists>l \<in> set ls. length l \<ge> MaxScanTokenSize then Inl LineTooLong
           else Inr (fold (\<lambda>l. load_name (trim_carriage l)) ls \<lparr>mt_file = kept, mt_names = [], mt_index = []\<rparr>))"

text \<open>An append succeeds, cannot open or stat the file, or fails in the write after some bytes or in the sync; then the file is cut back, if that works.\<close>

datatype append_fault = NoFault | OpenFails | WriteFails nat bool | SyncFails bool

fun append_line :: "append_fault \<Rightarrow> string \<Rightarrow> string \<Rightarrow> bool \<times> string" where
  "append_line NoFault name f = (True, f @ name @ [newline])"
| "append_line OpenFails name f = (False, f)"
| "append_line (WriteFails n cuts) name f = (False, if cuts then f else f @ take n (name @ [newline]))"
| "append_line (SyncFails cuts) name f = (False, if cuts then f else f @ name @ [newline])"

definition Index :: "append_fault \<Rightarrow> append_fault \<Rightarrow> string \<Rightarrow> modelTable \<Rightarrow> (table_error + nat) \<times> modelTable" where
  "Index zeroFault nameFault name t =
     (if name = '''' then (Inr 0, t)
      else
        case map_of (mt_index t) name of
          Some idx \<Rightarrow> (Inr idx, t)
        | None \<Rightarrow>
            (case (if mt_names t = [] then append_line zeroFault '''' (mt_file t) else (True, mt_file t)) of
               (False, f) \<Rightarrow> (Inl AppendFailed, t\<lparr>mt_file := f\<rparr>)
             | (True, f) \<Rightarrow>
                 let t = (if mt_names t = [] then load_name '''' (t\<lparr>mt_file := f\<rparr>) else t)
                 in if length (mt_names t) \<ge> maxModels then (Inl TableFull, t)
                    else
                      (case append_line nameFault name (mt_file t) of
                         (False, f) \<Rightarrow> (Inl AppendFailed, t\<lparr>mt_file := f\<rparr>)
                       | (True, f) \<Rightarrow> (Inr (length (mt_names t)), load_name name (t\<lparr>mt_file := f\<rparr>)))))"

definition Name :: "nat \<Rightarrow> modelTable \<Rightarrow> string" where
  "Name idx t = (if idx \<ge> length (mt_names t) then '''' else mt_names t ! idx)"

definition Lookup :: "string \<Rightarrow> modelTable \<Rightarrow> nat option" where
  "Lookup name t = map_of (mt_index t) name"

section \<open>Well-formed tables\<close>

text \<open>A name a line can hold.\<close>

definition line_name :: "string \<Rightarrow> bool" where
  "line_name n \<longleftrightarrow> newline \<notin> set n \<and> (n = [] \<or> last n \<noteq> carriage) \<and> length n < MaxScanTokenSize"

definition table_text :: "string list \<Rightarrow> string" where
  "table_text names = concat (map (\<lambda>n. n @ [newline]) names)"

definition table_ok :: "modelTable \<Rightarrow> bool" where
  "table_ok t \<longleftrightarrow> mt_file t = table_text (mt_names t) \<and> distinct (mt_names t) \<and> (\<forall>n \<in> set (mt_names t). line_name n) \<and>
     (mt_names t \<noteq> [] \<longrightarrow> hd (mt_names t) = []) \<and> mt_index t = zip (mt_names t) [0..<length (mt_names t)] \<and> length (mt_names t) \<le> maxModels"

definition empty_table :: modelTable where
  "empty_table = \<lparr>mt_file = [], mt_names = [], mt_index = []\<rparr>"

lemma empty_table_ok: "table_ok empty_table"
  by (simp add: table_ok_def empty_table_def table_text_def)

lemma scan_line: "newline \<notin> set l \<Longrightarrow> scan_lines acc (l @ newline # s) = (rev acc @ l) # scan_lines [] s"
  by (induction l arbitrary: acc) auto

lemma scan_table: "\<forall>n \<in> set names. newline \<notin> set n \<Longrightarrow> scan_lines [] (table_text names) = names"
  by (induction names) (auto simp: table_text_def scan_line)

lemma trim_line_name: "line_name n \<Longrightarrow> trim_carriage n = n"
  by (cases n rule: rev_cases) (auto simp: line_name_def trim_carriage_def)

lemma update_new: "k \<notin> fst ` set m \<Longrightarrow> AList.update k v m = m @ [(k, v)]"
  by (induction m) auto

lemma load_lines:
  assumes "distinct (ms @ names)" and "\<forall>n \<in> set names. line_name n"
  shows "fold (\<lambda>l. load_name (trim_carriage l)) names \<lparr>mt_file = f, mt_names = ms, mt_index = zip ms [0..<length ms]\<rparr> =
    \<lparr>mt_file = f, mt_names = ms @ names, mt_index = zip (ms @ names) [0..<length (ms @ names)]\<rparr>"
  using assms
proof (induction names arbitrary: ms)
  case (Cons n names)
  have n: "n \<notin> fst ` set (zip ms [0..<length ms])" using Cons.prems(1) by (auto dest: set_zip_leftD)
  have "load_name (trim_carriage n) \<lparr>mt_file = f, mt_names = ms, mt_index = zip ms [0..<length ms]\<rparr> =
      \<lparr>mt_file = f, mt_names = ms @ [n], mt_index = zip (ms @ [n]) [0..<length (ms @ [n])]\<rparr>"
    using Cons.prems(2) by (simp add: load_name_def trim_line_name update_new [OF n])
  then show ?case using Cons.IH [of "ms @ [n]"] Cons.prems by simp
qed simp
lemma table_text_end: "table_text names = [] \<or> last (table_text names) = newline"
  by (cases names rule: rev_cases) (simp_all add: table_text_def)

lemma complete_lines_torn:
  assumes "newline \<notin> set frag" and "f = [] \<or> last f = newline"
  shows "complete_lines (f @ frag) = f"
proof -
  have "dropWhile (\<lambda>c. c \<noteq> newline) (rev frag @ rev f) = dropWhile (\<lambda>c. c \<noteq> newline) (rev f)"
    using assms(1) by (intro dropWhile_append2) auto
  then show ?thesis using assms(2) by (cases f rule: rev_cases) (simp_all add: complete_lines_def)
qed

text \<open>Opening what is on disk gives the table back, also when the machine stopped in the middle of a line.\<close>

lemma open_torn:
  assumes "table_ok t" and "newline \<notin> set frag"
  shows "openModelTable True (mt_file t @ frag) = Inr t"
proof -
  let ?raw = "mt_file t @ frag"
  have kept: "(if ?raw \<noteq> [] \<and> last ?raw \<noteq> newline then complete_lines ?raw else ?raw) = mt_file t"
  proof (cases "frag = []")
    case True
    then show ?thesis using assms(1) table_text_end [of "mt_names t"] by (auto simp: table_ok_def)
  next
    case False
    then have "last ?raw \<noteq> newline" using assms(2) last_in_set [OF False] by (metis last_appendR)
    moreover have "complete_lines ?raw = mt_file t"
      using assms table_text_end [of "mt_names t"] by (intro complete_lines_torn) (auto simp: table_ok_def)
    ultimately show ?thesis using False by simp
  qed
  have "scan_lines [] (mt_file t) = mt_names t" using assms(1) by (simp add: table_ok_def line_name_def scan_table)
  moreover have "fold (\<lambda>l. load_name (trim_carriage l)) (mt_names t) \<lparr>mt_file = mt_file t, mt_names = [], mt_index = []\<rparr> = t"
    using load_lines [of "[]" "mt_names t" "mt_file t"] assms(1) by (simp add: table_ok_def)
  moreover have "\<not> (\<exists>l \<in> set (mt_names t). length l \<ge> MaxScanTokenSize)" using assms(1) by (auto simp: table_ok_def line_name_def)
  ultimately show ?thesis unfolding openModelTable_def Let_def kept by simp
qed

lemma open_same: "table_ok t \<Longrightarrow> openModelTable True (mt_file t) = Inr t"
  using open_torn [of t "[]"] by simp

text \<open>A name added at the end with its line.\<close>

definition grow :: "string \<Rightarrow> modelTable \<Rightarrow> modelTable" where
  "grow n t = load_name n (t\<lparr>mt_file := mt_file t @ n @ [newline]\<rparr>)"

lemma grow_ok:
  assumes "table_ok t" and "line_name n" and "n \<notin> set (mt_names t)" and "mt_names t = [] \<longleftrightarrow> n = []" and "length (mt_names t) < maxModels"
  shows "table_ok (grow n t)" "mt_names (grow n t) = mt_names t @ [n]"
proof -
  have "n \<notin> fst ` set (mt_index t)" using assms(1,3) by (auto simp: table_ok_def dest: set_zip_leftD)
  from update_new [OF this] show "table_ok (grow n t)" "mt_names (grow n t) = mt_names t @ [n]"
    using assms by (auto simp: grow_def load_name_def table_ok_def table_text_def hd_append)
qed

lemma index_lookup:
  assumes "table_ok t"
  shows "map_of (mt_index t) n = Some i \<longleftrightarrow> i < length (mt_names t) \<and> mt_names t ! i = n"
    and "map_of (mt_index t) n = None \<longleftrightarrow> n \<notin> set (mt_names t)"
proof -
  have z: "mt_index t = zip (mt_names t) [0..<length (mt_names t)]" "distinct (mt_names t)" using assms by (simp_all add: table_ok_def)
  show "map_of (mt_index t) n = Some i \<longleftrightarrow> i < length (mt_names t) \<and> mt_names t ! i = n"
    using z(2) by (auto simp: z(1) map_of_eq_Some_iff in_set_zip)
  show "map_of (mt_index t) n = None \<longleftrightarrow> n \<notin> set (mt_names t)" by (simp add: z(1) map_of_zip_is_None)
qed

fun cuts_back :: "append_fault \<Rightarrow> bool" where
  "cuts_back NoFault = True"
| "cuts_back OpenFails = True"
| "cuts_back (WriteFails n cuts) = cuts"
| "cuts_back (SyncFails cuts) = cuts"

lemma append_line_cases:
  assumes "cuts_back fault"
  shows "append_line fault n f = (True, f @ n @ [newline]) \<or> append_line fault n f = (False, f)"
  using assms by (cases fault) auto

text \<open>Asking for an index keeps a table well-formed and only adds names at its end.\<close>

lemma Index_keeps:
  assumes ok: "table_ok t" and n: "line_name n" and c: "cuts_back zf" "cuts_back nf" and I: "Index zf nf n t = (r, t')"
  shows "table_ok t' \<and> (\<exists>new. mt_names t' = mt_names t @ new) \<and> (\<forall>i. r = Inr i \<longrightarrow> n = [] \<and> i = 0 \<or> i < length (mt_names t') \<and> mt_names t' ! i = n)"
proof (cases "n = [] \<or> map_of (mt_index t) n \<noteq> None")
  case True
  have "t' = t \<and> (\<forall>i. r = Inr i \<longrightarrow> n = [] \<and> i = 0 \<or> i < length (mt_names t) \<and> mt_names t ! i = n)"
  proof (cases "n = []")
    case False
    then obtain i where i: "map_of (mt_index t) n = Some i" using True by blast
    then have "r = Inr i \<and> t' = t" using I False by (simp add: Index_def)
    then show ?thesis using index_lookup(1) [OF ok] i by simp
  qed (use I in \<open>auto simp: Index_def\<close>)
  then show ?thesis using ok by simp
next
  case False
  then have new: "n \<noteq> []" "n \<notin> set (mt_names t)" using index_lookup(2) [OF ok] by auto
  define u where "u = (if mt_names t = [] then grow [] t else t)"
  have u: "table_ok u" "mt_names u \<noteq> []" "n \<notin> set (mt_names u)" "\<exists>new. mt_names u = mt_names t @ new"
  proof -
    have "table_ok (grow [] t) \<and> mt_names (grow [] t) = mt_names t @ [[]]" if "mt_names t = []"
      using grow_ok [OF ok, of "[]"] that by (simp add: line_name_def maxModels_def MaxScanTokenSize_def)
    then show "table_ok u" "mt_names u \<noteq> []" "n \<notin> set (mt_names u)" "\<exists>new. mt_names u = mt_names t @ new"
      using ok new by (auto simp: u_def)
  qed
  have "(r, t') = (Inl AppendFailed, t) \<or> (\<exists>e. (r, t') = (Inl e, u)) \<or> length (mt_names u) < maxModels \<and> (r, t') = (Inr (length (mt_names u)), grow n u)"
  proof (cases "mt_names t = [] \<and> \<not> fst (append_line zf [] (mt_file t))")
    case True
    then have "append_line zf [] (mt_file t) = (False, mt_file t)" using append_line_cases [OF c(1), of "[]" "mt_file t"] by auto
    then show ?thesis using I False True by (auto simp: Index_def)
  next
    case False2: False
    then have z: "mt_names t = [] \<Longrightarrow> append_line zf [] (mt_file t) = (True, mt_file t @ [newline])"
      using append_line_cases [OF c(1), of "[]" "mt_file t"] by auto
    have "Index zf nf n t =
        (if length (mt_names u) \<ge> maxModels then (Inl TableFull, u)
         else case append_line nf n (mt_file u) of
                (False, f) \<Rightarrow> (Inl AppendFailed, u\<lparr>mt_file := f\<rparr>)
              | (True, f) \<Rightarrow> (Inr (length (mt_names u)), load_name n (u\<lparr>mt_file := f\<rparr>)))"
    proof (cases "mt_names t = []")
      case True
      then have e: "u = load_name [] (t\<lparr>mt_file := mt_file t @ [newline]\<rparr>)" by (simp add: u_def grow_def)
      show ?thesis unfolding e using False True z by (simp add: Index_def Let_def)
    next
      case names: False
      then have e: "u = t" by (simp add: u_def)
      show ?thesis unfolding e using False names by (simp add: Index_def)
    qed
    then show ?thesis using I append_line_cases [OF c(2), of n "mt_file u"] by (auto simp: grow_def split: if_splits)
  qed
  then show ?thesis
    using grow_ok [OF u(1) n u(3)] u new ok by (auto simp: nth_append)
qed

section \<open>Any history of a table\<close>

text \<open>What a process writes when it adds a name, and what may happen to a table: a question, a stop of the machine after some
of those bytes with the restart after it, and an orderly restart.\<close>

definition stop_bytes :: "string \<Rightarrow> modelTable \<Rightarrow> string" where
  "stop_bytes n t =
     (if n = [] \<or> map_of (mt_index t) n \<noteq> None then []
      else (if mt_names t = [] then [newline] else []) @ (if length (mt_names t) < maxModels then n @ [newline] else []))"

datatype table_event = Ask string append_fault append_fault | Stop string nat | Restart

fun table_step :: "modelTable \<times> (string \<times> nat) list \<Rightarrow> table_event \<Rightarrow> modelTable \<times> (string \<times> nat) list" where
  "table_step (t, handed) (Ask n zf nf) =
     (case Index zf nf n t of (Inl _, t') \<Rightarrow> (t', handed) | (Inr i, t') \<Rightarrow> (t', (n, i) # handed))"
| "table_step (t, handed) (Stop n k) =
     (case openModelTable True (mt_file t @ take k (stop_bytes n t)) of Inl _ \<Rightarrow> (t, handed) | Inr t' \<Rightarrow> (t', handed))"
| "table_step (t, handed) Restart = (case openModelTable True (mt_file t) of Inl _ \<Rightarrow> (t, handed) | Inr t' \<Rightarrow> (t', handed))"

fun event_ok :: "table_event \<Rightarrow> bool" where
  "event_ok (Ask n zf nf) = (line_name n \<and> cuts_back zf \<and> cuts_back nf)"
| "event_ok (Stop n k) = line_name n"
| "event_ok Restart = True"

lemma stop_in_line:
  assumes ok: "table_ok u" and n: "line_name n" "n \<notin> set (mt_names u)" "mt_names u = [] \<longleftrightarrow> n = []" "length (mt_names u) < maxModels"
  shows "openModelTable True (mt_file u @ take k (n @ [newline])) = Inr u \<or>
    openModelTable True (mt_file u @ take k (n @ [newline])) = Inr (grow n u) \<and> table_ok (grow n u)"
proof (cases "k \<le> length n")
  case True
  have "newline \<notin> set (take k n)" using n(1) set_take_subset [of k n] by (auto simp: line_name_def)
  then show ?thesis using open_torn [OF ok] True by simp
next
  case False
  have "table_ok (grow n u)" using grow_ok(1) [OF ok n] .
  moreover have "mt_file (grow n u) = mt_file u @ n @ [newline]" by (simp add: grow_def load_name_def)
  ultimately show ?thesis using open_same [of "grow n u"] False by simp
qed

lemma stop_keeps:
  assumes ok: "table_ok t" and n: "line_name n"
  shows "\<exists>t'. openModelTable True (mt_file t @ take k (stop_bytes n t)) = Inr t' \<and> table_ok t' \<and> (\<exists>new. mt_names t' = mt_names t @ new)"
proof (cases "n = [] \<or> map_of (mt_index t) n \<noteq> None \<or> length (mt_names t) \<ge> maxModels")
  case True
  moreover have "length (mt_names t) \<ge> maxModels \<Longrightarrow> mt_names t \<noteq> []" by (auto simp: maxModels_def)
  ultimately have "stop_bytes n t = []" unfolding stop_bytes_def by (auto simp only: not_le [symmetric] if_True if_False append_Nil split: if_split)
  then show ?thesis using open_same [OF ok] ok by simp
next
  case False
  then have new: "n \<noteq> []" "n \<notin> set (mt_names t)" "length (mt_names t) < maxModels" using index_lookup(2) [OF ok] by auto
  show ?thesis
  proof (cases "mt_names t = []")
    case names: False
    have "stop_bytes n t = n @ [newline]" using False names by (simp add: stop_bytes_def)
    moreover have "mt_names (grow n t) = mt_names t @ [n]" by (simp add: grow_def load_name_def)
    moreover have "openModelTable True (mt_file t @ take k (n @ [newline])) = Inr t \<or>
        openModelTable True (mt_file t @ take k (n @ [newline])) = Inr (grow n t) \<and> table_ok (grow n t)"
      by (rule stop_in_line [OF ok n new(2)]) (use new names in simp_all)
    ultimately show ?thesis using ok by (elim disjE) simp_all
  next
    case True
    let ?z = "grow [] t"
    have z: "table_ok ?z" "mt_names ?z = [[]]" "mt_file ?z = mt_file t @ [newline]"
      using grow_ok [OF ok, of "[]"] True by (simp_all add: line_name_def maxModels_def MaxScanTokenSize_def grow_def load_name_def)
    have b: "stop_bytes n t = [newline] @ n @ [newline]" using False True by (simp add: stop_bytes_def)
    have g: "mt_names (grow n ?z) = [[], n]" using z(2) by (simp add: grow_def load_name_def)
    show ?thesis
    proof (cases k)
      case 0
      then show ?thesis using open_same [OF ok] ok by simp
    next
      case (Suc j)
      have "mt_file t @ take k (stop_bytes n t) = mt_file ?z @ take j (n @ [newline])" by (simp add: b Suc z(3))
      moreover have "openModelTable True (mt_file ?z @ take j (n @ [newline])) = Inr ?z \<or>
          openModelTable True (mt_file ?z @ take j (n @ [newline])) = Inr (grow n ?z) \<and> table_ok (grow n ?z)"
        by (rule stop_in_line [OF z(1) n]) (use new z in \<open>simp_all add: maxModels_def\<close>)
      ultimately show ?thesis using z(1,2) g True by (elim disjE) simp_all
    qed
  qed
qed

text \<open>What has been handed out stays true.\<close>

definition handed_ok :: "modelTable \<times> (string \<times> nat) list \<Rightarrow> bool" where
  "handed_ok s \<longleftrightarrow> table_ok (fst s) \<and> (\<forall>(n, i) \<in> set (snd s). n = [] \<and> i = 0 \<or> i < length (mt_names (fst s)) \<and> mt_names (fst s) ! i = n)"

lemma handed_grows:
  assumes "handed_ok (t, h)" and "table_ok t'" and "mt_names t' = mt_names t @ new"
  shows "handed_ok (t', h)"
  using assms by (auto simp: handed_ok_def nth_append)

lemma table_step_keeps: "handed_ok s \<Longrightarrow> event_ok e \<Longrightarrow> handed_ok (table_step s e)"
proof -
  assume s: "handed_ok s" and e: "event_ok e"
  obtain t h where s': "s = (t, h)" by (cases s)
  have ok: "table_ok t" using s by (simp add: handed_ok_def s')
  show ?thesis
  proof (cases e)
    case (Ask n zf nf)
    obtain r t' where I: "Index zf nf n t = (r, t')" by (cases "Index zf nf n t")
    from Index_keeps [OF ok _ _ _ I] e obtain new where k: "table_ok t'" "mt_names t' = mt_names t @ new"
        "\<forall>i. r = Inr i \<longrightarrow> n = [] \<and> i = 0 \<or> i < length (mt_names t') \<and> mt_names t' ! i = n" by (auto simp: Ask)
    have "handed_ok (t', h)" using handed_grows [OF s [unfolded s'] k(1,2)] .
    then show ?thesis using k(3) by (cases r) (auto simp: Ask s' I handed_ok_def)
  next
    case (Stop n k)
    then show ?thesis using stop_keeps [OF ok, of n k] e handed_grows [OF s [unfolded s']] by (auto simp: s')
  next
    case Restart
    then show ?thesis using open_same [OF ok] s by (simp add: s')
  qed
qed

lemma table_run_keeps: "handed_ok s \<Longrightarrow> \<forall>e \<in> set es. event_ok e \<Longrightarrow> handed_ok (run_events table_step s es)"
proof (induction es arbitrary: s)
  case (Cons e es)
  have "handed_ok (table_step s e)" using Cons.prems by (intro table_step_keeps) simp_all
  then show ?case using Cons by simp
qed simp

section \<open>Properties\<close>



text \<open>When the file cannot be cut back after a failed sync, the process goes on with a table that lacks the line: the next name is handed the
index of that line, and after a restart the index names the other model.\<close>

lemma uncut_append_shifts:
  "let (t, handed) = run_events table_step (empty_table, []) [Ask ''a'' NoFault (SyncFails False), Ask ''b'' NoFault NoFault, Restart]
   in handed = [(''b'', 1)] \<and> Name 1 t = ''a''"
  by (simp add: empty_table_def openModelTable_def Index_def load_name_def trim_carriage_def Name_def
      newline_def carriage_def maxModels_def MaxScanTokenSize_def Let_def)

end
