(* ===== verification/EnergyStore.thy ===== *)
theory EnergyStore
  imports EnergySplit ModelTable
begin

text \<open>
  The energy store and the recorder that fills it (\<open>energy/store.go\<close>, \<open>source.go\<close> and \<open>recorder.go\<close>): six rings for three resolutions, the roll-up
  of a minute into its hour and day, and the averaging of samples into minutes. A Unix time is an integer of seconds. The time zone is the argument
  \<open>day\<close>, which gives the start and the end of the local day that holds an instant. The disk is the content of the files; reads and writes of
  rings do not fail. The client dimension is left out.
\<close>

definition and_then :: "'e + 'a \<Rightarrow> ('a \<Rightarrow> 'e + 'b) \<Rightarrow> 'e + 'b" where
  "and_then x f = (case x of Inl e \<Rightarrow> Inl e | Inr a \<Rightarrow> f a)"

lemma and_then_simps [simp]: "and_then (Inl e) f = Inl e" "and_then (Inr a) f = f a"
  by (simp_all add: and_then_def)

section \<open>Opening\<close>

datatype Tier = TierMinute | TierHour | TierDay

definition DefaultMinuteSlots :: int where "DefaultMinuteSlots = 1440"

definition DefaultHourSlots :: int where "DefaultHourSlots = 8760"

definition DefaultDaySlots :: int where "DefaultDaySlots = 365"

record Config =
  ec_GPUIDs :: "int list"
  ec_MinuteSlots :: int
  ec_HourSlots :: int
  ec_DaySlots :: int
  ec_Source :: string

record energy_disk =
  ed_nodeMinute :: string
  ed_nodeHour :: string
  ed_nodeDay :: string
  ed_gpuMinute :: string
  ed_gpuHour :: string
  ed_gpuDay :: string
  ed_models :: string
  ed_source :: "string option"

record Store =
  st_cfg :: Config
  st_gpuLane :: "(int \<times> nat) list"
  st_nodeMinute :: ring
  st_nodeHour :: ring
  st_nodeDay :: ring
  st_gpuMinute :: ring
  st_gpuHour :: ring
  st_gpuDay :: ring
  st_models :: modelTable
  st_source :: string

datatype energy_error = NoGPUs | RingError ring_error | TableError table_error

definition with_defaults :: "Config \<Rightarrow> Config" where
  "with_defaults cfg =
     cfg\<lparr>ec_MinuteSlots := (if ec_MinuteSlots cfg \<le> 0 then DefaultMinuteSlots else ec_MinuteSlots cfg),
         ec_HourSlots := (if ec_HourSlots cfg \<le> 0 then DefaultHourSlots else ec_HourSlots cfg),
         ec_DaySlots := (if ec_DaySlots cfg \<le> 0 then DefaultDaySlots else ec_DaySlots cfg)\<rparr>"

definition lanes_of :: "int list \<Rightarrow> (int \<times> nat) list" where
  "lanes_of ids = fold (\<lambda>(lane, i) m. AList.update i lane m) (enumerate 0 ids) []"

definition open_tier :: "string \<Rightarrow> int \<Rightarrow> nat \<Rightarrow> nat \<Rightarrow> int \<Rightarrow> energy_error + ring" where
  "open_tier found slots lanes recSize period =
     (case openRing found (nat slots) lanes recSize of
        Inl e \<Rightarrow> Inl (RingError e)
      | Inr (r, _) \<Rightarrow> Inr (r\<lparr>rg_period := period\<rparr>))"

definition maxSourceLen :: nat where "maxSourceLen = 256"

definition readSource :: "string option \<Rightarrow> string" where
  "readSource f = (case f of None \<Rightarrow> '''' | Some b \<Rightarrow> TrimSpace (take maxSourceLen b))"

definition writeSource :: "string \<Rightarrow> string" where
  "writeSource src = src @ [newline]"

text \<open>The label the store goes on with, and the content of its file.\<close>

definition adoptSource :: "string \<Rightarrow> string option \<Rightarrow> string \<times> string option" where
  "adoptSource wanted f =
     (let onDisk = readSource f
      in if wanted = '''' then (onDisk, f)
         else if onDisk = wanted then (onDisk, f)
         else (wanted, Some (writeSource wanted)))"

definition Open :: "Config \<Rightarrow> bool \<Rightarrow> energy_disk \<Rightarrow> energy_error + Store \<times> string option" where
  "Open cfg cuts disk =
     (let cfg = with_defaults cfg; lanes = length (ec_GPUIDs cfg) in
      if ec_GPUIDs cfg = [] then Inl NoGPUs
      else
        and_then (open_tier (ed_nodeMinute disk) (ec_MinuteSlots cfg) 1 NodeRecordSize 60) (\<lambda>nodeMinute.
        and_then (open_tier (ed_nodeHour disk) (ec_HourSlots cfg) 1 NodeRecordSize 3600) (\<lambda>nodeHour.
        and_then (open_tier (ed_nodeDay disk) (ec_DaySlots cfg) 1 NodeRecordSize 86400) (\<lambda>nodeDay.
        and_then (open_tier (ed_gpuMinute disk) (ec_MinuteSlots cfg) lanes GPURecordSize 60) (\<lambda>gpuMinute.
        and_then (open_tier (ed_gpuHour disk) (ec_HourSlots cfg) lanes GPURecordSize 3600) (\<lambda>gpuHour.
        and_then (open_tier (ed_gpuDay disk) (ec_DaySlots cfg) lanes GPURecordSize 86400) (\<lambda>gpuDay.
          case openModelTable cuts (ed_models disk) of
            Inl e \<Rightarrow> Inl (TableError e)
          | Inr models \<Rightarrow>
              (case adoptSource (ec_Source cfg) (ed_source disk) of
                 (source, f) \<Rightarrow>
                   Inr (\<lparr>st_cfg = cfg, st_gpuLane = lanes_of (ec_GPUIDs cfg), st_nodeMinute = nodeMinute, st_nodeHour = nodeHour,
                         st_nodeDay = nodeDay, st_gpuMinute = gpuMinute, st_gpuHour = gpuHour, st_gpuDay = gpuDay,
                         st_models = models, st_source = source\<rparr>, f)))))))))"

definition DiskBytes :: "Store \<Rightarrow> int" where
  "DiskBytes s =
     (let cfg = st_cfg s;
          lanes = int (length (ec_GPUIDs cfg));
          node = (ec_MinuteSlots cfg + ec_HourSlots cfg + ec_DaySlots cfg) * int NodeRecordSize;
          gpu = (ec_MinuteSlots cfg + ec_HourSlots cfg + ec_DaySlots cfg) * lanes * int GPURecordSize
      in node + gpu + 6 * int ringHeaderLen)"

section \<open>Writing\<close>

definition minuteBucket :: "int \<Rightarrow> int" where "minuteBucket ts = go_div ts 60"

definition hourBucket :: "int \<Rightarrow> int" where "hourBucket ts = go_div ts 3600"

definition dayBucket :: "(int \<Rightarrow> int \<times> int) \<Rightarrow> int \<Rightarrow> int \<times> int \<times> int" where
  "dayBucket day ts = (case day ts of (start, stop) \<Rightarrow> (go_div start 86400, start, stop))"

text \<open>The records of each card, in the order the cards first appear.\<close>

definition by_gpu :: "GPURecord list \<Rightarrow> (16 word \<times> GPURecord list) list" where
  "by_gpu gpus =
     fold (\<lambda>g m. AList.update (gr_GPUID g) ((case map_of m (gr_GPUID g) of None \<Rightarrow> [] | Some gs \<Rightarrow> gs) @ [g]) m) gpus []"

fun put_gpus :: "(int \<times> nat) list \<Rightarrow> int \<Rightarrow> GPURecord list \<Rightarrow> ring \<Rightarrow> ring_error + ring" where
  "put_gpus gpuLane bucket [] r = Inr r"
| "put_gpus gpuLane bucket (g # gs) r =
     (case map_of gpuLane (uint (gr_GPUID g)) of
        None \<Rightarrow> put_gpus gpuLane bucket gs r
      | Some lane \<Rightarrow> and_then (put bucket (int lane) (encode_gpu g) r) (put_gpus gpuLane bucket gs))"

definition rollUpInto :: "(32 word \<Rightarrow> rat) \<Rightarrow> (rat \<Rightarrow> 32 word) \<Rightarrow> (int \<times> nat) list \<Rightarrow> int \<Rightarrow> int \<Rightarrow> NodeRecord list \<Rightarrow> GPURecord list \<Rightarrow>
    ring \<Rightarrow> ring \<Rightarrow> ring_error + ring \<times> ring" where
  "rollUpInto of32 to32 gpuLane bucket startTS nodes gpus nodeRing gpuRing =
     and_then (put bucket 0 (encode_node (aggregateNode of32 to32 nodes startTS)) nodeRing) (\<lambda>nodeRing.
     and_then (put_gpus gpuLane bucket (map (\<lambda>(_, gs). aggregateGPU of32 to32 gs startTS) (by_gpu gpus)) gpuRing) (\<lambda>gpuRing.
       Inr (nodeRing, gpuRing)))"

definition rollUp :: "(32 word \<Rightarrow> rat) \<Rightarrow> (rat \<Rightarrow> 32 word) \<Rightarrow> (int \<Rightarrow> int \<times> int) \<Rightarrow> int \<Rightarrow> Store \<Rightarrow> ring_error + Store" where
  "rollUp of32 to32 day ts s =
     (let hourStart = ts - ts mod 3600 in
      and_then (rollUpInto of32 to32 (st_gpuLane s) (hourBucket ts) hourStart
          (readNodeRange (st_nodeMinute s) hourStart (hourStart + 3600)) (readGPURange (st_gpuMinute s) hourStart (hourStart + 3600))
          (st_nodeHour s) (st_gpuHour s))
        (\<lambda>(nodeHour, gpuHour).
           let s = s\<lparr>st_nodeHour := nodeHour, st_gpuHour := gpuHour\<rparr>
           in case dayBucket day ts of
                (bucket, from, to) \<Rightarrow>
                  and_then (rollUpInto of32 to32 (st_gpuLane s) bucket from
                      (readNodeRange (st_nodeHour s) from to) (readGPURange (st_gpuHour s) from to) (st_nodeDay s) (st_gpuDay s))
                    (\<lambda>(nodeDay, gpuDay). Inr (s\<lparr>st_nodeDay := nodeDay, st_gpuDay := gpuDay\<rparr>))))"

definition WriteMinute :: "(32 word \<Rightarrow> rat) \<Rightarrow> (rat \<Rightarrow> 32 word) \<Rightarrow> (int \<Rightarrow> int \<times> int) \<Rightarrow> NodeRecord \<Rightarrow> GPURecord list \<Rightarrow> Store \<Rightarrow> ring_error + Store" where
  "WriteMinute of32 to32 day node gpus s =
     (let bucket = minuteBucket (nr_TS node) in
      and_then (put bucket 0 (encode_node node) (st_nodeMinute s)) (\<lambda>nodeMinute.
      and_then (put_gpus (st_gpuLane s) bucket gpus (st_gpuMinute s)) (\<lambda>gpuMinute.
        rollUp of32 to32 day (nr_TS node) (s\<lparr>st_nodeMinute := nodeMinute, st_gpuMinute := gpuMinute\<rparr>))))"

section \<open>Reading\<close>

definition ringFor :: "Tier \<Rightarrow> bool \<Rightarrow> Store \<Rightarrow> ring" where
  "ringFor tier gpu s =
     (if tier = TierMinute \<and> \<not> gpu then st_nodeMinute s
      else if tier = TierHour \<and> \<not> gpu then st_nodeHour s
      else if tier = TierDay \<and> \<not> gpu then st_nodeDay s
      else if tier = TierMinute then st_gpuMinute s
      else if tier = TierHour then st_gpuHour s
      else st_gpuDay s)"

definition ReadNode :: "Tier \<Rightarrow> int \<Rightarrow> int \<Rightarrow> Store \<Rightarrow> NodeRecord list" where
  "ReadNode tier from to s = readNodeRange (ringFor tier False s) from to"

definition ReadGPU :: "Tier \<Rightarrow> int \<Rightarrow> int \<Rightarrow> Store \<Rightarrow> GPURecord list" where
  "ReadGPU tier from to s = readGPURange (ringFor tier True s) from to"

definition node_KWh :: "(32 word \<Rightarrow> rat) \<Rightarrow> NodeRecord \<Rightarrow> rat" where
  "node_KWh of32 r = of32 (nr_Watts r) * of_int (uint (nr_CoveredS r)) / 3600 / 1000"

definition gpu_KWh :: "(32 word \<Rightarrow> rat) \<Rightarrow> GPURecord \<Rightarrow> rat" where
  "gpu_KWh of32 r = of32 (gr_AttrW r) * of_int (uint (gr_CoveredS r)) / 3600 / 1000"

definition ByModel :: "(32 word \<Rightarrow> rat) \<Rightarrow> Tier \<Rightarrow> int \<Rightarrow> int \<Rightarrow> Store \<Rightarrow> (string \<times> rat) list" where
  "ByModel of32 tier from to s =
     fold (\<lambda>rec out. let name = Name (unat (gr_ModelIdx rec)) (st_models s)
                   in add_key (if name = '''' then ''(idle)'' else name) (gpu_KWh of32 rec) out) (ReadGPU tier from to s) []"

definition NodeKWh :: "(32 word \<Rightarrow> rat) \<Rightarrow> Tier \<Rightarrow> int \<Rightarrow> int \<Rightarrow> Store \<Rightarrow> rat" where
  "NodeKWh of32 tier from to s = sum_list (map (node_KWh of32) (ReadNode tier from to s))"

definition Floors :: "(32 word \<Rightarrow> rat) \<Rightarrow> int \<Rightarrow> rat \<Rightarrow> (int \<times> rat) list \<Rightarrow> Store \<Rightarrow> rat \<times> (int \<times> rat) list" where
  "Floors of32 now fallbackNode fallbackGPU s =
     (let from = now - 86400
      in (node_floor of32 (ReadNode TierMinute from now s) fallbackNode, gpu_floors of32 (ReadGPU TierMinute from now s) fallbackGPU))"

section \<open>Recording\<close>

record gpuAcc =
  ga_sum :: rat
  ga_n :: int
  ga_modelTime :: "(string \<times> int) list"

record accumulator =
  ac_bucket :: int
  ac_nodeSum :: rat
  ac_nodeN :: int
  ac_gpus :: "(int \<times> gpuAcc) list"

definition newAccumulator :: "int \<Rightarrow> accumulator" where
  "newAccumulator bucket = \<lparr>ac_bucket = bucket, ac_nodeSum = 0, ac_nodeN = 0, ac_gpus = []\<rparr>"

text \<open>What the recorder is built with: the conversions, the time zone, the attribution step (none for the whole chassis) and the interval in seconds.\<close>

record recorder_config =
  rf_of32 :: "32 word \<Rightarrow> rat"
  rf_to32 :: "rat \<Rightarrow> 32 word"
  rf_day :: "int \<Rightarrow> int \<times> int"
  rf_attribute :: "(rat \<Rightarrow> GPUReading list \<Rightarrow> (int \<times> rat) list) option"
  rf_interval :: rat

record Recorder =
  rc_store :: Store
  rc_acc :: "accumulator option"

definition attributeBucket :: "recorder_config \<Rightarrow> Store \<Rightarrow> int \<Rightarrow> rat \<Rightarrow> GPUReading list \<Rightarrow> (int \<times> rat) list \<Rightarrow> (int \<times> rat) list" where
  "attributeBucket c s startTS nodeW readings raw =
     (case rf_attribute c of
        Some f \<Rightarrow> f nodeW readings
      | None \<Rightarrow>
          (case Floors (rf_of32 c) startTS nodeW raw s of
             (nodeFloor, gpuFloor) \<Rightarrow> at_Watts (Attribute nodeW readings gpuFloor nodeFloor)))"

definition mean_readings :: "(int \<times> gpuAcc) list \<Rightarrow> GPUReading list" where
  "mean_readings gpus =
     map (\<lambda>(i, g). \<lparr>gd_GPUID = i, gd_Watts = ga_sum g / of_int (ga_n g), gd_Model = dominantModel (ga_modelTime g)\<rparr>)
       (filter (\<lambda>(i, g). ga_n g \<noteq> 0) gpus)"

text \<open>The records of the cards. Each name that is new to the table is appended to it with the faults given; a reading whose name has no index is dropped.\<close>

fun gpu_records :: "recorder_config \<Rightarrow> (append_fault \<times> append_fault) list \<Rightarrow> int \<Rightarrow> 16 word \<Rightarrow> (int \<times> rat) list \<Rightarrow> GPUReading list \<Rightarrow> modelTable \<Rightarrow>
    GPURecord list \<times> modelTable" where
  "gpu_records c faults startTS covered attrW [] t = ([], t)"
| "gpu_records c faults startTS covered attrW (rd # rds) t =
     (case (case faults of [] \<Rightarrow> (NoFault, NoFault) | f # _ \<Rightarrow> f) of
        (zf, nf) \<Rightarrow>
          (case Index zf nf (gd_Model rd) t of
             (Inl _, t) \<Rightarrow> gpu_records c (drop 1 faults) startTS covered attrW rds t
           | (Inr idx, t) \<Rightarrow>
               (case gpu_records c (drop 1 faults) startTS covered attrW rds t of
                  (gs, t) \<Rightarrow>
                    (\<lparr>gr_TS = startTS, gr_GPUID = word_of_int (gd_GPUID rd), gr_ModelIdx = word_of_nat idx,
                      gr_AttrW = rf_to32 c (at_key attrW (gd_GPUID rd)), gr_RawW = rf_to32 c (gd_Watts rd), gr_CoveredS = covered\<rparr> # gs, t))))"

text \<open>Go's conversion of a float to an integer drops the fraction.\<close>

definition truncate_rat :: "rat \<Rightarrow> int" where
  "truncate_rat x = (if x < 0 then - \<lfloor>- x\<rfloor> else \<lfloor>x\<rfloor>)"

definition covered_seconds :: "rat \<Rightarrow> int \<Rightarrow> 16 word" where
  "covered_seconds interval n = clampCovered (min (truncate_rat (of_int n * interval + 1 / 2)) 60)"

definition finalise :: "recorder_config \<Rightarrow> (append_fault \<times> append_fault) list \<Rightarrow> accumulator \<Rightarrow> Store \<Rightarrow> Store" where
  "finalise c faults acc s =
     (if ac_nodeN acc = 0 then s
      else
        let startTS = ac_bucket acc * 60;
            nodeW = ac_nodeSum acc / of_int (ac_nodeN acc);
            covered = covered_seconds (rf_interval c) (ac_nodeN acc);
            readings = mean_readings (ac_gpus acc);
            raw = map (\<lambda>r. (gd_GPUID r, gd_Watts r)) readings;
            attrW = attributeBucket c s startTS nodeW readings raw
        in case gpu_records c faults startTS covered attrW readings (st_models s) of
             (gpus, models) \<Rightarrow>
               let s = s\<lparr>st_models := models\<rparr>;
                   node = \<lparr>nr_TS = startTS, nr_Watts = rf_to32 c nodeW, nr_CoveredS = covered\<rparr>
               in case WriteMinute (rf_of32 c) (rf_to32 c) (rf_day c) node gpus s of Inl _ \<Rightarrow> s | Inr s' \<Rightarrow> s')"

definition add_reading :: "GPUReading \<Rightarrow> (int \<times> gpuAcc) list \<Rightarrow> (int \<times> gpuAcc) list" where
  "add_reading rd gpus =
     (let g = (case map_of gpus (gd_GPUID rd) of None \<Rightarrow> \<lparr>ga_sum = 0, ga_n = 0, ga_modelTime = []\<rparr> | Some g \<Rightarrow> g);
          t = (case map_of (ga_modelTime g) (gd_Model rd) of None \<Rightarrow> 0 | Some n \<Rightarrow> n)
      in AList.update (gd_GPUID rd)
           \<lparr>ga_sum = ga_sum g + gd_Watts rd, ga_n = ga_n g + 1, ga_modelTime = AList.update (gd_Model rd) (t + 1) (ga_modelTime g)\<rparr> gpus)"

text \<open>One sample: the node's draw, if it could be measured, and the readings of the cards.\<close>

definition Sample :: "recorder_config \<Rightarrow> (append_fault \<times> append_fault) list \<Rightarrow> int \<Rightarrow> rat option \<Rightarrow> GPUReading list \<Rightarrow> Recorder \<Rightarrow> Recorder" where
  "Sample c faults now nodeWatts readings r =
     (case nodeWatts of
        None \<Rightarrow> r
      | Some watts \<Rightarrow>
          let bucket = minuteBucket now;
              r = (case rc_acc r of
                     Some acc \<Rightarrow> if ac_bucket acc \<noteq> bucket then r\<lparr>rc_store := finalise c faults acc (rc_store r), rc_acc := None\<rparr> else r
                   | None \<Rightarrow> r);
              acc = (case rc_acc r of None \<Rightarrow> newAccumulator bucket | Some acc \<Rightarrow> acc)
          in r\<lparr>rc_acc := Some (acc\<lparr>ac_nodeSum := ac_nodeSum acc + watts, ac_nodeN := ac_nodeN acc + 1,
                                  ac_gpus := fold add_reading readings (ac_gpus acc)\<rparr>)\<rparr>)"

definition Flush :: "recorder_config \<Rightarrow> (append_fault \<times> append_fault) list \<Rightarrow> Recorder \<Rightarrow> Recorder" where
  "Flush c faults r =
     (case rc_acc r of None \<Rightarrow> r | Some acc \<Rightarrow> r\<lparr>rc_store := finalise c faults acc (rc_store r), rc_acc := None\<rparr>)"

section \<open>One ring\<close>

context record_codec
begin

lemma holds_lane: "holds r h \<Longrightarrow> x \<in> set h \<Longrightarrow> fst x < rg_lanes r"
proof -
  assume h: "holds r h" and x: "x \<in> set h"
  have "0 < rg_lanes r" using h by (simp add: holds_def ring_ok_def)
  moreover have "fst (contents r ! home r x) = home r x mod rg_lanes r" using holds_member(2) [OF h x] by (simp add: contents_def)
  ultimately show ?thesis using holds_member(3) [OF h x] by (metis mod_less_divisor)
qed

text \<open>In a ring with one lane, the bucket just written holds the record just written and nothing else.\<close>

lemma read_own_bucket:
  assumes h: "holds r h" and x: "int64 (ts x)" "0 < lo" "lo \<le> ts x" "ts x < lo + rg_period r" and one: "rg_lanes r = 1"
    and al: "lo mod rg_period r = 0" and b: "bucket = go_div (ts x) (rg_period r)"
  obtains f where "put bucket 0 (enc x) r = Inr (r\<lparr>rg_file := f\<rparr>)" "holds (r\<lparr>rg_file := f\<rparr>) (retain (home r) (0, x) h)"
    "\<exists>buf. window lo (lo + rg_period r) (r\<lparr>rg_file := f\<rparr>) = Some buf \<and>
      mset (filter (\<lambda>y. lo \<le> ts y \<and> ts y < lo + rg_period r) (map dec (chunks width buf))) = {#x#}"
proof -
  let ?P = "\<lambda>y. lo \<le> ts y \<and> ts y < lo + rg_period r"
  have p: "0 < rg_period r" using h by (simp add: holds_def ring_ok_def)
  obtain f where f: "put (go_div (ts (snd (0, x))) (rg_period r)) (int (fst (0, x))) (enc (snd (0, x))) r = Inr (r\<lparr>rg_file := f\<rparr>)"
      "holds (r\<lparr>rg_file := f\<rparr>) (retain (home r) (0, x) h)"
    by (rule put_holds [OF h, of "(0, x)"]) (use x one in \<open>auto simp: live_def\<close>)
  have same: "go_div t (rg_period r) = lo div rg_period r" if "lo \<le> t" "t < lo + rg_period r" for t
  proof -
    have "t div rg_period r = lo div rg_period r"
      using that p al by (intro int_div_pos_eq [of _ _ _ "t - lo"]) (simp_all add: minus_mod_eq_mult_div [symmetric])
    then show ?thesis using that x p by simp
  qed
  have "\<not> ?P (snd y)" if y: "y \<in> set h" "home r y \<noteq> home r (0, x)" for y
  proof
    assume P: "?P (snd y)"
    have "fst y = 0" using holds_lane [OF h y(1)] one by simp
    moreover have "go_div (ts (snd y)) (rg_period r) = go_div (ts x) (rg_period r)" using same P x by metis
    ultimately have "home r y = home r (0, x)" by (simp only: home_def cell_of_def fst_conv snd_conv)
    then show False using y(2) by contradiction
  qed
  then have "filter ?P (map snd (retain (home r) (0, x) h)) = [x]"
    using x by (auto simp: retain_def filter_map filter_empty_conv)
  then show thesis using that [of f] f read_window [OF f(2) x(2), of "lo + rg_period r"] b by auto
qed
end

text \<open>A tier of the node series: its ring has one lane and holds some history.\<close>

definition node_tier :: "nat \<Rightarrow> int \<Rightarrow> ring \<Rightarrow> bool" where
  "node_tier slots period r \<longleftrightarrow> rg_slots r = slots \<and> rg_lanes r = 1 \<and> rg_period r = period \<and> (\<exists>h. node_records.holds r h)"

text \<open>A tier of the cards, of which only the geometry matters here.\<close>

definition gpu_tier :: "nat \<Rightarrow> nat \<Rightarrow> ring \<Rightarrow> bool" where
  "gpu_tier slots lanes r \<longleftrightarrow> ring_ok r \<and> rg_slots r = slots \<and> rg_lanes r = lanes \<and> rg_recSize r = GPURecordSize"

lemma node_tier_length: "node_tier slots period r \<Longrightarrow> length (rg_file r) = ringHeaderLen + slots * NodeRecordSize"
  by (auto simp: node_tier_def node_records.holds_def ring_ok_def ring_size_def)

lemma gpu_tier_length: "gpu_tier slots lanes r \<Longrightarrow> length (rg_file r) = ringHeaderLen + slots * lanes * GPURecordSize"
  by (simp add: gpu_tier_def ring_ok_def ring_size_def)

lemma node_tier_put:
  assumes t: "node_tier slots period r" and x: "int64 (nr_TS x)" "0 < lo" "lo \<le> nr_TS x" "nr_TS x < lo + period"
    and al: "lo mod period = 0" and b: "bucket = go_div (nr_TS x) period"
  obtains r' where "put bucket 0 (encode_node x) r = Inr r'" "node_tier slots period r'" "readNodeRange r' lo (lo + period) = [x]"
    "\<And>a z. 0 < a \<Longrightarrow> a \<le> nr_TS x \<Longrightarrow> nr_TS x < z \<Longrightarrow> x \<in> set (readNodeRange r' a z)"
proof -
  obtain h where h: "node_records.holds r h" using t by (auto simp: node_tier_def)
  have g: "rg_lanes r = 1" "rg_period r = period" "rg_slots r = slots" using t by (simp_all add: node_tier_def)
  obtain f where f: "put bucket 0 (encode_node x) r = Inr (r\<lparr>rg_file := f\<rparr>)" "node_records.holds (r\<lparr>rg_file := f\<rparr>) (retain (node_records.home r) (0, x) h)"
      "\<exists>buf. window lo (lo + period) (r\<lparr>rg_file := f\<rparr>) = Some buf \<and>
        mset (filter (\<lambda>y. lo \<le> nr_TS y \<and> nr_TS y < lo + period) (map decodeNode (chunks NodeRecordSize buf))) = {#x#}"
    using node_records.read_own_bucket [OF h x(1,2), unfolded g, OF x(3,4) refl al b] by blast
  have "readNodeRange (r\<lparr>rg_file := f\<rparr>) lo (lo + period) = [x]"
    using f(3) by (auto simp: readNodeRange_def simp del: mset_filter mset_map)
  moreover have "node_tier slots period (r\<lparr>rg_file := f\<rparr>)" using g f(2) by (auto simp: node_tier_def)
  moreover have "x \<in> set (readNodeRange (r\<lparr>rg_file := f\<rparr>) a z)" if az: "0 < a" "a \<le> nr_TS x" "nr_TS x < z" for a z
  proof -
    obtain buf where buf: "window a z (r\<lparr>rg_file := f\<rparr>) = Some buf"
        "mset (filter (\<lambda>y. a \<le> nr_TS y \<and> nr_TS y < z) (map decodeNode (chunks NodeRecordSize buf))) =
         mset (filter (\<lambda>y. a \<le> nr_TS y \<and> nr_TS y < z) (map snd (retain (node_records.home r) (0, x) h)))"
      using node_records.read_window [OF f(2) az(1), of z] by blast
    from mset_eq_setD [OF buf(2)] have "x \<in> set (filter (\<lambda>y. a \<le> nr_TS y \<and> nr_TS y < z) (map decodeNode (chunks NodeRecordSize buf)))"
      using az by (simp add: retain_def)
    then show ?thesis using buf(1) by (simp add: readNodeRange_def)
  qed
  ultimately show thesis using that f(1) by blast
qed

lemma go_div_mult: "0 < p \<Longrightarrow> go_div (b * p) p = b"
  by (simp add: go_div_def sgn_mult abs_mult sgn_mult_abs)

lemma gpu_tier_put:
  assumes "gpu_tier slots lanes r" and "lane < lanes"
  shows "\<exists>r'. put bucket (int lane) (encode_gpu g) r = Inr r' \<and> gpu_tier slots lanes r'"
proof -
  have ok: "ring_ok r" "0 < rg_period r" using assms by (simp_all add: gpu_tier_def ring_ok_def)
  obtain f where "put (go_div (bucket * rg_period r) (rg_period r)) (int lane) (encode_gpu g) r = Inr (r\<lparr>rg_file := f\<rparr>)" "ring_ok (r\<lparr>rg_file := f\<rparr>)"
    by (rule put_cell [OF ok(1), of lane "encode_gpu g" "bucket * rg_period r"]) (use assms in \<open>simp_all add: gpu_tier_def\<close>)
  then show ?thesis using assms(1) ok(2) by (auto simp: gpu_tier_def go_div_mult)
qed

lemma put_gpus_tier:
  assumes "gpu_tier slots lanes r" and "\<forall>(i, l) \<in> set gpuLane. l < lanes"
  shows "\<exists>r'. put_gpus gpuLane bucket gs r = Inr r' \<and> gpu_tier slots lanes r'"
  using assms(1)
proof (induction gs arbitrary: r)
  case (Cons g gs)
  show ?case
  proof (cases "map_of gpuLane (uint (gr_GPUID g))")
    case (Some lane)
    then have "lane < lanes" using assms(2) by (auto dest: map_of_SomeD)
    then obtain r' where "put bucket (int lane) (encode_gpu g) r = Inr r'" "gpu_tier slots lanes r'"
      using gpu_tier_put [OF Cons.prems] by blast
    then show ?thesis using Cons.IH [of r'] Some by simp
  qed (use Cons in simp)
qed simp

section \<open>The store\<close>

definition store_ok :: "Store \<Rightarrow> bool" where
  "store_ok s \<longleftrightarrow>
     (let cfg = st_cfg s; lanes = length (ec_GPUIDs cfg)
      in 0 < ec_MinuteSlots cfg \<and> 0 < ec_HourSlots cfg \<and> 0 < ec_DaySlots cfg \<and> (\<forall>(i, l) \<in> set (st_gpuLane s). l < lanes) \<and>
         node_tier (nat (ec_MinuteSlots cfg)) 60 (st_nodeMinute s) \<and> node_tier (nat (ec_HourSlots cfg)) 3600 (st_nodeHour s) \<and>
         node_tier (nat (ec_DaySlots cfg)) 86400 (st_nodeDay s) \<and> gpu_tier (nat (ec_MinuteSlots cfg)) lanes (st_gpuMinute s) \<and>
         gpu_tier (nat (ec_HourSlots cfg)) lanes (st_gpuHour s) \<and> gpu_tier (nat (ec_DaySlots cfg)) lanes (st_gpuDay s))"

definition store_bytes :: "Store \<Rightarrow> nat" where
  "store_bytes s = length (rg_file (st_nodeMinute s)) + length (rg_file (st_nodeHour s)) + length (rg_file (st_nodeDay s)) +
     length (rg_file (st_gpuMinute s)) + length (rg_file (st_gpuHour s)) + length (rg_file (st_gpuDay s))"

lemma store_ok_bytes: "store_ok s \<Longrightarrow> int (store_bytes s) = DiskBytes s"
  by (auto simp: store_ok_def Let_def store_bytes_def DiskBytes_def algebra_simps dest!: node_tier_length gpu_tier_length)

text \<open>An instant the store can place: its hour and its local day lie after the first day of 1970.\<close>

definition placeable :: "(int \<Rightarrow> int \<times> int) \<Rightarrow> int \<Rightarrow> bool" where
  "placeable day ts \<longleftrightarrow> 3600 \<le> ts \<and> ts < 2 ^ 63 \<and> 86400 \<le> fst (day ts) \<and> fst (day ts) < 2 ^ 63"

lemma rollUpInto_tiers:
  assumes n: "node_tier slots period nr" and g: "gpu_tier gslots lanes gr" and l: "\<forall>(i, l) \<in> set gpuLane. l < lanes"
    and t: "period \<le> start" "start < 2 ^ 63" "0 < period" and b: "bucket = go_div start period"
  obtains nr' gr' where "rollUpInto of32 to32 gpuLane bucket start nodes gpus nr gr = Inr (nr', gr')" "node_tier slots period nr'" "gpu_tier gslots lanes gr'"
    "start mod period = 0 \<Longrightarrow> readNodeRange nr' start (start + period) = [aggregateNode of32 to32 nodes start]"
proof -
  let ?x = "aggregateNode of32 to32 nodes start" and ?lo = "start - start mod period"
  have ts: "nr_TS ?x = start" by (simp add: aggregateNode_def Let_def)
  have m: "0 \<le> start mod period" "start mod period < period" using t by simp_all
  obtain nr' where nr': "put bucket 0 (encode_node ?x) nr = Inr nr'" "node_tier slots period nr'" "readNodeRange nr' ?lo (?lo + period) = [?x]"
    by (rule node_tier_put [OF n, of ?x ?lo bucket]) (use t m b in \<open>auto simp: ts int64_def mod_diff_left_eq\<close>)
  obtain gr' where gr': "put_gpus gpuLane bucket (map (\<lambda>(_, gs). aggregateGPU of32 to32 gs start) (by_gpu gpus)) gr = Inr gr'" "gpu_tier gslots lanes gr'"
    using put_gpus_tier [OF g l] by blast
  have "start mod period = 0 \<Longrightarrow> readNodeRange nr' start (start + period) = [?x]" using nr'(3) by simp
  then show thesis by (rule that [of nr' gr', rotated 3]) (use nr' gr' in \<open>simp_all add: rollUpInto_def\<close>)
qed

text \<open>What a write does to a well-formed store.\<close>

lemma WriteMinute_ok:
  assumes s: "store_ok s" and p: "placeable day (nr_TS node)"
  defines "h \<equiv> nr_TS node - nr_TS node mod 3600"
  obtains s' where "WriteMinute of32 to32 day node gpus s = Inr s'" "store_ok s'" "st_cfg s' = st_cfg s" "node \<in> set (ReadNode TierMinute h (h + 3600) s')"
    "ReadNode TierHour h (h + 3600) s' = [aggregateNode of32 to32 (ReadNode TierMinute h (h + 3600) s') h]"
    "ReadNode TierMinute (nr_TS node - nr_TS node mod 60) (nr_TS node - nr_TS node mod 60 + 60) s' = [node]"
proof -
  let ?ts = "nr_TS node" and ?cfg = "st_cfg s"
  note ok = s [unfolded store_ok_def Let_def]
  have lanes: "\<forall>(i, l) \<in> set (st_gpuLane s). l < length (ec_GPUIDs ?cfg)" using ok by blast
  have ts: "3600 \<le> ?ts" "?ts < 2 ^ 63" "0 \<le> ?ts mod 60" "?ts mod 60 < 60" "0 \<le> ?ts mod 3600" "?ts mod 3600 < 3600" using p by (simp_all add: placeable_def)
  have h: "3600 \<le> h" "h < 2 ^ 63" "h mod 3600 = 0" "h \<le> ?ts" "?ts < h + 3600"
  proof -
    have "h = 3600 * (?ts div 3600)" by (simp add: h_def minus_mod_eq_mult_div)
    moreover have "1 \<le> ?ts div 3600" using ts(1) by (simp add: zdiv_mono1 [of 3600 ?ts 3600, simplified])
    ultimately show "3600 \<le> h" "h mod 3600 = 0" by simp_all
    show "h < 2 ^ 63" "h \<le> ?ts" "?ts < h + 3600" using ts by (simp_all add: h_def)
  qed
  obtain nm where nm: "put (minuteBucket ?ts) 0 (encode_node node) (st_nodeMinute s) = Inr nm" "node_tier (nat (ec_MinuteSlots ?cfg)) 60 nm"
      "node \<in> set (readNodeRange nm h (h + 3600))" "readNodeRange nm (?ts - ?ts mod 60) (?ts - ?ts mod 60 + 60) = [node]"
    by (rule node_tier_put [of "nat (ec_MinuteSlots ?cfg)" 60 "st_nodeMinute s" node "?ts - ?ts mod 60" "minuteBucket ?ts"])
      (use ok ts h in \<open>simp_all add: int64_def minuteBucket_def mod_diff_left_eq\<close>)
  obtain gm where gm: "put_gpus (st_gpuLane s) (minuteBucket ?ts) gpus (st_gpuMinute s) = Inr gm"
      "gpu_tier (nat (ec_MinuteSlots ?cfg)) (length (ec_GPUIDs ?cfg)) gm"
    using put_gpus_tier [OF _ lanes] ok by blast
  have hb: "hourBucket ?ts = go_div h 3600" using ts h by (simp add: hourBucket_def h_def minus_mod_eq_mult_div)
  obtain nh gh where hour: "rollUpInto of32 to32 (st_gpuLane s) (hourBucket ?ts) h (readNodeRange nm h (h + 3600)) (readGPURange gm h (h + 3600))
        (st_nodeHour s) (st_gpuHour s) = Inr (nh, gh)" "node_tier (nat (ec_HourSlots ?cfg)) 3600 nh"
      "gpu_tier (nat (ec_HourSlots ?cfg)) (length (ec_GPUIDs ?cfg)) gh"
      "readNodeRange nh h (h + 3600) = [aggregateNode of32 to32 (readNodeRange nm h (h + 3600)) h]"
    by (rule rollUpInto_tiers [of "nat (ec_HourSlots ?cfg)" 3600 "st_nodeHour s" "nat (ec_HourSlots ?cfg)" "length (ec_GPUIDs ?cfg)" "st_gpuHour s"
          "st_gpuLane s" h "hourBucket ?ts" of32 to32 "readNodeRange nm h (h + 3600)" "readGPURange gm h (h + 3600)"])
      (use ok lanes h hb in simp_all)
  obtain start stop where d: "day ?ts = (start, stop)" by (cases "day ?ts")
  obtain nd gd where dy: "rollUpInto of32 to32 (st_gpuLane s) (go_div start 86400) start (readNodeRange nh start stop) (readGPURange gh start stop)
        (st_nodeDay s) (st_gpuDay s) = Inr (nd, gd)" "node_tier (nat (ec_DaySlots ?cfg)) 86400 nd"
      "gpu_tier (nat (ec_DaySlots ?cfg)) (length (ec_GPUIDs ?cfg)) gd"
    by (rule rollUpInto_tiers [of "nat (ec_DaySlots ?cfg)" 86400 "st_nodeDay s" "nat (ec_DaySlots ?cfg)" "length (ec_GPUIDs ?cfg)" "st_gpuDay s"
          "st_gpuLane s" start "go_div start 86400" of32 to32 "readNodeRange nh start stop" "readGPURange gh start stop"])
      (use ok lanes p d in \<open>simp_all add: placeable_def\<close>)
  let ?s' = "s\<lparr>st_nodeMinute := nm, st_gpuMinute := gm, st_nodeHour := nh, st_gpuHour := gh, st_nodeDay := nd, st_gpuDay := gd\<rparr>"
  show thesis
  proof (rule that)
    show "WriteMinute of32 to32 day node gpus s = Inr ?s'"
      using nm(1) gm(1) hour(1) dy(1) by (simp add: WriteMinute_def rollUp_def Let_def dayBucket_def d flip: h_def)
    show "store_ok ?s'" using ok nm(2) gm(2) hour(2,3) dy(2,3) by (simp add: store_ok_def Let_def)
    show "st_cfg ?s' = ?cfg" by simp
    show "node \<in> set (ReadNode TierMinute h (h + 3600) ?s')" using nm(3) by (simp add: ReadNode_def ringFor_def)
    show "ReadNode TierHour h (h + 3600) ?s' = [aggregateNode of32 to32 (ReadNode TierMinute h (h + 3600) ?s') h]"
      using hour(4) by (simp add: ReadNode_def ringFor_def)
    show "ReadNode TierMinute (?ts - ?ts mod 60) (?ts - ?ts mod 60 + 60) ?s' = [node]"
      using nm(4) by (simp add: ReadNode_def ringFor_def)
  qed
qed
definition blank_disk :: energy_disk where
  "blank_disk = \<lparr>ed_nodeMinute = [], ed_nodeHour = [], ed_nodeDay = [], ed_gpuMinute = [], ed_gpuHour = [], ed_gpuDay = [],
     ed_models = [], ed_source = None\<rparr>"

lemma open_tier_blank:
  assumes "0 < slots" and "0 < lanes"
  shows "open_tier [] slots lanes recSize period =
    Inr (reinit \<lparr>rg_file = [], rg_slots = nat slots, rg_lanes = lanes, rg_recSize = recSize, rg_period = period\<rparr>)"
  using assms by (simp add: open_tier_def openRing_def reinit_def)

lemma lanes_bounded: "\<forall>(i, l) \<in> set m. l < n \<Longrightarrow> \<forall>(i, l) \<in> set (fold (\<lambda>(lane, i) m. AList.update i lane m) (enumerate n ids) m). l < n + length ids"
proof (induction ids arbitrary: n m)
  case (Cons a ids)
  have "\<forall>(i, l) \<in> set (AList.update a n m). l < Suc n" by (rule pairs_update) (use Cons.prems in auto)
  from Cons.IH [OF this] show ?case by simp
qed simp

lemma opened_ok:
  assumes "Open cfg cuts blank_disk = Inr (s, f)"
  shows "store_ok s"
proof -
  let ?c = "with_defaults cfg"
  have ids: "ec_GPUIDs ?c \<noteq> []" using assms by (auto simp: Open_def Let_def)
  have pos: "0 < ec_MinuteSlots ?c" "0 < ec_HourSlots ?c" "0 < ec_DaySlots ?c"
    by (simp_all add: with_defaults_def DefaultMinuteSlots_def DefaultHourSlots_def DefaultDaySlots_def)
  have l: "0 < length (ec_GPUIDs ?c)" using ids by simp
  have t: "node_tier n p (reinit \<lparr>rg_file = [], rg_slots = n, rg_lanes = 1, rg_recSize = NodeRecordSize, rg_period = p\<rparr>)" if "0 < n" "0 < p" for n p
    unfolding node_tier_def using node_records.fresh_holds [OF that(1) _ that(2), of 1 "[]"] by (auto simp: reinit_def)
  have g: "gpu_tier n k (reinit \<lparr>rg_file = [], rg_slots = n, rg_lanes = k, rg_recSize = GPURecordSize, rg_period = p\<rparr>)" if "0 < n" "0 < k" "0 < p" for n k p
    using gpu_records.fresh_holds [OF that, of "[]"] by (simp add: gpu_tier_def gpu_records.holds_def) (simp add: reinit_def)
  have "\<forall>(i, l) \<in> set (lanes_of (ec_GPUIDs ?c)). l < length (ec_GPUIDs ?c)" using lanes_bounded [of "[]" 0 "ec_GPUIDs ?c"] by (simp add: lanes_of_def)
  then show ?thesis using assms ids pos l t g
    by (auto simp: Open_def Let_def blank_disk_def open_tier_blank store_ok_def split: sum.splits prod.splits)
qed

fun write_minutes :: "(32 word \<Rightarrow> rat) \<Rightarrow> (rat \<Rightarrow> 32 word) \<Rightarrow> (int \<Rightarrow> int \<times> int) \<Rightarrow> (NodeRecord \<times> GPURecord list) list \<Rightarrow> Store \<Rightarrow> ring_error + Store" where
  "write_minutes of32 to32 day [] s = Inr s"
| "write_minutes of32 to32 day ((node, gpus) # ws) s = and_then (WriteMinute of32 to32 day node gpus s) (write_minutes of32 to32 day ws)"

lemma write_minutes_ok:
  "store_ok s \<Longrightarrow> \<forall>(node, gpus) \<in> set ws. placeable day (nr_TS node) \<Longrightarrow>
    \<exists>s'. write_minutes of32 to32 day ws s = Inr s' \<and> store_ok s' \<and> st_cfg s' = st_cfg s"
proof (induction ws arbitrary: s)
  case (Cons w ws)
  obtain node gpus where w: "w = (node, gpus)" by (cases w)
  obtain s1 where s1: "WriteMinute of32 to32 day node gpus s = Inr s1" "store_ok s1" "st_cfg s1 = st_cfg s"
    using WriteMinute_ok [OF Cons.prems(1)] Cons.prems(2) w by (metis case_prod_conv list.set_intros(1))
  then show ?case using Cons.IH [OF s1(2)] Cons.prems(2) by (auto simp: w)
qed simp

lemma write_minutes_append:
  "write_minutes of32 to32 day (xs @ ys) s = and_then (write_minutes of32 to32 day xs s) (write_minutes of32 to32 day ys)"
  by (induction xs arbitrary: s) (auto simp: and_then_def split: sum.split)

section \<open>The recorder\<close>

definition run_samples :: "recorder_config \<Rightarrow> (int \<times> rat \<times> GPUReading list) list \<Rightarrow> Recorder \<Rightarrow> Recorder" where
  "run_samples c samples r = fold (\<lambda>(now, watts, readings) r. Sample c [] now (Some watts) readings r) samples r"

definition sample_watts :: "(int \<times> rat \<times> GPUReading list) list \<Rightarrow> rat" where
  "sample_watts samples = sum_list (map (\<lambda>(_, w, _). w) samples)"

text \<open>Samples of one minute only add to the accumulator.\<close>

lemma samples_accumulate:
  assumes "\<forall>(now, _) \<in> set samples. minuteBucket now = b" and "rc_acc r = Some acc" and "ac_bucket acc = b"
  shows "\<exists>g. run_samples c samples r = r\<lparr>rc_acc := Some (acc\<lparr>ac_nodeSum := ac_nodeSum acc + sample_watts samples,
    ac_nodeN := ac_nodeN acc + int (length samples), ac_gpus := g\<rparr>)\<rparr>"
  using assms
proof (induction samples arbitrary: r acc)
  case Nil
  then show ?case by (intro exI [of _ "ac_gpus acc"]) (simp add: run_samples_def sample_watts_def)
next
  case (Cons x samples)
  obtain now w rds where x: "x = (now, w, rds)" by (cases x)
  let ?acc = "acc\<lparr>ac_nodeSum := ac_nodeSum acc + w, ac_nodeN := ac_nodeN acc + 1, ac_gpus := fold add_reading rds (ac_gpus acc)\<rparr>"
  have "Sample c [] now (Some w) rds r = r\<lparr>rc_acc := Some ?acc\<rparr>" using Cons.prems by (simp add: Sample_def Let_def x)
  moreover obtain g where "run_samples c samples (r\<lparr>rc_acc := Some ?acc\<rparr>) = (r\<lparr>rc_acc := Some ?acc\<rparr>)\<lparr>rc_acc := Some (?acc\<lparr>ac_nodeSum := ac_nodeSum ?acc + sample_watts samples,
      ac_nodeN := ac_nodeN ?acc + int (length samples), ac_gpus := g\<rparr>)\<rparr>"
    using Cons.IH [of "r\<lparr>rc_acc := Some ?acc\<rparr>" ?acc] Cons.prems by (auto simp: x)
  ultimately have "run_samples c (x # samples) r = r\<lparr>rc_acc := Some (acc\<lparr>ac_nodeSum := ac_nodeSum acc + sample_watts (x # samples),
      ac_nodeN := ac_nodeN acc + int (length (x # samples)), ac_gpus := g\<rparr>)\<rparr>"
    by (simp add: run_samples_def sample_watts_def x add.assoc)
  then show ?case by blast
qed

lemma samples_from_none:
  assumes "samples \<noteq> []" and "\<forall>(now, _) \<in> set samples. minuteBucket now = b" and "rc_acc r = None"
  shows "\<exists>g. run_samples c samples r = r\<lparr>rc_acc := Some \<lparr>ac_bucket = b, ac_nodeSum = sample_watts samples, ac_nodeN = int (length samples), ac_gpus = g\<rparr>\<rparr>"
proof -
  obtain now w rds rest where s: "samples = (now, w, rds) # rest" using assms(1) by (metis list.exhaust prod_cases3)
  let ?acc = "\<lparr>ac_bucket = b, ac_nodeSum = w, ac_nodeN = 1, ac_gpus = fold add_reading rds []\<rparr>"
  have "Sample c [] now (Some w) rds r = r\<lparr>rc_acc := Some ?acc\<rparr>" using assms(2,3) by (simp add: Sample_def Let_def s newAccumulator_def)
  then have "run_samples c samples r = run_samples c rest (r\<lparr>rc_acc := Some ?acc\<rparr>)" by (simp add: run_samples_def s)
  moreover have "\<exists>g. run_samples c rest (r\<lparr>rc_acc := Some ?acc\<rparr>) = r\<lparr>rc_acc := Some \<lparr>ac_bucket = b, ac_nodeSum = w + sample_watts rest,
      ac_nodeN = 1 + int (length rest), ac_gpus = g\<rparr>\<rparr>"
    using samples_accumulate [of rest b "r\<lparr>rc_acc := Some ?acc\<rparr>" ?acc c] assms(2) by (auto simp: s)
  ultimately show ?thesis by (simp add: s sample_watts_def)
qed

section \<open>Properties\<close>





text \<open>A day's bucket is its local midnight divided by the length of a day. In a zone whose offset crosses zero, Europe/London for one, the
Sunday clocks go forward starts at midnight UTC and the Monday an hour before midnight UTC, so both are the same bucket.\<close>

lemma dayBucket_collides:
  assumes "day 1774780000 = (1774742400, 1774825200)" and "day 1774830000 = (1774825200, 1774911600)"
  shows "fst (dayBucket day 1774780000) = fst (dayBucket day 1774830000)"
  using assms by (simp add: dayBucket_def)

end
