(* ===== verification/Spec2Isabelle.thy ===== *)
theory Spec2Isabelle
  imports Ladder LoadGate Backend Capacity Rendezvous RouterPicks RouterLeases Durable AliasStore MeshAuth JoinCode AliasService SelfUpdate EnergyStore
begin

text \<open>
  A verification library for viiwork, a program that runs on every machine of a fleet and serves language models there. A node
  starts inference processes, its \<^emph>\<open>backends\<close>, and keeps them healthy; it publishes its free capacity, polls the other
  nodes for theirs, and routes each request to a free slot on itself or on a peer. Requests that find no slot wait at the node they
  entered. Around this core there are mesh-wide model aliases that spread by gossip, authentication between nodes, a self-update that
  replaces the binary and falls back by itself, and a record of the energy used.

  \<^bold>\<open>How the parts correspond to the source\<close> (paths are under \<open>src/\<close>).

  \<^item> \<open>Prelude\<close>: Go's clock and durations, runs of state machines, and the locales \<open>invariant_machine\<close> and \<open>absorbing_machine\<close>: what holds of
    every run when each step preserves it. The component theories interpret them on their own step functions.
  \<^item> \<open>GoText\<close>: the functions of Go's text packages the code uses (decimal integers, hex, base64, splitting, trimming), each decoder with its round trip.
  \<^item> \<open>Ladder\<close>, \<open>LoadGate\<close>, \<open>Backend\<close>: \<open>internal/supervisor/ladder.go\<close>, \<open>loadgate.go\<close>, \<open>backend.go\<close>, \<open>snapshot.go\<close>, \<open>images.go\<close>.
    The ladder is a function from a probe result to a new state and an action. The gate's tickets are numbers. A backend is a record with the counters
    the router and the snapshots read.
  \<^item> \<open>Meshapi\<close>, \<open>Capacity\<close>: the wire types of \<open>meshapi\<close> and the pollers of \<open>mesh/capacity\<close>. Each section under a mutex is one step, and a
    poll is three of them, so other steps may come in between.
  \<^item> \<open>Rendezvous\<close>, \<open>Router\<close>, \<open>RouterStages\<close>, \<open>RouterPicks\<close>, \<open>RouteQueue\<close>, \<open>RouterLeases\<close>: \<open>internal/route\<close>. \<open>Router\<close> has the state and every
    stage of a pick in the order of the code, \<open>RouteQueue\<close> the queue with its dispatch loop. \<open>RouterLeases\<close> puts them together in the inductive relation
    \<open>gateway_run\<close> with one rule for each section under the router mutex.
  \<^item> \<open>Durable\<close>: \<open>internal/durable\<close>, the calls that replace a file, each of which may fail or be the last before the machine stops.
  \<^item> \<open>AliasStore\<close>, \<open>AliasService\<close>: \<open>internal/alias\<close>. The table with its merge rule and file, then the resolver, the service and the HTTP interface.
  \<^item> \<open>MeshAuth\<close>, \<open>JoinCode\<close>: \<open>internal/meshauth\<close>, \<open>internal/proxy/forwardauth.go\<close>, \<open>internal/joincode\<close>.
  \<^item> \<open>Versions\<close>, \<open>SelfUpdate\<close>: \<open>internal/update\<close>. The state files, the launcher, the confirmer, the transitions and their HTTP interface; \<open>node_life\<close> runs
    them in any order with any write failing.
  \<^item> \<open>EnergyRing\<close>, \<open>EnergySplit\<close>, \<open>ModelTable\<close>, \<open>EnergyStore\<close>: \<open>energy\<close>. Records and ring files as bytes; attribution, aggregation and the split
    between clients on rationals; the table of model names with failing appends; the store with its three resolutions and the recorder.

  \<^bold>\<open>What the lemmas show.\<close>

  \<^item> Supervision: respawns are bounded in time, a crash loop ends, death is final, a busy backend drains before it is given up, one model loads at a time and in order.
  \<^item> Capacity: a published count never promises more than is free; a stored report came from the member it is stored for; polls of a member do not overlap.
  \<^item> Routing: a pick takes a slot exactly when a permitted host has one free, every error has its documented cause, sessions return to their host, and in every reachable
    state the counters and reservations match the leases that are out. A release always returns; a dispatch serves everything that can be served, in arrival order.
  \<^item> Aliases: tables converge however gossip delivers entries, a write survives or changes nothing, only an authorised write changes anything, and a set reaches the members.
  \<^item> Trust: a signed forward is accepted once within its window; join codes survive the round trip.
  \<^item> Updates: the order of versions is SemVer's; a node returns only to a release that was seen healthy; a release that never confirms is left.
  \<^item> Energy: a ring file refines an abstract history of records; an index of the model table never changes its meaning; power charged to cards and baseline adds up, and so do the
    shares of the clients; a recorded minute is the mean of its samples, and an hour is the aggregate of its minutes.

  \<^bold>\<open>Contracts as locales.\<close> \<open>local_backend\<close> is what the router relies on of a backend and is interpreted on \<open>Backend\<close>; \<open>polled_value\<close> is what the polling core relies
  on and is interpreted on capacity reports; \<open>record_codec\<close> is what a ring relies on of its records and is interpreted on node and GPU records; the machines of the
  prelude are interpreted on forwards, alias tables and the life of a node, among others.

  \<^bold>\<open>Idealisations.\<close> A \<open>time.Time\<close> is an integer of nanoseconds and \<open>Sub\<close> saturates as in Go. Strings are byte strings. A \<open>float64\<close> is an exact rational, a stored \<open>float32\<close> its bit
  pattern. A Go map is a function to options, or an association list where its order matters; where Go iterates over a map in random order the order is an argument.
  Integers are unbounded except where the code can wrap: versions of aliases, hashes, checksums, version identifiers and encoded record fields are kept at their width.
  One reading of the clock serves a whole critical section. Log lines are left out.

  \<^bold>\<open>Loops.\<close> Recursion is structural or has a termination proof. The dispatch loop of the queue is a partial function into \<open>option\<close>; that it returns is proved
  from the number of waiters, which every pass that makes progress lowers. No definition runs on fuel.

  \<^bold>\<open>Parameters.\<close> JSON and YAML codecs, HMAC, SHA-256, \<open>netip\<close> address parsing, the HTTP exchange of a poll and the random source are arguments. A property that relies on
  one of them names the behaviour as a hypothesis and has a witness with a concrete function.

  \<^bold>\<open>Not modelled.\<close>

  \<^item> The goroutines around the ladder and the gate (\<open>loop.go\<close>, \<open>supervisor.go\<close>, \<open>model.go\<close>) and the process itself: channels, timers and operating-system calls; the decisions they
    carry out are those of \<open>Ladder\<close> and \<open>LoadGate\<close>.
  \<^item> Staging of an update (\<open>internal/update/stage.go\<close>): downloads, signatures and archives. The transitions take its outcome as a parameter.
  \<^item> The client files of the energy store, tariffs and costs, performance scores, the activity log, configuration, pipelines and the HTTP proxy
    around the router: each is a component of its own that the theorems here do not depend on.
  \<^item> KV-cache transfer, engines, telemetry, gossip membership and discovery: they talk to third-party programs, devices and networks.
  \<^item> The node's assembly, setup, terminal tools, release tooling and the acceptance suite: wiring, rendering and command lines.

\<close>

end
